(* ===== verification/Prelude.thy ===== *)
theory Prelude
  imports Main "HOL-Library.Word" "HOL-Library.Sublist"
begin

unbundle bit_operations_syntax

section \<open>Prelude: Rust integers, byte buffers and durations\<close>

text \<open>
  The types every component shares. \<open>u8\<close> and \<open>u32\<close> are machine words; \<open>usize\<close> is a
  natural number (the crate only compares and subtracts such values, and every place where a
  \<open>usize\<close> is narrowed to \<open>u32\<close> is written with the wrap-around of the cast);
  a \<open>Duration\<close> is its number of nanoseconds. \<open>vec\<close> is Rust's \<open>Vec<u8>\<close> with its capacity,
  because the crate documents that its buffers never allocate after a limit is set.
\<close>

named_theorems vec_simps \<open>equations and bounds of the byte buffer operations\<close>
named_theorems act_simps \<open>unfolding rules of the asynchronous actions\<close>
named_theorems wp_rules \<open>what an action ensures on every network, computed backwards\<close>
named_theorems lift_rules \<open>actions that do the same on embedded states\<close>
named_theorems err_simps \<open>error conversions pushed into sequences\<close>
named_theorems keep_rules \<open>actions that only move the world along a preorder\<close>
named_theorems time_rules \<open>actions that keep their deadline\<close>
named_theorems delay_rules \<open>composition rules of the time an action takes\<close>
named_theorems free_rules \<open>composition rules of runs with no deadline around them\<close>
named_theorems talk_rules \<open>composition rules of actions that follow a dialogue\<close>
named_theorems exec_rules \<open>composition rules of runs on a reliable connection\<close>

type_synonym byte = "8 word"
type_synonym u32 = "32 word"
type_synonym usize = nat
type_synonym duration = nat

definition from_secs :: "nat \<Rightarrow> duration" where
  "from_secs s = s * 1000000000"

definition from_millis :: "nat \<Rightarrow> duration" where
  "from_millis ms = ms * 1000000"

text \<open>The cast \<open>n as u32\<close> of a \<open>usize\<close> keeps the low 32 bits.\<close>

abbreviation usize_as_u32 :: "usize \<Rightarrow> u32" where
  "usize_as_u32 n \<equiv> word_of_nat n"

lemma unat_usize_as_u32: "unat (usize_as_u32 n) = n mod 2 ^ 32"
  by (simp add: unat_of_nat)

lemma unat_usize_as_u32_small: "n < 2 ^ 32 \<Longrightarrow> unat (usize_as_u32 n) = n"
  by (simp add: unat_usize_as_u32)

lemma unat_u32_less [simp]: "unat (x :: u32) < 4294967296"
  using unsigned_less [of x] by simp

subsection \<open>Big-endian bytes of a 32-bit word\<close>

definition to_be_bytes :: "u32 \<Rightarrow> byte list" where
  "to_be_bytes w = [ucast (drop_bit 24 w), ucast (drop_bit 16 w), ucast (drop_bit 8 w), ucast w]"

definition from_be_bytes :: "byte list \<Rightarrow> u32" where
  "from_be_bytes bs =
     (case bs of
        [a, b, c, d] \<Rightarrow> push_bit 24 (ucast a) OR push_bit 16 (ucast b) OR push_bit 8 (ucast c) OR ucast d
      | _ \<Rightarrow> 0)"

lemma length_to_be_bytes [simp]: "length (to_be_bytes w) = 4"
  by (simp add: to_be_bytes_def)

lemma from_be_bytes_to_be_bytes [simp]: "from_be_bytes (to_be_bytes w) = w"
proof (rule bit_word_eqI)
  fix n assume "n < LENGTH(32)"
  then show "bit (from_be_bytes (to_be_bytes w)) n \<longleftrightarrow> bit w n"
    by (cases "n < 16"; cases "n < 24"; simp add: from_be_bytes_def to_be_bytes_def bit_simps)
       (auto simp: not_less)
qed

lemma length_four_obtain: "length bs = 4 \<Longrightarrow> \<exists>a b c d. bs = [a, b, c, d]"
  by (auto simp: length_Suc_conv numeral_eq_Suc)

lemma to_be_bytes_from_be_bytes [simp]: "length bs = 4 \<Longrightarrow> to_be_bytes (from_be_bytes bs) = bs"
  by (auto dest!: length_four_obtain simp: from_be_bytes_def to_be_bytes_def intro!: bit_word_eqI)
     (auto simp add: bit_simps dest: bit_imp_le_length)

lemma to_be_bytes_inject [simp]: "to_be_bytes v = to_be_bytes w \<longleftrightarrow> v = w"
  by (metis from_be_bytes_to_be_bytes)

subsection \<open>Byte vectors with their capacity\<close>

text \<open>
  \<open>Vec data cap\<close> is a \<open>Vec<u8>\<close> holding \<open>data\<close> with room for \<open>cap\<close> bytes. Growing follows the
  amortised policy of the standard library: at least the bytes needed, at least twice the old
  capacity, at least eight. \<open>vec_try_reserve\<close> takes the allocator as a parameter: \<open>alloc n\<close> tells
  whether a block of \<open>n\<close> bytes can be had.
\<close>

datatype vec = Vec (vdata: "byte list") (vcap: nat)

datatype try_reserve_error = CapacityOverflow | AllocError

definition isize_max :: nat where
  "isize_max = 2 ^ 63 - 1"

definition grown_cap :: "nat \<Rightarrow> nat \<Rightarrow> nat" where
  "grown_cap cap needed = (if needed \<le> cap then cap else max 8 (max (2 * cap) needed))"

definition vec_len :: "vec \<Rightarrow> nat" where
  "vec_len v = length (vdata v)"

definition vec_with_capacity :: "nat \<Rightarrow> vec" where
  "vec_with_capacity n = Vec [] n"

definition vec_clear :: "vec \<Rightarrow> vec" where
  "vec_clear v = Vec [] (vcap v)"

definition vec_extend :: "byte list \<Rightarrow> vec \<Rightarrow> vec" where
  "vec_extend bs v = Vec (vdata v @ bs) (grown_cap (vcap v) (vec_len v + length bs))"

definition vec_push :: "byte \<Rightarrow> vec \<Rightarrow> vec" where
  "vec_push b v = vec_extend [b] v"

definition vec_resize :: "nat \<Rightarrow> byte \<Rightarrow> vec \<Rightarrow> vec" where
  "vec_resize n x v =
     (if n \<le> vec_len v then Vec (take n (vdata v)) (vcap v)
      else vec_extend (replicate (n - vec_len v) x) v)"

definition vec_try_reserve :: "(nat \<Rightarrow> bool) \<Rightarrow> nat \<Rightarrow> vec \<Rightarrow> try_reserve_error + vec" where
  "vec_try_reserve alloc additional v =
     (let needed = vec_len v + additional; cap = grown_cap (vcap v) needed in
      if needed \<le> vcap v then Inr v
      else if isize_max < cap then Inl CapacityOverflow
      else if alloc cap then Inr (Vec (vdata v) cap)
      else Inl AllocError)"

text \<open>Writing the bytes \<open>bs\<close> into the slice \<open>buf[at..]\<close>; a slice cannot change length.\<close>

definition vec_write :: "nat \<Rightarrow> byte list \<Rightarrow> vec \<Rightarrow> vec" where
  "vec_write at bs v =
     Vec (take (vec_len v) (take at (vdata v) @ bs @ drop (at + length bs) (vdata v))) (vcap v)"

lemma vec_len_Vec [vec_simps]: "vec_len (Vec d c) = length d"
  by (simp add: vec_len_def)

lemma grown_cap_ge: "cap \<le> grown_cap cap needed" "needed \<le> grown_cap cap needed"
  by (auto simp: grown_cap_def)

lemma grown_cap_fits [vec_simps]: "needed \<le> cap \<Longrightarrow> grown_cap cap needed = cap"
  by (simp add: grown_cap_def)

lemma vec_clear_simps [vec_simps]:
  "vdata (vec_clear v) = []" "vcap (vec_clear v) = vcap v" "vec_len (vec_clear v) = 0"
  by (simp_all add: vec_clear_def vec_len_def)

lemma vec_clear_Vec [vec_simps]: "vec_clear (Vec d c) = Vec [] c"
  by (simp add: vec_clear_def)

lemma vec_extend_simps [vec_simps]:
  "vdata (vec_extend bs v) = vdata v @ bs"
  "vec_len (vec_extend bs v) = vec_len v + length bs"
  by (simp_all add: vec_extend_def vec_len_def)

lemma vec_push_simps [vec_simps]: "vdata (vec_push b v) = vdata v @ [b]"
  by (simp add: vec_push_def vec_simps)

lemma vec_len_resize [vec_simps]: "vec_len (vec_resize n x v) = n"
  by (auto simp: vec_resize_def vec_len_def vec_extend_def)

lemma vec_write_simps [vec_simps]:
  "vcap (vec_write at bs v) = vcap v"
  "vec_len (vec_write at bs v) = vec_len v"
  by (auto simp: vec_write_def vec_len_def)

lemma vec_cap_mono [vec_simps]:
  "vcap v \<le> vcap (vec_extend bs v)" "vcap v \<le> vcap (vec_push b v)" "vcap v \<le> vcap (vec_resize n x v)"
  by (auto simp: vec_extend_def vec_push_def vec_resize_def grown_cap_ge)

lemma vec_resize_within_cap [vec_simps]:
  "n \<le> vcap v \<Longrightarrow> vcap (vec_resize n x v) = vcap v"
  by (auto simp: vec_resize_def vec_extend_def grown_cap_def vec_len_def)

lemma vec_try_reserve_ok:
  "vec_try_reserve alloc additional v = Inr v' \<Longrightarrow>
     vdata v' = vdata v \<and> vec_len v + additional \<le> vcap v' \<and> vcap v \<le> vcap v'"
  by (auto simp: vec_try_reserve_def Let_def grown_cap_ge split: if_splits)

text \<open>Writing a chunk behind what is filled already extends the filled part.\<close>

lemma vec_write_fill:
  assumes "at + length bs \<le> vec_len v"
  shows "take (at + length bs) (vdata (vec_write at bs v)) = take at (vdata v) @ bs"
  using assms by (cases bs) (auto simp: vec_write_def vec_len_def min_def)

end
