(* ===== verification/Errors.thy ===== *)
theory Errors
  imports Prelude
begin

section \<open>Errors of the crate (lib.rs)\<close>

text \<open>
  The error type every operation of the crate returns, with the constructors of \<open>lib.rs\<close>.
  Texts built with \<open>format!\<close> are kept as their template and the numbers put into it; rendering
  them is not modelled. I/O and TLS errors come from the operating system and the TLS stack: an
  I/O error is told apart only by the one kind the crate tests, a TLS error not at all.
\<close>

datatype io_error = UnexpectedEof | OsError nat

type_synonym tls_error = nat

datatype message = Fmt string "nat list"

abbreviation lit :: "string \<Rightarrow> message" where
  "lit s \<equiv> Fmt s []"

datatype error =
    Io io_error
  | Timeout message
  | Tls tls_error
  | Protocol message
  | BufferOverflow usize usize
  | NotConnected
  | ConnectionClosed
  | ConnectionClosedMidFrame usize usize
  | ResponseError byte
  | Config message
  | Other box_error
  | Msg message
and box_error = BoxStr message | BoxError error | BoxIo io_error

text \<open>\<open>Error::is_disconnect\<close>: the peer went away, at a frame boundary or inside a frame.\<close>

fun is_disconnect :: "error \<Rightarrow> bool" where
  "is_disconnect ConnectionClosed = True"
| "is_disconnect (ConnectionClosedMidFrame received expected) = True"
| "is_disconnect _ = False"

text \<open>
  The conversions of the \<open>?\<close> operator and of \<open>.into()\<close>: \<open>From<&str>\<close> and \<open>From<String>\<close>,
  \<open>From<Elapsed>\<close>, and the \<open>#[from]\<close> conversions of I/O, TLS and boxed errors.
\<close>

definition error_from_str :: "message \<Rightarrow> error" where
  "error_from_str s = Msg s"

definition error_from_string :: "message \<Rightarrow> error" where
  "error_from_string s = Msg s"

definition error_from_elapsed :: "error" where
  "error_from_elapsed = Timeout (lit ''operation timed out'')"

definition error_from_io :: "io_error \<Rightarrow> error" where
  "error_from_io e = Io e"

definition error_from_tls :: "tls_error \<Rightarrow> error" where
  "error_from_tls e = Tls e"

definition error_from_box :: "box_error \<Rightarrow> error" where
  "error_from_box b = Other b"

lemma is_disconnect_iff:
  "is_disconnect e \<longleftrightarrow> e = ConnectionClosed \<or> (\<exists>r n. e = ConnectionClosedMidFrame r n)"
  by (cases e) auto

end
