(* ===== verification/Async.thy ===== *)
theory Async
  imports Errors
begin

section \<open>Asynchronous actions over a network\<close>

text \<open>
  The crate is written against an asynchronous runtime. An operation that awaits becomes a
  function of the deadline it runs under, of the component's own mutable state \<open>'c\<close> and of the
  world \<open>'w\<close> outside the crate; it returns what polling it gave, the new state and the new world.
  \<open>Ready a\<close> is completion. \<open>Pending\<close> is an operation that had not completed when its deadline
  passed: its future was dropped at the await point it had reached, and the state and world are
  those at that point (without a deadline: it never completes). So a timeout and a cancelled
  branch of a \<open>select!\<close> both drop a future half way, with what it had already read and written
  still done, exactly as in the source.
\<close>

datatype 'a poll = Ready 'a | Pending

datatype elapsed = Elapsed

type_synonym ('w, 'a) fut = "nat option \<Rightarrow> 'w \<Rightarrow> 'a poll \<times> 'w"
type_synonym ('c, 'w, 'a) act = "nat option \<Rightarrow> 'c \<Rightarrow> 'w \<Rightarrow> 'a poll \<times> 'c \<times> 'w"

subsection \<open>Sequencing\<close>

definition ret :: "'a \<Rightarrow> ('c, 'w, 'a) act" where
  "ret a = (\<lambda>dl c w. (Ready a, c, w))"

text \<open>\<open>await m k\<close> is \<open>let x = m.await; k(x)\<close>; \<open>await_try m k\<close> is \<open>let x = m.await?; k(x)\<close>.\<close>

definition await :: "('c, 'w, 'a) act \<Rightarrow> ('a \<Rightarrow> ('c, 'w, 'b) act) \<Rightarrow> ('c, 'w, 'b) act" where
  "await m k = (\<lambda>dl c w.
     case m dl c w of
       (Ready a, c', w') \<Rightarrow> k a dl c' w'
     | (Pending, c', w') \<Rightarrow> (Pending, c', w'))"

definition await_try ::
  "('c, 'w, 'e + 'a) act \<Rightarrow> ('a \<Rightarrow> ('c, 'w, 'e + 'b) act) \<Rightarrow> ('c, 'w, 'e + 'b) act" where
  "await_try m k = await m (\<lambda>r. case r of Inl e \<Rightarrow> ret (Inl e) | Inr a \<Rightarrow> k a)"

text \<open>Reading and writing the component's own fields, and the conversion of an error.\<close>

definition with_self :: "('c \<Rightarrow> ('c, 'w, 'a) act) \<Rightarrow> ('c, 'w, 'a) act" where
  "with_self k = (\<lambda>dl c w. k c dl c w)"

definition set_self :: "('c \<Rightarrow> 'c) \<Rightarrow> ('c, 'w, 'a) act \<Rightarrow> ('c, 'w, 'a) act" where
  "set_self f k = (\<lambda>dl c w. k dl (f c) w)"

definition map_err :: "('e \<Rightarrow> 'd) \<Rightarrow> ('c, 'w, 'e + 'a) act \<Rightarrow> ('c, 'w, 'd + 'a) act" where
  "map_err f m = await m (\<lambda>r. case r of Inl e \<Rightarrow> ret (Inl (f e)) | Inr a \<Rightarrow> ret (Inr a))"

text \<open>An operation of the world, and an operation on a borrowed part (\<open>&mut self.buffer\<close>).\<close>

definition io :: "('w, 'a) fut \<Rightarrow> ('c, 'w, 'a) act" where
  "io f = (\<lambda>dl c w. case f dl w of (r, w') \<Rightarrow> (r, c, w'))"

definition borrow ::
  "('c \<Rightarrow> 'b) \<Rightarrow> ('b \<Rightarrow> 'c \<Rightarrow> 'c) \<Rightarrow> ('b, 'w, 'a) act \<Rightarrow> ('c, 'w, 'a) act" where
  "borrow get put m = (\<lambda>dl c w. case m dl (get c) w of (r, b, w') \<Rightarrow> (r, put b c, w'))"

lemma act_unfold [act_simps]:
  "ret a dl c w = (Ready a, c, w)"
  "await m k dl c w = (case m dl c w of
       (Ready a, c', w') \<Rightarrow> k a dl c' w'
     | (Pending, c', w') \<Rightarrow> (Pending, c', w'))"
  "with_self h dl c w = h c dl c w"
  "set_self f n dl c w = n dl (f c) w"
  "io g dl c w = (case g dl w of (r, w') \<Rightarrow> (r, c, w'))"
  by (simp_all add: ret_def await_def with_self_def set_self_def io_def)

lemma await_try_unfold [act_simps]:
  "await_try m k dl c w = (case m dl c w of
       (Ready (Inr a), c', w') \<Rightarrow> k a dl c' w'
     | (Ready (Inl e), c', w') \<Rightarrow> (Ready (Inl e), c', w')
     | (Pending, c', w') \<Rightarrow> (Pending, c', w'))"
  by (auto simp: await_try_def await_def ret_def split: prod.splits poll.splits sum.splits)

lemma map_err_unfold [act_simps]:
  "map_err f m dl c w = (case m dl c w of
       (Ready (Inr a), c', w') \<Rightarrow> (Ready (Inr a), c', w')
     | (Ready (Inl e), c', w') \<Rightarrow> (Ready (Inl (f e)), c', w')
     | (Pending, c', w') \<Rightarrow> (Pending, c', w'))"
  by (auto simp: map_err_def await_def ret_def split: prod.splits poll.splits sum.splits)

lemma borrow_unfold [act_simps]:
  "borrow get put m dl c w = (case m dl (get c) w of (r, b, w') \<Rightarrow> (r, put b c, w'))"
  by (simp add: borrow_def)

text \<open>The monad laws hold, so sequences may be regrouped.\<close>

lemma await_ret [simp]: "await (ret a) k = k a"
  by (simp add: await_def ret_def)

lemma await_ret_right [simp]: "await m ret = m"
  by (auto simp: await_def ret_def fun_eq_iff split: prod.splits poll.splits)

lemma await_assoc: "await (await m k) l = await m (\<lambda>a. await (k a) l)"
  by (auto simp: await_def fun_eq_iff split: prod.splits poll.splits)

lemma await_try_ret [simp]: "await_try (ret (Inr a)) k = k a" "await_try (ret (Inl e)) k = ret (Inl e)"
  by (simp_all add: await_try_def)

subsection \<open>The network, a parameter of the model\<close>

text \<open>
  Sockets and the clock are not code of the crate. They are a record of operations that every
  definition using them takes as an argument: \<open>net_read h n\<close> is one \<open>read\<close> into a slice of
  \<open>n\<close> bytes (no bytes: end of stream), \<open>net_write_all\<close> and \<open>net_flush\<close> write, \<open>net_shutdown\<close>
  shuts the writing side down, and \<open>net_close\<close> is what dropping the stream does.
\<close>

record ('h, 'w) net =
  net_now :: "'w \<Rightarrow> nat"
  net_read :: "'h \<Rightarrow> nat \<Rightarrow> ('w, io_error + byte list) fut"
  net_write_all :: "'h \<Rightarrow> byte list \<Rightarrow> ('w, io_error + unit) fut"
  net_flush :: "'h \<Rightarrow> ('w, io_error + unit) fut"
  net_shutdown :: "'h \<Rightarrow> ('w, io_error + unit) fut"
  net_close :: "'h \<Rightarrow> 'w \<Rightarrow> 'w"
  net_sleep :: "duration \<Rightarrow> ('w, unit) fut"

subsection \<open>Timeouts\<close>

text \<open>
  \<open>timeout N d m\<close> is \<open>tokio::time::timeout(d, m)\<close>: \<open>m\<close> runs under the earlier of the deadline
  already in force and \<open>d\<close> from now. If \<open>m\<close> did not complete, the timeout reports \<open>Elapsed\<close>
  when its own deadline was the earlier one; otherwise the enclosing deadline has passed and the
  whole operation is dropped with it.
\<close>

fun earlier :: "nat option \<Rightarrow> nat \<Rightarrow> nat" where
  "earlier None t = t"
| "earlier (Some t') t = min t' t"

fun outer_first :: "nat option \<Rightarrow> nat \<Rightarrow> bool" where
  "outer_first None t = False"
| "outer_first (Some t') t = (t' < t)"

definition timeout ::
  "('h, 'w, 'z) net_scheme \<Rightarrow> duration \<Rightarrow> ('c, 'w, 'a) act \<Rightarrow> ('c, 'w, elapsed + 'a) act" where
  "timeout N d m = (\<lambda>dl c w.
     let t = net_now N w + d in
     case m (Some (earlier dl t)) c w of
       (Ready a, c', w') \<Rightarrow> (Ready (Inr a), c', w')
     | (Pending, c', w') \<Rightarrow>
         (if outer_first dl t then (Pending, c', w') else (Ready (Inl Elapsed), c', w')))"

text \<open>
  \<open>timed N d m conv el\<close> is the shape the crate uses around every socket operation:
  \<open>match timeout(d, m).await { Ok(Ok(x)) => x, Ok(Err(e)) => return Err(conv(e)),
  Err(_) => return Err(el) }\<close>.
\<close>

definition timed ::
  "('h, 'w, 'z) net_scheme \<Rightarrow> duration \<Rightarrow> ('c, 'w, 'd + 'a) act \<Rightarrow> ('d \<Rightarrow> 'e) \<Rightarrow> 'e \<Rightarrow>
     ('c, 'w, 'e + 'a) act" where
  "timed N d m conv el = await (timeout N d m) (\<lambda>r.
     case r of
       Inr (Inr a) \<Rightarrow> ret (Inr a)
     | Inr (Inl e) \<Rightarrow> ret (Inl (conv e))
     | Inl _ \<Rightarrow> ret (Inl el))"

lemma timed_unfold:
  "timed N d m conv el dl c w =
     (let t = net_now N w + d in
      case m (Some (earlier dl t)) c w of
        (Ready (Inr a), c', w') \<Rightarrow> (Ready (Inr a), c', w')
      | (Ready (Inl e), c', w') \<Rightarrow> (Ready (Inl (conv e)), c', w')
      | (Pending, c', w') \<Rightarrow>
          (if outer_first dl t then (Pending, c', w') else (Ready (Inl el), c', w')))"
  by (auto simp: timed_def timeout_def Let_def await_def ret_def split: prod.splits poll.splits sum.splits)

subsection \<open>What an action ensures, whatever the network does\<close>

text \<open>
  \<open>ensures Q m c\<close>: started in the state \<open>c\<close>, in any world, under any deadline and over any network
  (the operations of the network are unknown functions), the action \<open>m\<close> leaves a result and a
  state that satisfy \<open>Q\<close>, also when it is dropped half way. The rules work from the end of an
  action backwards.
\<close>

definition ensures :: "('a poll \<Rightarrow> 'c \<Rightarrow> bool) \<Rightarrow> ('c, 'w, 'a) act \<Rightarrow> 'c \<Rightarrow> bool" where
  "ensures Q m c \<longleftrightarrow> (\<forall>dl w r c' w'. m dl c w = (r, c', w') \<longrightarrow> Q r c')"

lemma ensuresD: "ensures Q m c \<Longrightarrow> m dl c w = (r, c', w') \<Longrightarrow> Q r c'"
  unfolding ensures_def by blast

lemma ensuresI: "(\<And>dl w r c' w'. m dl c w = (r, c', w') \<Longrightarrow> Q r c') \<Longrightarrow> ensures Q m c"
  by (simp add: ensures_def)

lemma ensures_mono: "ensures P m c \<Longrightarrow> (\<And>r c'. P r c' \<Longrightarrow> Q r c') \<Longrightarrow> ensures Q m c"
  by (auto simp: ensures_def)

lemma ensures_any: "(\<And>r c'. Q r c') \<Longrightarrow> ensures Q m c"
  by (simp add: ensures_def)

lemma ensures_ret [wp_rules]: "Q (Ready a) c \<Longrightarrow> ensures Q (ret a) c"
  by (simp add: ensures_def act_simps)

lemma ensures_await [wp_rules]:
  assumes "ensures (\<lambda>r c1. case r of Ready a \<Rightarrow> ensures Q (k a) c1 | Pending \<Rightarrow> Q Pending c1) m c"
  shows "ensures Q (await m k) c"
proof (rule ensuresI)
  fix dl w r c' w' assume run: "await m k dl c w = (r, c', w')"
  obtain r1 c1 w1 where m: "m dl c w = (r1, c1, w1)" by (cases "m dl c w")
  with assms have "case r1 of Ready a \<Rightarrow> ensures Q (k a) c1 | Pending \<Rightarrow> Q Pending c1"
    by (rule ensuresD)
  with run m show "Q r c'"
    by (auto simp: act_simps split: poll.splits dest: ensuresD)
qed

lemma ensures_await_try [wp_rules]:
  assumes "ensures (\<lambda>r c1. case r of Ready (Inr a) \<Rightarrow> ensures Q (k a) c1
      | Ready (Inl e) \<Rightarrow> Q (Ready (Inl e)) c1 | Pending \<Rightarrow> Q Pending c1) m c"
  shows "ensures Q (await_try m k) c"
  unfolding await_try_def
  by (rule ensures_await, rule ensures_mono [OF assms])
     (auto split: poll.splits sum.splits intro: ensures_ret)

lemma ensures_with_self [wp_rules]: "ensures Q (k c) c \<Longrightarrow> ensures Q (with_self k) c"
  by (simp add: ensures_def act_simps)

lemma ensures_set_self [wp_rules]: "ensures Q k (f c) \<Longrightarrow> ensures Q (set_self f k) c"
  by (simp add: ensures_def act_simps)

lemma ensures_io [wp_rules]: "(\<And>r. Q r c) \<Longrightarrow> ensures Q (io f) c"
  by (auto simp: ensures_def act_simps split: prod.splits)

lemma ensures_borrow [wp_rules]:
  "ensures (\<lambda>r b. Q r (put b c)) m (get c) \<Longrightarrow> ensures Q (borrow get put m) c"
  by (fastforce simp: ensures_def act_simps split: prod.splits)

lemma ensures_map_err [wp_rules]:
  assumes "ensures (\<lambda>r c1. case r of Ready (Inr a) \<Rightarrow> Q (Ready (Inr a)) c1
      | Ready (Inl e) \<Rightarrow> Q (Ready (Inl (f e))) c1 | Pending \<Rightarrow> Q Pending c1) m c"
  shows "ensures Q (map_err f m) c"
  unfolding map_err_def
  by (rule ensures_await, rule ensures_mono [OF assms])
     (auto split: poll.splits sum.splits intro: ensures_ret)

lemma ensures_timeout [wp_rules]:
  assumes "ensures (\<lambda>r c1. case r of Ready a \<Rightarrow> Q (Ready (Inr a)) c1
      | Pending \<Rightarrow> Q Pending c1 \<and> (\<forall>e. Q (Ready (Inl e)) c1)) m c"
  shows "ensures Q (timeout N d m) c"
proof (rule ensuresI)
  fix dl w r c' w' assume run: "timeout N d m dl c w = (r, c', w')"
  let ?dl = "Some (earlier dl (net_now N w + d))"
  obtain r1 c1 w1 where m: "m ?dl c w = (r1, c1, w1)" by (cases "m ?dl c w")
  with run ensuresD [OF assms m] show "Q r c'"
    by (auto simp: timeout_def Let_def split: poll.splits if_splits)
qed

lemma ensures_timed [wp_rules]:
  assumes "ensures (\<lambda>r c1. case r of Ready (Inr a) \<Rightarrow> Q (Ready (Inr a)) c1
      | Ready (Inl e) \<Rightarrow> Q (Ready (Inl (conv e))) c1
      | Pending \<Rightarrow> Q Pending c1 \<and> Q (Ready (Inl el)) c1) m c"
  shows "ensures Q (timed N d m conv el) c"
proof (rule ensuresI)
  fix dl w r c' w' assume run: "timed N d m conv el dl c w = (r, c', w')"
  obtain r1 c1 w1 where m: "m (Some (earlier dl (net_now N w + d))) c w = (r1, c1, w1)"
    by (cases "m (Some (earlier dl (net_now N w + d))) c w")
  note q = ensuresD [OF assms m]
  from run m q show "Q r c'"
    by (auto simp: timed_unfold Let_def split: poll.splits sum.splits if_splits)
qed

subsection \<open>How an action moves the world\<close>

text \<open>
  \<open>moves R m\<close>: every run of \<open>m\<close>, completed or dropped, takes the world along the preorder \<open>R\<close>
  (logs that only grow, a clock that only advances). \<open>gains R m c\<close>: a run that succeeds takes it
  along \<open>R\<close>, which may be strict.
\<close>

definition growth :: "('w \<Rightarrow> 'w \<Rightarrow> bool) \<Rightarrow> bool" where
  "growth R \<longleftrightarrow> (\<forall>w. R w w) \<and> (\<forall>u v w. R u v \<longrightarrow> R v w \<longrightarrow> R u w)"

definition moves :: "('w \<Rightarrow> 'w \<Rightarrow> bool) \<Rightarrow> ('c, 'w, 'a) act \<Rightarrow> bool" where
  "moves R m \<longleftrightarrow> (\<forall>dl c w r c' w'. m dl c w = (r, c', w') \<longrightarrow> R w w')"

definition gains :: "('w \<Rightarrow> 'w \<Rightarrow> bool) \<Rightarrow> ('c, 'w, 'e + 'a) act \<Rightarrow> 'c \<Rightarrow> bool" where
  "gains R m c \<longleftrightarrow> (\<forall>dl w a c' w'. m dl c w = (Ready (Inr a), c', w') \<longrightarrow> R w w')"

definition fut_moves :: "('w \<Rightarrow> 'w \<Rightarrow> bool) \<Rightarrow> ('w, 'a) fut \<Rightarrow> bool" where
  "fut_moves R f \<longleftrightarrow> (\<forall>dl w r w'. f dl w = (r, w') \<longrightarrow> R w w')"

lemma growth_refl: "growth R \<Longrightarrow> R w w"
  and growth_trans: "growth R \<Longrightarrow> R u v \<Longrightarrow> R v w \<Longrightarrow> R u w"
  unfolding growth_def by blast+

lemma movesI: "(\<And>dl c w r c' w'. m dl c w = (r, c', w') \<Longrightarrow> R w w') \<Longrightarrow> moves R m"
  unfolding moves_def by blast

lemma movesD: "moves R m \<Longrightarrow> m dl c w = (r, c', w') \<Longrightarrow> R w w'"
  unfolding moves_def by blast

lemma gainsD: "gains R m c \<Longrightarrow> m dl c w = (Ready (Inr a), c', w') \<Longrightarrow> R w w'"
  unfolding gains_def by blast

lemma moves_ret [keep_rules]: "growth R \<Longrightarrow> moves R (ret a)"
  by (auto simp: moves_def act_simps growth_refl)

lemma moves_await [keep_rules]:
  assumes "growth R" "moves R m" "\<And>a. moves R (k a)"
  shows "moves R (await m k)"
proof (rule movesI)
  fix dl c w r c' w' assume run: "await m k dl c w = (r, c', w')"
  obtain r1 c1 w1 where m: "m dl c w = (r1, c1, w1)" by (cases "m dl c w")
  with run assms show "R w w'"
    by (auto simp: act_simps split: poll.splits dest!: movesD intro: growth_trans)
qed

lemma moves_await_try [keep_rules]:
  "growth R \<Longrightarrow> moves R m \<Longrightarrow> (\<And>a. moves R (k a)) \<Longrightarrow> moves R (await_try m k)"
  unfolding await_try_def by (rule moves_await) (auto split: sum.split intro: moves_ret)

lemma moves_if [keep_rules]: "moves R m \<Longrightarrow> moves R n \<Longrightarrow> moves R (if b then m else n)"
  by simp

lemma moves_with_self [keep_rules]: "(\<And>c. moves R (k c)) \<Longrightarrow> moves R (with_self k)"
  by (auto simp: moves_def act_simps)

lemma moves_set_self [keep_rules]: "moves R k \<Longrightarrow> moves R (set_self f k)"
  by (auto simp: moves_def act_simps)

lemma moves_io [keep_rules]: "fut_moves R f \<Longrightarrow> moves R (io f)"
  by (auto simp: moves_def fut_moves_def act_simps split: prod.splits)

lemma moves_borrow [keep_rules]: "moves R m \<Longrightarrow> moves R (borrow get put m)"
  by (fastforce simp: moves_def act_simps split: prod.splits)

lemma moves_map_err [keep_rules]: "growth R \<Longrightarrow> moves R m \<Longrightarrow> moves R (map_err f m)"
  unfolding map_err_def by (rule moves_await) (auto split: sum.split intro: moves_ret)

lemma moves_timeout [keep_rules]: "moves R m \<Longrightarrow> moves R (timeout N d m)"
  by (fastforce simp: moves_def timeout_def Let_def split: prod.splits poll.splits if_splits)

lemma moves_timed [keep_rules]: "growth R \<Longrightarrow> moves R m \<Longrightarrow> moves R (timed N d m conv el)"
  unfolding timed_def
  by (rule moves_await) (auto split: sum.split intro: moves_ret moves_timeout)

lemma gains_await_try:
  assumes "gains R m c" "\<And>a. moves R' (k a)" "\<And>u v w. R u v \<Longrightarrow> R' v w \<Longrightarrow> R u w"
  shows "gains R (await_try m k) c"
  using assms
  by (fastforce simp: gains_def moves_def act_simps split: prod.splits poll.splits sum.splits)

lemma gains_with_self: "gains R (k c) c \<Longrightarrow> gains R (with_self k) c"
  by (simp add: gains_def act_simps)

lemma gains_set_self: "gains R k (f c) \<Longrightarrow> gains R (set_self f k) c"
  by (simp add: gains_def act_simps)

lemma gains_borrow: "gains R m (get c) \<Longrightarrow> gains R (borrow get put m) c"
  by (fastforce simp: gains_def act_simps split: prod.splits)

lemma gains_timed: "gains R m c \<Longrightarrow> gains R (timed N d m conv el) c"
  by (fastforce simp: gains_def timed_unfold Let_def split: prod.splits poll.splits sum.splits if_splits)

definition net_moves :: "('w \<Rightarrow> 'w \<Rightarrow> bool) \<Rightarrow> ('h, 'w, 'z) net_scheme \<Rightarrow> bool" where
  "net_moves R N \<longleftrightarrow> growth R \<and>
     (\<forall>h n. fut_moves R (net_read N h n)) \<and> (\<forall>h bs. fut_moves R (net_write_all N h bs)) \<and>
     (\<forall>h. fut_moves R (net_flush N h)) \<and> (\<forall>h. fut_moves R (net_shutdown N h)) \<and>
     (\<forall>h w. R w (net_close N h w)) \<and> (\<forall>d. fut_moves R (net_sleep N d))"

lemma net_movesD:
  assumes "net_moves R N"
  shows "growth R" "fut_moves R (net_read N h n)" "fut_moves R (net_write_all N h bs)"
    "fut_moves R (net_flush N h)" "fut_moves R (net_shutdown N h)" "R w (net_close N h w)"
    "fut_moves R (net_sleep N d)"
  using assms unfolding net_moves_def by blast+

subsection \<open>Deadlines are kept\<close>

text \<open>
  \<open>timely now m\<close>: under a deadline the action is over, completed or dropped, by then (or at once,
  when the deadline has passed already). It is a law of the operations of the runtime, and it is
  kept by everything built from them.
\<close>

definition fut_timely :: "('w \<Rightarrow> nat) \<Rightarrow> ('w, 'a) fut \<Rightarrow> bool" where
  "fut_timely now f \<longleftrightarrow> (\<forall>t w r w'. f (Some t) w = (r, w') \<longrightarrow> now w' \<le> max t (now w))"

definition timely :: "('w \<Rightarrow> nat) \<Rightarrow> ('c, 'w, 'a) act \<Rightarrow> bool" where
  "timely now m \<longleftrightarrow> (\<forall>t c w r c' w'. m (Some t) c w = (r, c', w') \<longrightarrow> now w' \<le> max t (now w))"

lemma timelyI: "(\<And>t c w r c' w'. m (Some t) c w = (r, c', w') \<Longrightarrow> now w' \<le> max t (now w)) \<Longrightarrow> timely now m"
  unfolding timely_def by blast

lemma timelyD: "timely now m \<Longrightarrow> m (Some t) c w = (r, c', w') \<Longrightarrow> now w' \<le> max t (now w)"
  unfolding timely_def by blast

lemma timely_ret [time_rules]: "timely now (ret a)"
  by (auto simp: timely_def act_simps)

lemma timely_await [time_rules]:
  assumes "timely now m" "\<And>a. timely now (k a)"
  shows "timely now (await m k)"
proof (rule timelyI)
  fix t c w r c' w' assume run: "await m k (Some t) c w = (r, c', w')"
  obtain r1 c1 w1 where m: "m (Some t) c w = (r1, c1, w1)" by (cases "m (Some t) c w")
  from timelyD [OF assms(1) m] run m show "now w' \<le> max t (now w)"
    by (auto simp: act_simps split: poll.splits dest!: timelyD [OF assms(2)])
qed

lemma timely_await_try [time_rules]:
  "timely now m \<Longrightarrow> (\<And>a. timely now (k a)) \<Longrightarrow> timely now (await_try m k)"
  unfolding await_try_def by (rule timely_await) (auto split: sum.split intro: timely_ret)

lemma timely_with_self [time_rules]: "(\<And>c. timely now (k c)) \<Longrightarrow> timely now (with_self k)"
  by (auto simp: timely_def act_simps)

lemma timely_set_self [time_rules]: "timely now k \<Longrightarrow> timely now (set_self f k)"
  by (auto simp: timely_def act_simps)

lemma timely_io [time_rules]: "fut_timely now f \<Longrightarrow> timely now (io f)"
  by (fastforce simp: timely_def fut_timely_def act_simps split: prod.splits)

lemma timely_borrow [time_rules]: "timely now m \<Longrightarrow> timely now (borrow get put m)"
  by (fastforce simp: timely_def act_simps split: prod.splits)

lemma timely_timeout [time_rules]:
  assumes "timely now m"
  shows "timely now (timeout N d m)"
proof (rule timelyI)
  fix t c w r c' w' assume run: "timeout N d m (Some t) c w = (r, c', w')"
  let ?t = "earlier (Some t) (net_now N w + d)"
  obtain r1 where "m (Some ?t) c w = (r1, c', w')"
    using run by (auto simp: timeout_def Let_def split: prod.splits poll.splits if_splits)
  from timelyD [OF assms this] show "now w' \<le> max t (now w)" by auto
qed

lemma timely_timed [time_rules]: "timely now m \<Longrightarrow> timely now (timed N d m conv el)"
  unfolding timed_def by (rule timely_await) (auto split: sum.split intro: timely_ret timely_timeout)

text \<open>A timeout with no deadline around it always returns, and by its own deadline.\<close>

lemma timed_returns:
  assumes "timely (net_now N) m" and "timed N d m conv el None c w = (r, c', w')"
  shows "r \<noteq> Pending \<and> net_now N w' \<le> net_now N w + d"
proof -
  obtain r1 where m: "m (Some (net_now N w + d)) c w = (r1, c', w')"
    using assms(2) by (auto simp: timed_unfold Let_def split: prod.splits poll.splits sum.splits)
  from timelyD [OF assms(1) m] assms(2) m show ?thesis
    by (auto simp: timed_unfold Let_def split: poll.splits sum.splits)
qed

subsection \<open>One component inside another\<close>

text \<open>
  \<open>lifts f m n\<close>: the action \<open>n\<close> on states \<open>f c\<close> does exactly what \<open>m\<close> does on \<open>c\<close>, with the same
  effects on the world. Two implementations of one protocol are compared by it.
\<close>

definition lifts :: "('c \<Rightarrow> 'd) \<Rightarrow> ('c, 'w, 'a) act \<Rightarrow> ('d, 'w, 'a) act \<Rightarrow> bool" where
  "lifts f m n \<longleftrightarrow> (\<forall>dl c w. n dl (f c) w = (case m dl c w of (r, c', w') \<Rightarrow> (r, f c', w')))"

lemma liftsD: "lifts f m n \<Longrightarrow> n dl (f c) w = (case m dl c w of (r, c', w') \<Rightarrow> (r, f c', w'))"
  by (simp add: lifts_def)

lemma lifts_ensures:
  assumes "lifts f m n" and "ensures P n (f c)" and "\<And>r c'. P r (f c') \<Longrightarrow> Q r c'"
  shows "ensures Q m c"
proof (rule ensuresI)
  fix dl w r c' w' assume "m dl c w = (r, c', w')"
  with assms(1) have "n dl (f c) w = (r, f c', w')" by (simp add: lifts_def)
  with assms(2,3) show "Q r c'" by (blast dest: ensuresD)
qed

lemma lifts_moves: "lifts f m n \<Longrightarrow> moves R n \<Longrightarrow> moves R m"
  unfolding lifts_def moves_def by (metis (no_types, lifting) case_prod_conv)

lemma lifts_gains: "lifts f m n \<Longrightarrow> gains R n (f c) \<Longrightarrow> gains R m c"
  unfolding lifts_def gains_def by (metis (no_types, lifting) case_prod_conv)

lemma lifts_ret [lift_rules]: "lifts f (ret a) (ret a)"
  by (simp add: lifts_def act_simps)

lemma lifts_await [lift_rules]:
  "lifts f m m' \<Longrightarrow> (\<And>a. lifts f (k a) (k' a)) \<Longrightarrow> lifts f (await m k) (await m' k')"
  by (auto simp: lifts_def act_simps split: prod.splits poll.splits)

lemma lifts_await_try [lift_rules]:
  "lifts f m m' \<Longrightarrow> (\<And>a. lifts f (k a) (k' a)) \<Longrightarrow> lifts f (await_try m k) (await_try m' k')"
  by (auto simp: lifts_def act_simps split: prod.splits poll.splits sum.splits)

lemma lifts_with_self [lift_rules]:
  "(\<And>c. lifts f (k c) (k' (f c))) \<Longrightarrow> lifts f (with_self k) (with_self k')"
  by (simp add: lifts_def act_simps)

lemma lifts_set_self [lift_rules]:
  "(\<And>c. u' (f c) = f (u c)) \<Longrightarrow> lifts f k k' \<Longrightarrow> lifts f (set_self u k) (set_self u' k')"
  by (simp add: lifts_def act_simps)

lemma lifts_map_err [lift_rules]: "lifts f m m' \<Longrightarrow> lifts f (map_err e m) (map_err e m')"
  by (auto simp: lifts_def act_simps split: prod.splits poll.splits sum.splits)

lemma lifts_io [lift_rules]: "lifts f (io x) (io x)"
  by (auto simp: lifts_def act_simps split: prod.splits)

lemma lifts_borrow [lift_rules]:
  "(\<And>c. get' (f c) = get c) \<Longrightarrow> (\<And>b c. put' b (f c) = f (put b c)) \<Longrightarrow>
     lifts f (borrow get put m) (borrow get' put' m)"
  by (auto simp: lifts_def act_simps split: prod.splits)

lemma lifts_timed [lift_rules]: "lifts f m m' \<Longrightarrow> lifts f (timed N d m conv el) (timed N d m' conv el)"
  by (auto simp: lifts_def timed_unfold Let_def split: prod.splits poll.splits sum.splits)

text \<open>Converting the errors of a sequence converts the errors of its parts.\<close>

lemma map_err_push [err_simps]:
  "map_err f (ret (Inl e)) = ret (Inl (f e))"
  "map_err f (ret (Inr a)) = ret (Inr a)"
  "map_err f (await_try m k) = await_try (map_err f m) (\<lambda>a. map_err f (k a))"
  "map_err f (await p l) = await p (\<lambda>a. map_err f (l a))"
  "map_err f (with_self h) = with_self (\<lambda>c. map_err f (h c))"
  "map_err f (set_self u n) = set_self u (map_err f n)"
  "map_err f (map_err g q) = map_err (\<lambda>e. f (g e)) q"
  "map_err f (timed N d q conv el) = timed N d q (\<lambda>e. f (conv e)) (f el)"
  by (auto simp: fun_eq_iff act_simps timed_unfold Let_def split: prod.splits poll.splits sum.splits)

end
