(* ===== verification/Common.thy ===== *)
theory Common
  imports Async
begin

section \<open>Reading exact frames (common.rs)\<close>

text \<open>
  \<open>read_exact_or_closed\<close> of \<open>common.rs\<close>: the loop that fills a buffer from \<open>read\<close> calls and
  tells a peer that left between frames from one that left inside a frame. Beside it the runtime's
  own \<open>read_exact\<close>, by its documentation the same loop with an \<open>UnexpectedEof\<close> error; some
  callers use one, some the other. The laws of a byte source, which only say that \<open>read\<close> hands
  out the bytes that arrived and no more than it was asked for, are the locale \<open>byte_source\<close>.
\<close>

definition DEFAULT_MAX_BUFFER_SIZE :: usize where
  "DEFAULT_MAX_BUFFER_SIZE = 10 * 1024 * 1024"

function fill_from :: "('h, 'w, 'z) net_scheme \<Rightarrow> 'h \<Rightarrow> nat \<Rightarrow> (vec, 'w, error + unit) act" where
  "fill_from N h filled dl buf w =
     (if filled < vec_len buf then
        (case net_read N h (vec_len buf - filled) dl w of
           (Pending, w') \<Rightarrow> (Pending, buf, w')
         | (Ready (Inl e), w') \<Rightarrow> (Ready (Inl (error_from_io e)), buf, w')
         | (Ready (Inr bs), w') \<Rightarrow>
             (let n = length bs in
              if n = 0 then
                (Ready (Inl (if filled = 0 then ConnectionClosed
                             else ConnectionClosedMidFrame filled (vec_len buf))), buf, w')
              else fill_from N h (filled + n) dl (vec_write filled bs buf) w'))
      else (Ready (Inr ()), buf, w))"
  by pat_completeness auto
termination
  by (relation "measure (\<lambda>(N, h, filled, dl, buf, w). vec_len buf - filled)")
     (auto simp: vec_simps neq_Nil_conv)

declare fill_from.simps [simp del]

definition read_exact_or_closed ::
  "('h, 'w, 'z) net_scheme \<Rightarrow> 'h \<Rightarrow> (vec, 'w, error + unit) act" where
  "read_exact_or_closed N h = fill_from N h 0"

function read_exact_from ::
  "('h, 'w, 'z) net_scheme \<Rightarrow> 'h \<Rightarrow> nat \<Rightarrow> (vec, 'w, io_error + unit) act" where
  "read_exact_from N h filled dl buf w =
     (if filled < vec_len buf then
        (case net_read N h (vec_len buf - filled) dl w of
           (Pending, w') \<Rightarrow> (Pending, buf, w')
         | (Ready (Inl e), w') \<Rightarrow> (Ready (Inl e), buf, w')
         | (Ready (Inr bs), w') \<Rightarrow>
             (if bs = [] then (Ready (Inl UnexpectedEof), buf, w')
              else read_exact_from N h (filled + length bs) dl (vec_write filled bs buf) w'))
      else (Ready (Inr ()), buf, w))"
  by pat_completeness auto
termination
  by (relation "measure (\<lambda>(N, h, filled, dl, buf, w). vec_len buf - filled)")
     (auto simp: vec_simps neq_Nil_conv)

declare read_exact_from.simps [simp del]

definition read_exact ::
  "('h, 'w, 'z) net_scheme \<Rightarrow> 'h \<Rightarrow> (vec, 'w, io_error + unit) act" where
  "read_exact N h = read_exact_from N h 0"

subsection \<open>The two readers agree up to their end-of-stream error\<close>

fun plain_read_error :: "error \<Rightarrow> io_error" where
  "plain_read_error (Io e) = e"
| "plain_read_error _ = UnexpectedEof"

lemma read_exact_from_fill_from:
  "read_exact_from N h filled dl buf w =
     (case fill_from N h filled dl buf w of
        (Ready (Inr u), b, w') \<Rightarrow> (Ready (Inr u), b, w')
      | (Ready (Inl e), b, w') \<Rightarrow> (Ready (Inl (plain_read_error e)), b, w')
      | (Pending, b, w') \<Rightarrow> (Pending, b, w'))"
proof (induction N h filled dl buf w rule: fill_from.induct)
  case (1 N h filled dl buf w)
  show ?case
  proof (cases "filled < vec_len buf")
    case False
    then show ?thesis by (simp add: fill_from.simps read_exact_from.simps)
  next
    case True
    with 1 show ?thesis
      by (subst fill_from.simps, subst read_exact_from.simps)
         (auto simp: Let_def error_from_io_def split: prod.splits poll.splits sum.splits)
  qed
qed

text \<open>
  An induction rule over the runs of the loop: one case per way an iteration can go. Facts about
  the loop are proved by it, never by unfolding the recursion.
\<close>

lemma fill_from_run [consumes 1, case_names full pending failed eof step]:
  assumes run: "fill_from N h filled dl buf w = (r, buf', w')"
    and full: "\<And>filled buf w. vec_len buf \<le> filled \<Longrightarrow> P filled buf w (Ready (Inr ())) buf w"
    and pending: "\<And>filled buf w w1. filled < vec_len buf \<Longrightarrow>
      net_read N h (vec_len buf - filled) dl w = (Pending, w1) \<Longrightarrow> P filled buf w Pending buf w1"
    and failed: "\<And>filled buf w w1 e. filled < vec_len buf \<Longrightarrow>
      net_read N h (vec_len buf - filled) dl w = (Ready (Inl e), w1) \<Longrightarrow>
      P filled buf w (Ready (Inl (Io e))) buf w1"
    and eof: "\<And>filled buf w w1. filled < vec_len buf \<Longrightarrow>
      net_read N h (vec_len buf - filled) dl w = (Ready (Inr []), w1) \<Longrightarrow>
      P filled buf w (Ready (Inl (if filled = 0 then ConnectionClosed
                                  else ConnectionClosedMidFrame filled (vec_len buf)))) buf w1"
    and step: "\<And>filled buf w w1 bs r buf' w'. filled < vec_len buf \<Longrightarrow>
      net_read N h (vec_len buf - filled) dl w = (Ready (Inr bs), w1) \<Longrightarrow> bs \<noteq> [] \<Longrightarrow>
      P (filled + length bs) (vec_write filled bs buf) w1 r buf' w' \<Longrightarrow> P filled buf w r buf' w'"
  shows "P filled buf w r buf' w'"
  using run
proof (induction "vec_len buf - filled" arbitrary: filled buf w rule: less_induct)
  case less
  show ?case
  proof (cases "filled < vec_len buf")
    case False
    with less.prems have "r = Ready (Inr ())" "buf' = buf" "w' = w"
      by (simp_all add: fill_from.simps)
    with False full show ?thesis by simp
  next
    case True
    obtain o1 w1 where read: "net_read N h (vec_len buf - filled) dl w = (o1, w1)"
      by (cases "net_read N h (vec_len buf - filled) dl w")
    show ?thesis
    proof (cases o1)
      case Pending
      with less.prems True read have "r = Pending" "buf' = buf" "w' = w1"
        by (simp_all add: fill_from.simps)
      with pending [OF True] read Pending show ?thesis by simp
    next
      case (Ready res)
      show ?thesis
      proof (cases res)
        case (Inl e)
        with less.prems True read Ready have "r = Ready (Inl (Io e))" "buf' = buf" "w' = w1"
          by (simp_all add: fill_from.simps error_from_io_def)
        with failed [OF True] read Ready Inl show ?thesis by simp
      next
        case (Inr bs)
        show ?thesis
        proof (cases "bs = []")
          case True': True
          with less.prems True read Ready Inr have
            "r = Ready (Inl (if filled = 0 then ConnectionClosed
                             else ConnectionClosedMidFrame filled (vec_len buf)))"
            "buf' = buf" "w' = w1"
            by (simp_all add: fill_from.simps)
          with eof [OF True] read Ready Inr True' show ?thesis by simp
        next
          case False
          with less.prems True read Ready Inr have
            rest: "fill_from N h (filled + length bs) dl (vec_write filled bs buf) w1 = (r, buf', w')"
            by (simp add: fill_from.simps [of N h filled])
          have "vec_len (vec_write filled bs buf) - (filled + length bs) < vec_len buf - filled"
            using True False by (simp add: vec_simps diff_less_mono2)
          from less.hyps [OF this rest] have
            "P (filled + length bs) (vec_write filled bs buf) w1 r buf' w'" .
          with step [OF True] read Ready Inr False show ?thesis by simp
        qed
      qed
    qed
  qed
qed

lemma fill_from_frame:
  "fill_from N h filled dl buf w = (r, buf', w') \<Longrightarrow> vec_len buf' = vec_len buf \<and> vcap buf' = vcap buf"
  by (induction rule: fill_from_run) (simp_all add: vec_simps)

lemma read_exact_or_closed_frame:
  "read_exact_or_closed N h dl buf w = (r, buf', w') \<Longrightarrow>
     vec_len buf' = vec_len buf \<and> vcap buf' = vcap buf"
  by (simp add: read_exact_or_closed_def fill_from_frame)

lemma ensures_read_exact_or_closed [wp_rules]:
  assumes "\<And>r b. vec_len b = vec_len buf \<Longrightarrow> vcap b = vcap buf \<Longrightarrow> Q r b"
  shows "ensures Q (read_exact_or_closed N h) buf"
  using assms by (auto intro!: ensuresI dest!: read_exact_or_closed_frame)

lemma ensures_read_exact [wp_rules]:
  assumes "\<And>r b. vec_len b = vec_len buf \<Longrightarrow> vcap b = vcap buf \<Longrightarrow> Q r b"
  shows "ensures Q (read_exact N h) buf"
proof (rule ensuresI)
  fix dl w r b w' assume run: "read_exact N h dl buf w = (r, b, w')"
  obtain r1 b1 w1 where fill: "read_exact_or_closed N h dl buf w = (r1, b1, w1)"
    by (cases "read_exact_or_closed N h dl buf w")
  with run have "b = b1"
    by (auto simp: read_exact_def read_exact_or_closed_def read_exact_from_fill_from
        split: poll.splits sum.splits)
  with assms read_exact_or_closed_frame [OF fill] show "Q r b" by simp
qed

lemma moves_reads:
  assumes "growth R" "\<And>n. fut_moves R (net_read N h n)"
  shows "moves R (read_exact_or_closed N h)" "moves R (read_exact N h)"
proof -
  show closed: "moves R (read_exact_or_closed N h)"
  proof (rule movesI)
    fix dl buf w r buf' w' assume "read_exact_or_closed N h dl buf w = (r, buf', w')"
    then show "R w w'"
      unfolding read_exact_or_closed_def
    proof (induction rule: fill_from_run)
      case (step filled buf w w1 bs r buf' w')
      then have "R w w1" using assms(2) unfolding fut_moves_def by blast
      with step.IH show ?case using growth_trans [OF assms(1)] by blast
    qed (use assms in \<open>auto simp: fut_moves_def growth_def\<close>)
  qed
  show "moves R (read_exact N h)"
  proof (rule movesI)
    fix dl buf w r buf' w' assume run: "read_exact N h dl buf w = (r, buf', w')"
    obtain r1 b1 w1 where fill: "read_exact_or_closed N h dl buf w = (r1, b1, w1)"
      by (cases "read_exact_or_closed N h dl buf w")
    with run have "w' = w1"
      by (auto simp: read_exact_def read_exact_or_closed_def read_exact_from_fill_from
          split: poll.splits sum.splits)
    with fill show "R w w'" using movesD [OF closed] by blast
  qed
qed

lemma moves_read_exact_or_closed [keep_rules]: "net_moves R N \<Longrightarrow> moves R (read_exact_or_closed N h)"
  and moves_read_exact [keep_rules]: "net_moves R N \<Longrightarrow> moves R (read_exact N h)"
  by (rule moves_reads, (erule net_movesD)+)+

subsection \<open>What a frame read hands back\<close>

fun frame_result :: "error + unit \<Rightarrow> nat \<Rightarrow> byte list \<Rightarrow> byte list \<Rightarrow> bool" where
  "frame_result (Inr u) n d data = (d = data)"
| "frame_result (Inl ConnectionClosed) n d data = (d = [] \<and> 0 < n)"
| "frame_result (Inl (ConnectionClosedMidFrame k m)) n d data = (k = length d \<and> 0 < k \<and> k < m \<and> m = n)"
| "frame_result (Inl (Io e)) n d data = (length d < n)"
| "frame_result (Inl _) n d data = False"

locale byte_source =
  fixes N :: "('h, 'w, 'z) net_scheme" and h :: 'h and got :: "'w \<Rightarrow> byte list"
  assumes read_data: "net_read N h n dl w = (Ready (Inr bs), w') \<Longrightarrow>
      got w' = got w @ bs \<and> length bs \<le> n"
    and read_nothing: "net_read N h n dl w = (Ready (Inl e), w') \<Longrightarrow> got w' = got w"
    and read_pending: "net_read N h n dl w = (Pending, w') \<Longrightarrow> got w' = got w"
begin

text \<open>
  \<open>frame_result r n d data\<close> is the report \<open>r\<close> of a frame read of \<open>n\<close> bytes that took the bytes
  \<open>d\<close> from the stream and left \<open>data\<close> in the buffer: a full frame is exactly \<open>d\<close>, a clean
  disconnect took nothing, and a truncated frame names the number of bytes it took.
\<close>

lemma fill_from_result:
  assumes "fill_from N h filled dl buf w = (r, buf', w')" and "filled \<le> vec_len buf"
  shows "\<exists>d. got w' = got w @ d \<and> filled + length d \<le> vec_len buf \<and>
    pred_poll (\<lambda>res. frame_result res (vec_len buf) (take filled (vdata buf) @ d) (vdata buf')) r"
  using assms
proof (induction rule: fill_from_run)
  case (full filled buf w)
  then show ?case by (intro exI [of _ "[]"]) (simp add: vec_len_def)
next
  case (pending filled buf w w1)
  then show ?case by (intro exI [of _ "[]"]) (auto dest: read_pending)
next
  case (failed filled buf w w1 e)
  then show ?case by (intro exI [of _ "[]"]) (auto dest: read_nothing simp: vec_len_def)
next
  case (eof filled buf w w1)
  then show ?case by (intro exI [of _ "[]"]) (auto dest: read_data simp: vec_len_def)
next
  case (step filled buf w w1 bs r buf' w')
  from read_data [OF step.hyps(2)] have
    bs: "got w1 = got w @ bs" "filled + length bs \<le> vec_len buf" using step.hyps(1) by auto
  from step.IH bs(2) obtain d where d: "got w' = got w1 @ d"
    "filled + length bs + length d \<le> vec_len buf"
    "pred_poll (\<lambda>res. frame_result res (vec_len buf)
       (take (filled + length bs) (vdata (vec_write filled bs buf)) @ d) (vdata buf')) r"
    by (auto simp: vec_simps)
  with bs show ?case
    by (intro exI [of _ "bs @ d"]) (simp add: vec_write_fill)
qed

lemma read_exact_or_closed_result:
  assumes "read_exact_or_closed N h dl buf w = (r, buf', w')"
  shows "\<exists>d. got w' = got w @ d \<and> length d \<le> vec_len buf \<and>
    pred_poll (\<lambda>res. frame_result res (vec_len buf) d (vdata buf')) r"
  using fill_from_result [of 0 dl buf w r buf' w'] assms
  by (simp add: read_exact_or_closed_def)

lemma gains_read_exact_or_closed:
  "gains (\<lambda>w w'. length (got w') = length (got w) + vec_len buf) (read_exact_or_closed N h) buf"
  unfolding gains_def using read_exact_or_closed_frame read_exact_or_closed_result
  by (fastforce simp: vec_len_def)

end

end
