(* ===== verification/Reliable.thy ===== *)
theory Reliable
  imports Common
begin

section \<open>Runs on a reliable connection\<close>

text \<open>
  A connection is described by two ghost logs, the bytes this side has \<open>sent\<close> and the bytes it has
  \<open>got\<close>, and by the \<open>peer\<close>: the function from everything sent so far to everything the other side
  has answered so far. What can be read next is the part of the answer not yet got. The locale
  \<open>reliable_conn\<close> says that such bytes are delivered, in pieces of any size, and that writes go
  through; \<open>runs Q m c l\<close> is the judgement "from the state \<open>c\<close> and the logs \<open>l\<close> the action \<open>m\<close>
  completes, and its result, state and logs satisfy \<open>Q\<close>, whatever the deadline and whatever else
  the world is". Like \<open>ensures\<close>, it is computed backwards from the end of an action; unlike it, it
  says that the action completes.
\<close>

type_synonym logs = "byte list \<times> byte list"

definition logs_are :: "('w \<Rightarrow> byte list) \<Rightarrow> ('w \<Rightarrow> byte list) \<Rightarrow> logs \<Rightarrow> 'w \<Rightarrow> bool" where
  "logs_are sent got l w \<longleftrightarrow> sent w = fst l \<and> got w = snd l"

definition runs ::
  "('w \<Rightarrow> byte list) \<Rightarrow> ('w \<Rightarrow> byte list) \<Rightarrow> ('a \<Rightarrow> 'c \<Rightarrow> logs \<Rightarrow> bool) \<Rightarrow>
     ('c, 'w, 'a) act \<Rightarrow> 'c \<Rightarrow> logs \<Rightarrow> bool"
where
  "runs sent got Q m c l \<longleftrightarrow>
     (\<forall>dl w. logs_are sent got l w \<longrightarrow>
       (\<exists>a c' w'. m dl c w = (Ready a, c', w') \<and> Q a c' (sent w', got w')))"

lemma runsI:
  "(\<And>dl w. sent w = fst l \<Longrightarrow> got w = snd l \<Longrightarrow>
      \<exists>a c' w'. m dl c w = (Ready a, c', w') \<and> Q a c' (sent w', got w')) \<Longrightarrow> runs sent got Q m c l"
  by (simp add: runs_def logs_are_def)

lemma runsE:
  assumes "runs sent got Q m c (S, G)" and "sent w = S" and "got w = G"
  obtains a c' w' where "m dl c w = (Ready a, c', w')" and "Q a c' (sent w', got w')"
  using assms by (fastforce simp: runs_def logs_are_def)

lemma runs_mono: "runs sent got P m c l \<Longrightarrow> (\<And>a c' l'. P a c' l' \<Longrightarrow> Q a c' l') \<Longrightarrow> runs sent got Q m c l"
  unfolding runs_def by blast

text \<open>The one way runs are put together: what the part does decides what the whole does.\<close>

lemma runs_lift:
  assumes "runs sent got P m c l"
    and "\<And>dl w a c1 w1. m (g dl w) c w = (Ready a, c1, w1) \<Longrightarrow> P a c1 (sent w1, got w1) \<Longrightarrow>
      \<exists>b d1 w2. n dl d w = (Ready b, d1, w2) \<and> Q b d1 (sent w2, got w2)"
  shows "runs sent got Q n d l"
  using assms unfolding runs_def by meson

lemma runs_ret [exec_rules]: "Q a c l \<Longrightarrow> runs sent got Q (ret a) c l"
  by (auto simp: runs_def act_simps logs_are_def)

lemma runs_await [exec_rules]:
  assumes "runs sent got (\<lambda>a c' l'. runs sent got Q (k a) c' l') m c l"
  shows "runs sent got Q (await m k) c l"
  by (rule runs_lift [OF assms, where g = "\<lambda>dl w. dl"])
     (auto simp: act_simps elim!: runsE)

lemma runs_await_try [exec_rules]:
  assumes "runs sent got (\<lambda>r c' l'. case r of Inr a \<Rightarrow> runs sent got Q (k a) c' l'
      | Inl e \<Rightarrow> Q (Inl e) c' l') m c l"
  shows "runs sent got Q (await_try m k) c l"
  unfolding await_try_def
  by (rule runs_await, rule runs_mono [OF assms]) (auto split: sum.splits intro: runs_ret)

lemma runs_with_self [exec_rules]: "runs sent got Q (k c) c l \<Longrightarrow> runs sent got Q (with_self k) c l"
  by (simp add: runs_def act_simps)

lemma runs_set_self [exec_rules]: "runs sent got Q k (f c) l \<Longrightarrow> runs sent got Q (set_self f k) c l"
  by (simp add: runs_def act_simps)

lemma runs_map_err [exec_rules]:
  assumes "runs sent got (\<lambda>r c' l'. case r of Inr a \<Rightarrow> Q (Inr a) c' l' | Inl e \<Rightarrow> Q (Inl (f e)) c' l') m c l"
  shows "runs sent got Q (map_err f m) c l"
  unfolding map_err_def
  by (rule runs_await, rule runs_mono [OF assms]) (auto split: sum.splits intro: runs_ret)

lemma runs_borrow [exec_rules]:
  assumes "runs sent got (\<lambda>a b l'. Q a (put b c) l') m (get c) l"
  shows "runs sent got Q (borrow get put m) c l"
  by (rule runs_lift [OF assms, where g = "\<lambda>dl w. dl"]) (simp add: act_simps)

text \<open>An action that completes under every deadline completes inside any timeout.\<close>

lemma runs_timeout [exec_rules]:
  assumes "runs sent got (\<lambda>a c' l'. Q (Inr a) c' l') m c l"
  shows "runs sent got Q (timeout N d m) c l"
  by (rule runs_lift [OF assms, where g = "\<lambda>dl w. Some (earlier dl (net_now N w + d))"])
     (simp add: timeout_def Let_def)

lemma runs_timed [exec_rules]:
  assumes "runs sent got (\<lambda>r c' l'. case r of Inr a \<Rightarrow> Q (Inr a) c' l' | Inl e \<Rightarrow> Q (Inl (conv e)) c' l') m c l"
  shows "runs sent got Q (timed N d m conv el) c l"
  by (rule runs_lift [OF assms, where g = "\<lambda>dl w. Some (earlier dl (net_now N w + d))"])
     (auto simp: timed_unfold Let_def split: sum.splits)

lemma runs_lifts:
  assumes "lifts f m n" and "inj f"
    and "runs sent got (\<lambda>a d l'. \<exists>c'. d = f c' \<and> Q a c' l') n (f c) l"
  shows "runs sent got Q m c l"
proof (rule runs_lift [OF assms(3), where g = "\<lambda>dl w. dl"])
  fix dl w a d1 w1
  assume run: "n dl (f c) w = (Ready a, d1, w1)"
    and "\<exists>c'. d1 = f c' \<and> Q a c' (sent w1, got w1)"
  then obtain c' where c': "d1 = f c'" "Q a c' (sent w1, got w1)" by blast
  with run assms(1,2) have "m dl c w = (Ready a, c', w1)"
    by (cases "m dl c w") (auto simp: lifts_def inj_eq)
  with c' show "\<exists>b d w2. m dl c w = (Ready b, d, w2) \<and> Q b d (sent w2, got w2)" by blast
qed

locale reliable_conn =
  fixes N :: "('h, 'w, 'z) net_scheme" and h :: 'h and peer :: "byte list \<Rightarrow> byte list"
    and sent got :: "'w \<Rightarrow> byte list"
  assumes read_avail:
      "0 < n \<Longrightarrow> drop (length (got w)) (peer (sent w)) \<noteq> [] \<Longrightarrow>
       \<exists>bs w'. net_read N h n dl w = (Ready (Inr bs), w') \<and> bs \<noteq> [] \<and> length bs \<le> n \<and>
         prefix bs (drop (length (got w)) (peer (sent w))) \<and> got w' = got w @ bs \<and> sent w' = sent w"
    and write_through:
      "\<exists>w'. net_write_all N h bs dl w = (Ready (Inr ()), w') \<and> sent w' = sent w @ bs \<and> got w' = got w"
    and flush_through:
      "\<exists>w'. net_flush N h dl w = (Ready (Inr ()), w') \<and> sent w' = sent w \<and> got w' = got w"
begin

lemma runs_write [exec_rules]:
  assumes "Q (Inr ()) c (fst l @ bs, snd l)"
  shows "runs sent got Q (io (net_write_all N h bs)) c l"
proof (rule runsI)
  fix dl w assume "sent w = fst l" "got w = snd l"
  with write_through [of bs dl w] assms show
    "\<exists>a c' w'. io (net_write_all N h bs) dl c w = (Ready a, c', w') \<and> Q a c' (sent w', got w')"
    by (auto simp: act_simps)
qed

lemma runs_flush [exec_rules]:
  assumes "Q (Inr ()) c l"
  shows "runs sent got Q (io (net_flush N h)) c l"
proof (rule runsI)
  fix dl w assume "sent w = fst l" "got w = snd l"
  with flush_through [of dl w] assms show
    "\<exists>a c' w'. io (net_flush N h) dl c w = (Ready a, c', w') \<and> Q a c' (sent w', got w')"
    by (auto simp: act_simps)
qed

text \<open>A frame read takes exactly the bytes it needs, however they are split up on the way.\<close>

lemma fill_from_reliable:
  assumes "sent w = S" and "got w = G" and "filled \<le> vec_len buf"
    and "vec_len buf - filled \<le> length (drop (length G) (peer S))"
  shows "\<exists>w'. fill_from N h filled dl buf w =
      (Ready (Inr ()), Vec (take filled (vdata buf) @
          take (vec_len buf - filled) (drop (length G) (peer S))) (vcap buf), w') \<and>
      sent w' = S \<and> got w' = G @ take (vec_len buf - filled) (drop (length G) (peer S))"
  using assms
proof (induction "vec_len buf - filled" arbitrary: filled buf w G rule: less_induct)
  case less
  let ?av = "drop (length G) (peer S)"
  show ?case
  proof (cases "filled < vec_len buf")
    case False
    with less.prems have "vec_len buf = filled" by simp
    with less.prems show ?thesis by (cases buf) (simp add: fill_from.simps vec_simps)
  next
    case True
    then have "0 < vec_len buf - filled" by simp
    moreover from True less.prems(4) have "?av \<noteq> []" by auto
    ultimately obtain bs w1 where read: "net_read N h (vec_len buf - filled) dl w = (Ready (Inr bs), w1)"
      and bs: "bs \<noteq> []" "length bs \<le> vec_len buf - filled" "prefix bs ?av"
      and w1: "got w1 = G @ bs" "sent w1 = S"
      using read_avail [of "vec_len buf - filled" w dl] less.prems(1,2) by auto
    let ?buf = "vec_write filled bs buf"
    from bs obtain rest where rest: "?av = bs @ rest" by (auto simp: prefix_def)
    then have av1: "drop (length (G @ bs)) (peer S) = rest"
      by (metis append_eq_conv_conj drop_drop length_append add.commute)
    have "vec_len ?buf - (filled + length bs) < vec_len buf - filled"
      using True bs by (simp add: vec_simps diff_less_mono2)
    moreover have "filled + length bs \<le> vec_len ?buf"
      using True bs by (simp add: vec_simps)
    moreover have "vec_len ?buf - (filled + length bs) \<le> length (drop (length (G @ bs)) (peer S))"
      unfolding av1 using less.prems(4) rest by (simp add: vec_simps)
    ultimately obtain w' where fin: "fill_from N h (filled + length bs) dl ?buf w1 =
        (Ready (Inr ()), Vec (take (filled + length bs) (vdata ?buf) @
           take (vec_len buf - (filled + length bs)) rest) (vcap buf), w')"
      "sent w' = S" "got w' = (G @ bs) @ take (vec_len buf - (filled + length bs)) rest"
      using less.hyps [of ?buf "filled + length bs" w1 "G @ bs"] w1 unfolding av1
      by (auto simp: vec_simps)
    have "fill_from N h filled dl buf w = fill_from N h (filled + length bs) dl ?buf w1"
      using True read bs by (simp add: fill_from.simps [of N h filled])
    with fin rest bs True show ?thesis
      by (simp add: vec_write_fill)
  qed
qed

lemma runs_read_exact_or_closed [exec_rules]:
  assumes "vec_len buf \<le> length (drop (length (snd l)) (peer (fst l)))"
    and "Q (Inr ()) (Vec (take (vec_len buf) (drop (length (snd l)) (peer (fst l)))) (vcap buf))
      (fst l, snd l @ take (vec_len buf) (drop (length (snd l)) (peer (fst l))))"
  shows "runs sent got Q (read_exact_or_closed N h) buf l"
proof (rule runsI)
  fix dl w assume "sent w = fst l" "got w = snd l"
  with assms show "\<exists>a buf' w'. read_exact_or_closed N h dl buf w = (Ready a, buf', w') \<and>
      Q a buf' (sent w', got w')"
    using fill_from_reliable [of w "fst l" "snd l" 0 buf dl] by (auto simp: read_exact_or_closed_def)
qed

lemma runs_read_exact [exec_rules]:
  assumes "vec_len buf \<le> length (drop (length (snd l)) (peer (fst l)))"
    and "Q (Inr ()) (Vec (take (vec_len buf) (drop (length (snd l)) (peer (fst l)))) (vcap buf))
      (fst l, snd l @ take (vec_len buf) (drop (length (snd l)) (peer (fst l))))"
  shows "runs sent got Q (read_exact N h) buf l"
proof (rule runsI)
  fix dl w assume "sent w = fst l" "got w = snd l"
  with assms show "\<exists>a buf' w'. read_exact N h dl buf w = (Ready a, buf', w') \<and> Q a buf' (sent w', got w')"
    using fill_from_reliable [of w "fst l" "snd l" 0 buf dl]
    by (auto simp: read_exact_def read_exact_from_fill_from)
qed

end

subsection \<open>Waiting in vain\<close>

text \<open>
  Some code waits for bytes that are not to come, with a timeout. On a quiet connection a read with
  nothing to read waits until its deadline and takes nothing. Such code completes only when no
  earlier deadline is around it: \<open>runs_free\<close> is the judgement for an action on its own.
\<close>

definition runs_free ::
  "('w \<Rightarrow> byte list) \<Rightarrow> ('w \<Rightarrow> byte list) \<Rightarrow> ('a \<Rightarrow> 'c \<Rightarrow> logs \<Rightarrow> bool) \<Rightarrow>
     ('c, 'w, 'a) act \<Rightarrow> 'c \<Rightarrow> logs \<Rightarrow> bool"
where
  "runs_free sent got Q m c l \<longleftrightarrow>
     (\<forall>w. logs_are sent got l w \<longrightarrow>
       (\<exists>a c' w'. m None c w = (Ready a, c', w') \<and> Q a c' (sent w', got w')))"

lemma runs_freeI:
  "(\<And>w. sent w = fst l \<Longrightarrow> got w = snd l \<Longrightarrow>
      \<exists>a c' w'. m None c w = (Ready a, c', w') \<and> Q a c' (sent w', got w')) \<Longrightarrow> runs_free sent got Q m c l"
  by (simp add: runs_free_def logs_are_def)

lemma runs_freeE:
  assumes "runs_free sent got Q m c (S, G)" and "sent w = S" and "got w = G"
  obtains a c' w' where "m None c w = (Ready a, c', w')" and "Q a c' (sent w', got w')"
  using assms by (fastforce simp: runs_free_def logs_are_def)

lemma runs_free_mono:
  "runs_free sent got P m c l \<Longrightarrow> (\<And>a c' l'. P a c' l' \<Longrightarrow> Q a c' l') \<Longrightarrow> runs_free sent got Q m c l"
  unfolding runs_free_def by blast

lemma runs_free_runs: "runs sent got Q m c l \<Longrightarrow> runs_free sent got Q m c l"
  unfolding runs_free_def runs_def by blast

lemma runs_free_await [free_rules]:
  assumes "runs_free sent got (\<lambda>a c' l'. runs_free sent got Q (k a) c' l') m c l"
  shows "runs_free sent got Q (await m k) c l"
proof (rule runs_freeI)
  fix w assume "sent w = fst l" "got w = snd l"
  with assms show "\<exists>a c' w'. await m k None c w = (Ready a, c', w') \<and> Q a c' (sent w', got w')"
    by (auto simp: act_simps elim!: runs_freeE [where S = "fst l" and G = "snd l", simplified] runs_freeE)
qed

lemma runs_free_await_try [free_rules]:
  assumes "runs_free sent got (\<lambda>r c' l'. case r of Inr a \<Rightarrow> runs_free sent got Q (k a) c' l'
      | Inl e \<Rightarrow> Q (Inl e) c' l') m c l"
  shows "runs_free sent got Q (await_try m k) c l"
  unfolding await_try_def
  by (rule runs_free_await, rule runs_free_mono [OF assms])
     (auto split: sum.splits intro: runs_free_runs runs_ret)

lemma runs_free_with_self [free_rules]:
  "runs_free sent got Q (k c) c l \<Longrightarrow> runs_free sent got Q (with_self k) c l"
  by (simp add: runs_free_def act_simps)

lemma runs_free_set_self [free_rules]:
  "runs_free sent got Q k (f c) l \<Longrightarrow> runs_free sent got Q (set_self f k) c l"
  by (simp add: runs_free_def act_simps)

locale quiet_conn = reliable_conn +
  assumes read_waits:
      "0 < n \<Longrightarrow> drop (length (got w)) (peer (sent w)) = [] \<Longrightarrow>
       \<exists>w'. net_read N h n (Some t) w = (Pending, w') \<and> sent w' = sent w \<and> got w' = got w"

text \<open>The interface looks at three operations of the network only.\<close>

lemma reliable_conn_cong:
  assumes "reliable_conn N h peer sent got"
    and "net_read N' h = net_read N h" "net_write_all N' h = net_write_all N h" "net_flush N' h = net_flush N h"
  shows "reliable_conn N' h peer sent got"
  using assms unfolding reliable_conn_def by simp

lemma quiet_conn_cong:
  assumes "quiet_conn N h peer sent got"
    and "net_read N' h = net_read N h" "net_write_all N' h = net_write_all N h" "net_flush N' h = net_flush N h"
  shows "quiet_conn N' h peer sent got"
  using assms reliable_conn_cong unfolding quiet_conn_def quiet_conn_axioms_def by metis

end
