(* ===== verification/Pipe.thy ===== *)
theory Pipe
  imports Reliable
begin

section \<open>A concrete network\<close>

text \<open>
  An in-memory connection, the instance on which the interfaces of \<open>Common\<close> and \<open>Reliable\<close> are
  realised and the theorems about runs are evaluated. The peer is a function from the bytes sent
  to it to the bytes it has answered, and \<open>closed\<close> tells when it has left. A read hands out at most
  \<open>Suc k\<close> bytes at a time; with nothing to read it waits, until the deadline if there is one.
\<close>

record pipe =
  pw_sent :: "byte list"
  pw_got :: "byte list"
  pw_now :: nat

fun wait_until :: "nat option \<Rightarrow> pipe \<Rightarrow> pipe" where
  "wait_until None w = w"
| "wait_until (Some t) w = w\<lparr>pw_now := max t (pw_now w)\<rparr>"

definition pipe_read ::
  "nat \<Rightarrow> (byte list \<Rightarrow> byte list) \<Rightarrow> (byte list \<Rightarrow> bool) \<Rightarrow> nat \<Rightarrow> (pipe, io_error + byte list) fut"
where
  "pipe_read k peer closed n dl w =
     (let av = drop (length (pw_got w)) (peer (pw_sent w)) in
      if n = 0 then (Ready (Inr []), w)
      else if av \<noteq> [] then
        (Ready (Inr (take (min n (Suc k)) av)), w\<lparr>pw_got := pw_got w @ take (min n (Suc k)) av\<rparr>)
      else if closed (pw_sent w) then (Ready (Inr []), w)
      else (Pending, wait_until dl w))"

definition pipe_sleep :: "duration \<Rightarrow> (pipe, unit) fut" where
  "pipe_sleep d dl w =
     (let t = pw_now w + d in
      if outer_first dl t then (Pending, wait_until dl w) else (Ready (), w\<lparr>pw_now := t\<rparr>))"

definition pipe_net ::
  "nat \<Rightarrow> (byte list \<Rightarrow> byte list) \<Rightarrow> (byte list \<Rightarrow> bool) \<Rightarrow> ('h, pipe) net" where
  "pipe_net k peer closed =
     \<lparr>net_now = pw_now,
      net_read = (\<lambda>h. pipe_read k peer closed),
      net_write_all = (\<lambda>h bs dl w. (Ready (Inr ()), w\<lparr>pw_sent := pw_sent w @ bs\<rparr>)),
      net_flush = (\<lambda>h dl w. (Ready (Inr ()), w)),
      net_shutdown = (\<lambda>h dl w. (Ready (Inr ()), w)),
      net_close = (\<lambda>h w. w),
      net_sleep = pipe_sleep\<rparr>"

definition pipe_start :: pipe where
  "pipe_start = \<lparr>pw_sent = [], pw_got = [], pw_now = 0\<rparr>"

lemma pipe_net_simps [simp]:
  "net_now (pipe_net k peer closed) = pw_now"
  "net_read (pipe_net k peer closed) h = pipe_read k peer closed"
  "net_write_all (pipe_net k peer closed) h bs dl w = (Ready (Inr ()), w\<lparr>pw_sent := pw_sent w @ bs\<rparr>)"
  "net_flush (pipe_net k peer closed) h dl w = (Ready (Inr ()), w)"
  "net_shutdown (pipe_net k peer closed) h dl w = (Ready (Inr ()), w)"
  "net_close (pipe_net k peer closed) h w = w"
  "net_sleep (pipe_net k peer closed) = pipe_sleep"
  by (simp_all add: pipe_net_def)

lemma wait_until_logs [simp]: "pw_sent (wait_until dl w) = pw_sent w" "pw_got (wait_until dl w) = pw_got w"
  by (cases dl; simp)+

lemma pipe_start_simps [simp]: "pw_sent pipe_start = []" "pw_got pipe_start = []" "pw_now pipe_start = 0"
  by (simp_all add: pipe_start_def)

interpretation pipe_source: byte_source "pipe_net k peer closed" h pw_got
  by unfold_locales (auto simp: pipe_read_def Let_def split: if_splits)

interpretation pipe: reliable_conn "pipe_net k peer closed" h peer pw_sent pw_got
proof unfold_locales
  fix n :: nat and w :: pipe and dl
  assume "0 < n" and "drop (length (pw_got w)) (peer (pw_sent w)) \<noteq> []"
  then show "\<exists>bs w'. net_read (pipe_net k peer closed) h n dl w = (Ready (Inr bs), w') \<and> bs \<noteq> [] \<and>
      length bs \<le> n \<and> prefix bs (drop (length (pw_got w)) (peer (pw_sent w))) \<and>
      pw_got w' = pw_got w @ bs \<and> pw_sent w' = pw_sent w"
    by (auto simp: pipe_read_def Let_def take_is_prefix)
qed simp_all

interpretation pipe_quiet: quiet_conn "pipe_net k peer (\<lambda>_. False)" h peer pw_sent pw_got
  by unfold_locales (auto simp: pipe_read_def Let_def)

text \<open>The logs of the pipe only grow, and never beyond what a peer with a bounded script says.\<close>

definition pipe_grows :: "nat \<Rightarrow> pipe \<Rightarrow> pipe \<Rightarrow> bool" where
  "pipe_grows L w w' \<longleftrightarrow> prefix (pw_sent w) (pw_sent w') \<and> prefix (pw_got w) (pw_got w') \<and>
     (length (pw_got w) \<le> L \<longrightarrow> length (pw_got w') \<le> L)"

lemma pipe_moves:
  assumes "\<And>S. length (peer S) \<le> L"
  shows "net_moves (pipe_grows L) (pipe_net k peer closed)"
proof -
  have take: "length (take n (drop m (peer S))) + m \<le> L" if "m \<le> L" for n m S
    using assms [of S] that by (auto simp: min_def)
  have "growth (pipe_grows L)"
    unfolding growth_def pipe_grows_def by (auto intro: prefix_order.trans)
  then show ?thesis
    unfolding net_moves_def fut_moves_def
    using take by (auto simp: pipe_grows_def pipe_read_def pipe_sleep_def Let_def add.commute split: if_splits)
qed

subsection \<open>Frames\<close>

text \<open>C9: over any source of bytes, however they arrive in pieces, a frame read that succeeds has put
  exactly the next \<open>n\<close> bytes of the stream into the buffer and taken no more; a clean disconnect
  took none; a truncated frame reports how many it took, fewer than the frame; an I/O error lost
  fewer than a frame. The size and the capacity of the buffer never change.\<close>

theorem read_exact_or_closed_correct:
  assumes "byte_source N h got" and "read_exact_or_closed N h dl buf w = (r, buf', w')"
  shows "\<exists>d. got w' = got w @ d \<and> length d \<le> vec_len buf \<and> vcap buf' = vcap buf \<and>
    (case r of
       Pending \<Rightarrow> True
     | Ready (Inr _) \<Rightarrow> d = vdata buf' \<and> length d = vec_len buf
     | Ready (Inl e) \<Rightarrow>
         (case e of
            ConnectionClosed \<Rightarrow> d = [] \<and> 0 < vec_len buf
          | ConnectionClosedMidFrame k n \<Rightarrow> k = length d \<and> n = vec_len buf \<and> 0 < k \<and> k < n
          | Io _ \<Rightarrow> length d < vec_len buf
          | _ \<Rightarrow> False))"
proof -
  obtain d where d: "got w' = got w @ d" "length d \<le> vec_len buf"
    "pred_poll (\<lambda>res. frame_result res (vec_len buf) d (vdata buf')) r"
    using byte_source.read_exact_or_closed_result [OF assms] by blast
  note frame = read_exact_or_closed_frame [OF assms(2)]
  show ?thesis
    using d frame
    by (intro exI [of _ d]) (auto simp: vec_len_def split: poll.split sum.split error.split)
qed

lemma pipe_cut_short:
  "read_exact_or_closed (pipe_net 0 (\<lambda>_. [1, 2]) (\<lambda>_. True)) () None (Vec [0, 0, 0] 3) pipe_start =
     (Ready (Inl (ConnectionClosedMidFrame 2 3)), Vec [1, 2, 0] 3,
      \<lparr>pw_sent = [], pw_got = [1, 2], pw_now = 0\<rparr>)"
  by (simp add: read_exact_or_closed_def fill_from.simps pipe_read_def pipe_start_def vec_write_def vec_len_def Let_def)

text \<open>A frame of three bytes that arrives in pieces of one and is cut short after two.\<close>

theorem read_exact_or_closed_correct_witness:
  "\<exists>d. [1, 2 :: byte] = [] @ d \<and> length d \<le> 3 \<and> (2 :: nat) = length d \<and> (2 :: nat) < 3"
  using read_exact_or_closed_correct [OF pipe_source.byte_source_axioms pipe_cut_short]
  by (auto simp: vec_len_def)

text \<open>The runtime's \<open>read_exact\<close>, which some callers use instead, reads the same bytes in the same
  way and differs in one point only: an end of the stream, inside a frame or before it, is an
  \<open>UnexpectedEof\<close> error, so the caller cannot tell a disconnect from an I/O error.\<close>

theorem read_exact_forgets_disconnect:
  "read_exact N h dl buf w =
     (case read_exact_or_closed N h dl buf w of
        (Ready (Inr u), b, w') \<Rightarrow> (Ready (Inr u), b, w')
      | (Ready (Inl e), b, w') \<Rightarrow> (Ready (Inl (case e of Io e' \<Rightarrow> e' | _ \<Rightarrow> UnexpectedEof)), b, w')
      | (Pending, b, w') \<Rightarrow> (Pending, b, w')) \<and>
   (\<forall>e. \<not> is_disconnect (error_from_io e))"
proof -
  have "plain_read_error = (\<lambda>e. case e of Io e' \<Rightarrow> e' | _ \<Rightarrow> UnexpectedEof)"
    by (rule ext) (simp split: error.split)
  then show ?thesis
    unfolding read_exact_def read_exact_or_closed_def read_exact_from_fill_from
    by (simp only: error_from_io_def is_disconnect.simps) simp
qed

end
