(* ===== verification/Headers.thy ===== *)
theory Headers
  imports Errors
begin

section \<open>Frame headers (request_header.rs, response_header.rs)\<close>

text \<open>
  The two headers of the wire format. A request header is eight bytes, command and payload size
  big-endian; a response header is one status byte, followed by a four-byte size unless the
  one-byte default form is used. Decoding reads a slice and returns what is left of it, as the
  code advances its \<open>&mut &[u8]\<close>; sizes over the limit are refused before anything is allocated.
\<close>

subsection \<open>Request headers\<close>

record request_header =
  rq_command :: u32
  rq_data_size :: u32

definition REQUEST_HEADER_SIZE :: usize where "REQUEST_HEADER_SIZE = 8"

definition request_header_new :: "u32 \<Rightarrow> u32 \<Rightarrow> request_header" where
  "request_header_new command data_size = \<lparr>rq_command = command, rq_data_size = data_size\<rparr>"

definition request_encoded_len :: usize where
  "request_encoded_len = REQUEST_HEADER_SIZE"

definition request_encode :: "request_header \<Rightarrow> vec \<Rightarrow> error + vec" where
  "request_encode hdr buf =
     (let buf1 = vec_extend (to_be_bytes (rq_command hdr)) buf;
          buf2 = vec_extend (to_be_bytes (rq_data_size hdr)) buf1
      in Inr buf2)"

definition request_decode :: "byte list \<Rightarrow> usize \<Rightarrow> error + request_header \<times> byte list" where
  "request_decode buf max_data_size =
     (if length buf < REQUEST_HEADER_SIZE then
        Inl (Protocol (lit ''Not enough bytes to decode RequestHeader''))
      else
        (let command = from_be_bytes (take 4 buf);
             data_size = from_be_bytes (take 4 (drop 4 buf))
         in if unat data_size > max_data_size then
              Inl (BufferOverflow (unat data_size) max_data_size)
            else
              Inr (\<lparr>rq_command = command, rq_data_size = data_size\<rparr>,
                   drop REQUEST_HEADER_SIZE buf)))"

subsection \<open>Response headers\<close>

record response_header =
  rs_status :: byte
  rs_data_size :: u32

definition DEFAULT_RESPONSE_HEADER_SIZE :: usize where "DEFAULT_RESPONSE_HEADER_SIZE = 1"
definition RESPONSE_HEADER_SIZE :: usize where "RESPONSE_HEADER_SIZE = 5"

definition response_header_new :: "byte \<Rightarrow> u32 \<Rightarrow> response_header" where
  "response_header_new status data_size = \<lparr>rs_status = status, rs_data_size = data_size\<rparr>"

definition response_encoded_len :: "bool \<Rightarrow> bool \<Rightarrow> usize" where
  "response_encoded_len is_default command_has_answer =
     (if is_default then DEFAULT_RESPONSE_HEADER_SIZE
      else if command_has_answer then RESPONSE_HEADER_SIZE
      else DEFAULT_RESPONSE_HEADER_SIZE)"

definition response_encode :: "response_header \<Rightarrow> vec \<Rightarrow> bool \<Rightarrow> error + vec" where
  "response_encode hdr buf is_default =
     (let buf1 = vec_push (rs_status hdr) buf;
          buf2 = (if \<not> is_default then vec_extend (to_be_bytes (rs_data_size hdr)) buf1 else buf1)
      in Inr buf2)"

definition response_decode ::
  "byte list \<Rightarrow> bool \<Rightarrow> usize \<Rightarrow> error + response_header \<times> byte list" where
  "response_decode buf is_default max_data_size =
     (case buf of
        [] \<Rightarrow> Inl (Protocol (lit ''Not enough bytes to decode ResponseHeader''))
      | status # _ \<Rightarrow>
          (if is_default then
             Inr (\<lparr>rs_status = status, rs_data_size = 0\<rparr>, drop DEFAULT_RESPONSE_HEADER_SIZE buf)
           else if length buf < RESPONSE_HEADER_SIZE then
             Inl (Protocol (lit ''Not enough bytes to decode ResponseHeader''))
           else
             (let data_size = from_be_bytes (take 4 (drop 1 buf)) in
              if unat data_size > max_data_size then
                Inl (BufferOverflow (unat data_size) max_data_size)
              else
                Inr (\<lparr>rs_status = status, rs_data_size = data_size\<rparr>,
                     drop RESPONSE_HEADER_SIZE buf))))"

lemmas header_sizes =
  REQUEST_HEADER_SIZE_def DEFAULT_RESPONSE_HEADER_SIZE_def RESPONSE_HEADER_SIZE_def
  request_encoded_len_def response_encoded_len_def

subsection \<open>The bytes of a header\<close>

definition request_bytes :: "u32 \<Rightarrow> u32 \<Rightarrow> byte list" where
  "request_bytes command data_size = to_be_bytes command @ to_be_bytes data_size"

definition response_bytes :: "byte \<Rightarrow> u32 \<Rightarrow> byte list" where
  "response_bytes status data_size = status # to_be_bytes data_size"

lemma length_request_bytes [simp]: "length (request_bytes c n) = 8"
  by (simp add: request_bytes_def)

lemma length_response_bytes [simp]: "length (response_bytes s n) = 5"
  by (simp add: response_bytes_def)

lemma request_bytes_inject [simp]: "request_bytes c n = request_bytes c' n' \<longleftrightarrow> c = c' \<and> n = n'"
  by (simp add: request_bytes_def)

lemma request_encode_data:
  "request_encode hdr buf = Inr b \<Longrightarrow>
     vdata b = vdata buf @ request_bytes (rq_command hdr) (rq_data_size hdr)"
  by (auto simp: request_encode_def Let_def vec_simps request_bytes_def)

lemma response_encode_data:
  "response_encode hdr buf d = Inr b \<Longrightarrow>
     vdata b = vdata buf @ (if d then [rs_status hdr] else response_bytes (rs_status hdr) (rs_data_size hdr))"
  by (auto simp: response_encode_def Let_def vec_simps response_bytes_def)

text \<open>Encoding into a cleared buffer with room for a header keeps the capacity.\<close>

lemma request_encode_clear [vec_simps]:
  "8 \<le> vcap buf \<Longrightarrow>
     request_encode (request_header_new c n) (vec_clear buf) = Inr (Vec (request_bytes c n) (vcap buf))"
  by (simp add: request_encode_def request_header_new_def Let_def vec_extend_def vec_clear_def
      vec_len_def grown_cap_def request_bytes_def)

lemma response_encode_clear [vec_simps]:
  "8 \<le> vcap buf \<Longrightarrow> response_encode (response_header_new s n) (vec_clear buf) d =
     Inr (Vec (if d then [s] else response_bytes s n) (vcap buf))"
  by (simp add: response_encode_def response_header_new_def Let_def vec_push_def vec_extend_def
      vec_clear_def vec_len_def grown_cap_def response_bytes_def)

lemma request_encode_empty [vec_simps]:
  "8 \<le> cap \<Longrightarrow> request_encode (request_header_new c n) (Vec [] cap) = Inr (Vec (request_bytes c n) cap)"
  using request_encode_clear [of "Vec [] cap" c n] by (simp add: vec_clear_def)

lemma response_encode_empty [vec_simps]:
  "8 \<le> cap \<Longrightarrow> response_encode (response_header_new s n) (Vec [] cap) d =
     Inr (Vec (if d then [s] else response_bytes s n) cap)"
  using response_encode_clear [of "Vec [] cap" s n d] by (simp add: vec_clear_def)

subsection \<open>Decoding\<close>

lemma request_decode_bytes:
  "request_decode (request_bytes c n @ rest) limit =
     (if unat n \<le> limit then Inr (\<lparr>rq_command = c, rq_data_size = n\<rparr>, rest)
      else Inl (BufferOverflow (unat n) limit))"
  by (simp add: request_decode_def request_bytes_def header_sizes Let_def)

lemma request_decode_Inr:
  "request_decode buf limit = Inr (hdr, rest) \<longleftrightarrow>
     buf = request_bytes (rq_command hdr) (rq_data_size hdr) @ rest \<and> unat (rq_data_size hdr) \<le> limit"
proof
  assume "request_decode buf limit = Inr (hdr, rest)"
  then have h: "8 \<le> length buf" "rq_command hdr = from_be_bytes (take 4 buf)"
    "rq_data_size hdr = from_be_bytes (take 4 (drop 4 buf))" "rest = drop 8 buf"
    "unat (rq_data_size hdr) \<le> limit"
    by (auto simp: request_decode_def Let_def header_sizes not_less split: if_splits)
  have "buf = take 4 buf @ take 4 (drop 4 buf) @ drop 8 buf"
    using append_take_drop_id [of 4 buf] append_take_drop_id [of 4 "drop 4 buf"] by simp
  with h show "buf = request_bytes (rq_command hdr) (rq_data_size hdr) @ rest \<and> unat (rq_data_size hdr) \<le> limit"
    by (simp add: request_bytes_def)
next
  assume "buf = request_bytes (rq_command hdr) (rq_data_size hdr) @ rest \<and> unat (rq_data_size hdr) \<le> limit"
  then show "request_decode buf limit = Inr (hdr, rest)"
    by (simp add: request_decode_bytes)
qed

lemma response_decode_default:
  "response_decode (s # rest) True limit = Inr (\<lparr>rs_status = s, rs_data_size = 0\<rparr>, rest)"
  by (simp add: response_decode_def header_sizes)

lemma response_decode_bytes:
  "response_decode (response_bytes s n @ rest) False limit =
     (if unat n \<le> limit then Inr (\<lparr>rs_status = s, rs_data_size = n\<rparr>, rest)
      else Inl (BufferOverflow (unat n) limit))"
  by (simp add: response_decode_def response_bytes_def header_sizes Let_def)

subsection \<open>Round trips\<close>

text \<open>Encoding a request header appends eight bytes, and decoding them in front of anything gives the
  header and the rest back, or the overflow error when the size is over the limit.\<close>

lemma request_round_trip:
  "\<exists>buf'. request_encode hdr buf = Inr buf' \<and>
     (\<exists>bs. vdata buf' = vdata buf @ bs \<and> length bs = request_encoded_len \<and>
        request_decode (bs @ rest) limit =
          (if unat (rq_data_size hdr) \<le> limit then Inr (hdr, rest)
           else Inl (BufferOverflow (unat (rq_data_size hdr)) limit)))"
proof -
  obtain buf' where enc: "request_encode hdr buf = Inr buf'"
    by (simp add: request_encode_def Let_def)
  show ?thesis
    using request_encode_data [OF enc]
    by (intro exI [of _ buf'] conjI enc exI [of _ "request_bytes (rq_command hdr) (rq_data_size hdr)"])
       (auto simp: request_decode_bytes header_sizes)
qed

text \<open>The same for response headers in both forms. The five-byte form carries the size; the one-byte
  form loses it and reads as size 0, whatever the limit.\<close>

lemma response_round_trip:
  "\<exists>buf'. response_encode hdr buf d = Inr buf' \<and>
     (\<exists>bs. vdata buf' = vdata buf @ bs \<and> length bs = response_encoded_len d True \<and>
        response_decode (bs @ rest) d limit =
          (if d then Inr (hdr\<lparr>rs_data_size := 0\<rparr>, rest)
           else if unat (rs_data_size hdr) \<le> limit then Inr (hdr, rest)
           else Inl (BufferOverflow (unat (rs_data_size hdr)) limit)))"
proof -
  obtain buf' where enc: "response_encode hdr buf d = Inr buf'"
    by (simp add: response_encode_def Let_def)
  note bs = response_encode_data [OF enc]
  show ?thesis
  proof (cases d)
    case True
    with enc bs show ?thesis
      by (intro exI [of _ buf'] conjI exI [of _ "[rs_status hdr]"])
         (cases hdr, simp_all add: response_decode_default header_sizes)
  next
    case False
    with enc bs show ?thesis
      by (intro exI [of _ buf'] conjI exI [of _ "response_bytes (rs_status hdr) (rs_data_size hdr)"])
         (simp_all add: response_decode_bytes header_sizes)
  qed
qed

text \<open>C32: the codecs of both headers round-trip. Encoding appends exactly the bytes of the header, eight
  for a request, five or one for a response; decoding them in front of anything gives the header and
  the rest back, or the overflow error when the size is over the limit. The one-byte form of a
  response loses the size, which reads as 0 whatever the limit.\<close>

theorem header_round_trips:
  "(\<exists>buf'. request_encode rq buf = Inr buf' \<and>
     (\<exists>bs. vdata buf' = vdata buf @ bs \<and> length bs = request_encoded_len \<and>
        request_decode (bs @ rest) limit =
          (if unat (rq_data_size rq) \<le> limit then Inr (rq, rest)
           else Inl (BufferOverflow (unat (rq_data_size rq)) limit)))) \<and>
   (\<exists>buf'. response_encode rs buf d = Inr buf' \<and>
     (\<exists>bs. vdata buf' = vdata buf @ bs \<and> length bs = response_encoded_len d True \<and>
        response_decode (bs @ rest) d limit =
          (if d then Inr (rs\<lparr>rs_data_size := 0\<rparr>, rest)
           else if unat (rs_data_size rs) \<le> limit then Inr (rs, rest)
           else Inl (BufferOverflow (unat (rs_data_size rs)) limit))))"
  by (rule conjI [OF request_round_trip response_round_trip])

text \<open>A request header is decoded exactly from its own eight bytes with a size within the limit:
  what is accepted is a canonical frame, and nothing after it is touched.\<close>

theorem request_decode_exact:
  "request_decode buf limit = Inr (hdr, rest) \<longleftrightarrow>
     buf = to_be_bytes (rq_command hdr) @ to_be_bytes (rq_data_size hdr) @ rest \<and>
     unat (rq_data_size hdr) \<le> limit"
  by (simp add: request_decode_Inr request_bytes_def)

end
