(* ===== verification/Protocol_Structs.thy ===== *)
theory Protocol_Structs
  imports Prelude
begin

section \<open>Commands and response statuses (protocol_structs.rs)\<close>

text \<open>
  The two enums of the protocol with their numeric representations, and the conversions between
  them and integers: \<open>as u8\<close>, \<open>as u32\<close>, and the \<open>FromRepr\<close> lookup that falls back to \<open>Unknown\<close>.
\<close>

datatype command = Ping

definition command_as_u32 :: "command \<Rightarrow> u32" where
  "command_as_u32 cmd = (case cmd of Ping \<Rightarrow> 0)"

datatype response_status =
    Unknown | Ok | Finish | StatusError | DatabaseError | InvalidCommand | InvalidData
  | InvalidDataSize | InvalidDataFormat | InvalidDataValue | InvalidDomain | InvalidRequest
  | InvalidResponse | InvalidSignature

fun status_repr :: "response_status \<Rightarrow> nat" where
  "status_repr Unknown = 0"
| "status_repr Ok = 1"
| "status_repr Finish = 2"
| "status_repr StatusError = 3"
| "status_repr DatabaseError = 4"
| "status_repr InvalidCommand = 5"
| "status_repr InvalidData = 6"
| "status_repr InvalidDataSize = 7"
| "status_repr InvalidDataFormat = 8"
| "status_repr InvalidDataValue = 9"
| "status_repr InvalidDomain = 10"
| "status_repr InvalidRequest = 11"
| "status_repr InvalidResponse = 12"
| "status_repr InvalidSignature = 13"

definition all_statuses :: "response_status list" where
  "all_statuses = [Unknown, Ok, Finish, StatusError, DatabaseError, InvalidCommand, InvalidData,
     InvalidDataSize, InvalidDataFormat, InvalidDataValue, InvalidDomain, InvalidRequest,
     InvalidResponse, InvalidSignature]"

definition status_as_u8 :: "response_status \<Rightarrow> byte" where
  "status_as_u8 s = word_of_nat (status_repr s)"

definition status_as_u32 :: "response_status \<Rightarrow> u32" where
  "status_as_u32 s = word_of_nat (status_repr s)"

text \<open>\<open>FromRepr\<close> derives the lookup of a variant by its number.\<close>

definition status_from_repr :: "byte \<Rightarrow> response_status option" where
  "status_from_repr b = find (\<lambda>s. status_as_u8 s = b) all_statuses"

definition status_from_u8 :: "byte \<Rightarrow> response_status" where
  "status_from_u8 b = (case status_from_repr b of None \<Rightarrow> Unknown | Some s \<Rightarrow> s)"

text \<open>The \<open>u32\<close> conversion casts to \<open>u8\<close> first, so it only looks at the low byte.\<close>

definition status_from_u32 :: "u32 \<Rightarrow> response_status" where
  "status_from_u32 v = (case status_from_repr (ucast v) of None \<Rightarrow> Unknown | Some s \<Rightarrow> s)"

text \<open>Statuses are ordered by their number, as their representation is.\<close>

instantiation response_status :: linorder
begin

definition less_eq_response_status :: "response_status \<Rightarrow> response_status \<Rightarrow> bool" where
  "less_eq_response_status a b \<longleftrightarrow> status_repr a \<le> status_repr b"

definition less_response_status :: "response_status \<Rightarrow> response_status \<Rightarrow> bool" where
  "less_response_status a b \<longleftrightarrow> status_repr a < status_repr b"

instance
proof
  fix a b :: response_status
  assume "a \<le> b" and "b \<le> a"
  then show "a = b"
    by (cases a; cases b) (simp_all add: less_eq_response_status_def)
qed (auto simp: less_eq_response_status_def less_response_status_def)

end

lemma status_as_u8_inject [simp]: "status_as_u8 a = status_as_u8 b \<longleftrightarrow> a = b"
  by (cases a; cases b) (simp_all add: status_as_u8_def)

lemma status_as_u8_Ok [simp]: "status_as_u8 s = 1 \<longleftrightarrow> s = Ok"
  by (cases s) (simp_all add: status_as_u8_def)

lemma status_as_u8_of_Ok [simp]: "status_as_u8 Ok = 1"
  by (simp add: status_as_u8_def)

lemma status_in_all [simp]: "s \<in> set all_statuses"
  by (cases s) (simp_all add: all_statuses_def)

lemma status_from_repr_as_u8 [simp]: "status_from_repr (status_as_u8 s) = Some s"
  by (cases s) (simp_all add: status_from_repr_def all_statuses_def status_as_u8_def)

lemma status_repr_le: "status_repr s \<le> 13"
  by (cases s) simp_all

lemma unat_status_as_u8 [simp]: "unat (status_as_u8 s) = status_repr s"
  using status_repr_le [of s] by (simp add: status_as_u8_def unat_of_nat)

lemma ucast_status_as_u32 [simp]: "ucast (status_as_u32 s) = status_as_u8 s"
  by (cases s) (simp_all add: status_as_u32_def status_as_u8_def)

lemma status_repr_surj: "n \<le> 13 \<Longrightarrow> \<exists>s. status_repr s = n"
proof -
  assume "n \<le> 13"
  then have "n \<in> status_repr ` set all_statuses"
    by (auto simp: all_statuses_def le_Suc_eq numeral_eq_Suc)
  then show ?thesis by auto
qed

text \<open>The bytes that name no status are those above 13.\<close>

lemma status_from_repr_None: "status_from_repr b = None \<longleftrightarrow> 13 < unat b"
proof
  assume "status_from_repr b = None"
  then have "\<forall>s. status_as_u8 s \<noteq> b"
    by (simp add: status_from_repr_def find_None_iff)
  then show "13 < unat b"
    using status_repr_surj [of "unat b"] by (metis not_less unat_status_as_u8 word_unat_eq_iff)
next
  assume "13 < unat b"
  then show "status_from_repr b = None"
    by (auto simp: status_from_repr_def find_None_iff) (meson not_less status_repr_le)
qed

lemma status_from_repr_Some: "status_from_repr b = Some s \<longleftrightarrow> status_as_u8 s = b"
proof
  assume "status_from_repr b = Some s"
  then show "status_as_u8 s = b" by (auto simp: status_from_repr_def find_Some_iff)
next
  assume "status_as_u8 s = b"
  then show "status_from_repr b = Some s" using status_from_repr_as_u8 [of s] by simp
qed

lemma command_Ping [simp]: "command_as_u32 Ping = 0"
  by (simp add: command_as_u32_def)

subsection \<open>The conversions\<close>

text \<open>Converting a status to a number and back gives the status again, through both widths;
  every byte that names no status, and the byte 0, reads as \<open>Unknown\<close>, and no other byte does.\<close>

theorem status_round_trip:
  "status_from_u8 (status_as_u8 s) = s \<and> status_from_u32 (status_as_u32 s) = s \<and>
   (status_from_u8 b = Unknown \<longleftrightarrow> b = 0 \<or> 13 < unat b) \<and>
   (status_from_u8 b \<noteq> Unknown \<longleftrightarrow> status_as_u8 (status_from_u8 b) = b \<and> b \<noteq> 0)"
proof -
  have zero: "status_as_u8 t = 0 \<longleftrightarrow> t = Unknown" for t
    by (cases t) (simp_all add: status_as_u8_def)
  have lookup: "status_from_u8 b = t \<longleftrightarrow> status_as_u8 t = b \<or> t = Unknown \<and> 13 < unat b" for t
    using status_from_repr_Some [of b t] status_from_repr_None [of b]
    by (cases "status_from_repr b") (auto simp: status_from_u8_def)
  have unknown: "status_from_u8 b = Unknown \<longleftrightarrow> b = 0 \<or> 13 < unat b"
    using lookup [of Unknown] zero [of Unknown] by auto
  have "unat b \<le> 13" if "status_as_u8 t = b" for t
    using status_repr_le [of t] that by auto
  then have "status_as_u8 (status_from_u8 b) = b \<longleftrightarrow> unat b \<le> 13"
    using lookup [of "status_from_u8 b"] by auto
  then show ?thesis
    using unknown by (auto simp: status_from_u8_def status_from_u32_def)
qed

text \<open>The conversion from \<open>u32\<close> narrows to the low byte before it looks the status up, so every
  number above 255 reads as the status of its low byte instead of \<open>Unknown\<close>; 257 is \<open>Ok\<close>.\<close>

theorem status_from_u32_low_byte:
  "status_from_u32 v = status_from_u8 (ucast v) \<and> status_from_u32 (v AND 255) = status_from_u32 v \<and>
   status_from_u32 257 = Ok"
proof -
  have low: "ucast (v AND 255) = (ucast v :: byte)"
  proof -
    have mask: "(255 :: u32) = mask 8" by (simp add: mask_eq_exp_minus_1)
    show ?thesis unfolding mask by (rule bit_word_eqI) (auto simp: bit_simps)
  qed
  show ?thesis
    by (simp add: status_from_u32_def status_from_u8_def low)
       (simp add: status_from_repr_def all_statuses_def status_as_u8_def)
qed

end
