(* ===== verification/Timeout_Config.thy ===== *)
theory Timeout_Config
  imports Errors
begin

section \<open>Timeout configuration (timeout_config.rs)\<close>

text \<open>
  The timeout configuration of clients and servers: its defaults, its validation, and the builder
  that clamps the ping interval below the header timeout. Durations are nanoseconds, so
  \<open>saturating_sub\<close> is subtraction of naturals and dividing a duration by an integer is \<open>div\<close>.
\<close>

definition DEFAULT_CONNECT_TIMEOUT :: duration where "DEFAULT_CONNECT_TIMEOUT = from_secs 10"
definition DEFAULT_READ_HEADER_TIMEOUT :: duration where "DEFAULT_READ_HEADER_TIMEOUT = from_secs 60"
definition DEFAULT_READ_DATA_TIMEOUT :: duration where "DEFAULT_READ_DATA_TIMEOUT = from_secs 60"
definition DEFAULT_WRITE_TIMEOUT :: duration where "DEFAULT_WRITE_TIMEOUT = from_secs 60"
definition DEFAULT_KEEP_ALIVE_TIME :: duration where "DEFAULT_KEEP_ALIVE_TIME = from_secs 30"
definition DEFAULT_KEEP_ALIVE_INTERVAL :: duration where "DEFAULT_KEEP_ALIVE_INTERVAL = from_secs 10"
definition DEFAULT_PING_INTERVAL :: duration where "DEFAULT_PING_INTERVAL = from_secs 30"
definition DEFAULT_PING_WRITE_TIMEOUT :: duration where "DEFAULT_PING_WRITE_TIMEOUT = from_secs 5"
definition DEFAULT_MAX_CONNECT_RETRIES :: nat where "DEFAULT_MAX_CONNECT_RETRIES = 10"
definition DEFAULT_CONNECT_RETRY_DELAY :: duration where "DEFAULT_CONNECT_RETRY_DELAY = from_secs 1"
definition DEFAULT_CONNECT_TOTAL_TIMEOUT :: duration where
  "DEFAULT_CONNECT_TOTAL_TIMEOUT = from_secs 30"
definition PING_CLAMP_SUBTRACTION :: duration where "PING_CLAMP_SUBTRACTION = from_secs 1"
definition PING_CLAMP_HALVE_THRESHOLD :: duration where "PING_CLAMP_HALVE_THRESHOLD = from_millis 200"
definition PING_CLAMP_HALVE_DIVISOR :: nat where "PING_CLAMP_HALVE_DIVISOR = 2"

lemmas timeout_constants =
  DEFAULT_CONNECT_TIMEOUT_def DEFAULT_READ_HEADER_TIMEOUT_def DEFAULT_READ_DATA_TIMEOUT_def
  DEFAULT_WRITE_TIMEOUT_def DEFAULT_KEEP_ALIVE_TIME_def DEFAULT_KEEP_ALIVE_INTERVAL_def
  DEFAULT_PING_INTERVAL_def DEFAULT_PING_WRITE_TIMEOUT_def DEFAULT_MAX_CONNECT_RETRIES_def
  DEFAULT_CONNECT_RETRY_DELAY_def DEFAULT_CONNECT_TOTAL_TIMEOUT_def PING_CLAMP_SUBTRACTION_def
  PING_CLAMP_HALVE_THRESHOLD_def PING_CLAMP_HALVE_DIVISOR_def from_secs_def from_millis_def

record keep_alive_config =
  ka_time :: duration
  ka_interval :: duration

record timeout_config =
  tc_connect :: duration
  tc_read_header :: duration
  tc_read_data :: duration
  tc_write :: duration
  tc_keep_alive :: "keep_alive_config option"
  tc_connect_total :: duration
  tc_ping_write :: duration
  tc_ping_interval :: duration

definition default_keep_alive_config :: keep_alive_config where
  "default_keep_alive_config =
     \<lparr>ka_time = DEFAULT_KEEP_ALIVE_TIME, ka_interval = DEFAULT_KEEP_ALIVE_INTERVAL\<rparr>"

definition default_timeout_config :: timeout_config where
  "default_timeout_config =
     \<lparr>tc_connect = DEFAULT_CONNECT_TIMEOUT, tc_read_header = DEFAULT_READ_HEADER_TIMEOUT,
      tc_read_data = DEFAULT_READ_DATA_TIMEOUT, tc_write = DEFAULT_WRITE_TIMEOUT,
      tc_keep_alive = None, tc_connect_total = DEFAULT_CONNECT_TOTAL_TIMEOUT,
      tc_ping_write = DEFAULT_PING_WRITE_TIMEOUT, tc_ping_interval = DEFAULT_PING_INTERVAL\<rparr>"

text \<open>\<open>TimeoutConfig::validate\<close>, its three checks in order.\<close>

definition validate :: "timeout_config \<Rightarrow> error + unit" where
  "validate cfg =
     (if tc_connect_total cfg = 0 then
        Inl (Config (lit ''connect_total must be greater than zero''))
      else if tc_ping_write cfg = 0 then
        Inl (Config (lit ''ping_write must be greater than zero''))
      else if tc_ping_interval cfg \<ge> tc_read_header cfg then
        Inl (Config (Fmt (''TimeoutConfig invariant violated: ping_interval ({:?}) >= read_header ({:?}). '' @
               ''Pings may not prevent server-side connection timeout.'')
               [tc_ping_interval cfg, tc_read_header cfg]))
      else Inr ())"

text \<open>\<open>TimeoutConfig::with_ping_interval\<close>.\<close>

definition with_ping_interval :: "timeout_config \<Rightarrow> duration \<Rightarrow> timeout_config" where
  "with_ping_interval cfg0 interval =
     (let cfg = cfg0\<lparr>tc_ping_interval := interval\<rparr> in
      if tc_ping_interval cfg \<ge> tc_read_header cfg then
        (if tc_read_header cfg > 0 then
           (let clamped = tc_read_header cfg - PING_CLAMP_SUBTRACTION in
            cfg\<lparr>tc_ping_interval :=
              (if clamped = 0 \<and> tc_read_header cfg \<ge> PING_CLAMP_HALVE_THRESHOLD
               then tc_read_header cfg div PING_CLAMP_HALVE_DIVISOR
               else clamped)\<rparr>)
         else cfg\<lparr>tc_ping_interval := 0\<rparr>)
      else cfg)"

lemma validate_Inr_iff:
  "validate cfg = Inr () \<longleftrightarrow>
     0 < tc_connect_total cfg \<and> 0 < tc_ping_write cfg \<and> tc_ping_interval cfg < tc_read_header cfg"
  by (auto simp: validate_def)

text \<open>Clamping changes the ping interval and nothing else.\<close>

lemma with_ping_interval_frame:
  "with_ping_interval cfg i = cfg\<lparr>tc_ping_interval := tc_ping_interval (with_ping_interval cfg i)\<rparr>"
  by (simp add: with_ping_interval_def Let_def)

lemma with_ping_interval_lt:
  "0 < tc_read_header cfg \<Longrightarrow> tc_ping_interval (with_ping_interval cfg i) < tc_read_header cfg"
  by (auto simp: with_ping_interval_def Let_def timeout_constants)

lemma with_ping_interval_le: "tc_ping_interval (with_ping_interval cfg i) \<le> i"
  by (auto simp: with_ping_interval_def Let_def timeout_constants)

subsection \<open>What the settings accept\<close>

text \<open>The configuration a client adopts is the clamped one, and it is adopted exactly when the
  overall connect deadline, the ping write timeout and the header timeout are positive; the ping
  interval is never a reason for rejection, because clamping has made it fit.\<close>

theorem clamped_config_valid:
  "validate (with_ping_interval cfg (tc_ping_interval cfg)) = Inr () \<longleftrightarrow>
     0 < tc_connect_total cfg \<and> 0 < tc_ping_write cfg \<and> 0 < tc_read_header cfg"
proof -
  let ?c = "with_ping_interval cfg (tc_ping_interval cfg)"
  have same: "tc_connect_total ?c = tc_connect_total cfg" "tc_ping_write ?c = tc_ping_write cfg"
    "tc_read_header ?c = tc_read_header cfg"
    by (subst with_ping_interval_frame, simp)+
  show ?thesis
    unfolding validate_Inr_iff same using with_ping_interval_lt [of cfg "tc_ping_interval cfg"] by auto
qed

text \<open>The clamped interval itself. An interval below the header timeout is kept; otherwise it is a
  second less, half of a timeout between 200 milliseconds and a second, and zero for a shorter
  timeout. Zero means that pings are switched off, and validation does not object.\<close>

theorem clamped_ping_interval:
  "tc_ping_interval (with_ping_interval cfg i) =
     (if i < tc_read_header cfg then i
      else if from_secs 1 < tc_read_header cfg then tc_read_header cfg - from_secs 1
      else if from_millis 200 \<le> tc_read_header cfg then tc_read_header cfg div 2
      else 0)"
  by (auto simp: with_ping_interval_def Let_def timeout_constants)

end
