(* ===== verification/Ping.thy ===== *)
theory Ping
  imports Pipe Headers Protocol_Structs Timeout_Config
begin

section \<open>Keep-alive pings (ping.rs)\<close>

text \<open>
  The state a client shares with its background ping task, the task itself, and the two frames of
  a ping. The stream, the activity time, the stop flag and the configurations are behind mutexes;
  a client and its task interleave only where one of them waits, and what the other tasks do there
  is the parameter \<open>tn_others\<close>. The \<open>in_flight\<close> mutex is a flag: it is held or free.
\<close>

definition PING_CHECK_DIVISOR :: nat where "PING_CHECK_DIVISOR = 4"
definition MIN_PING_CHECK_INTERVAL :: duration where "MIN_PING_CHECK_INTERVAL = from_millis 100"
definition PING_OLD_FORMAT_READ_TIMEOUT :: duration where "PING_OLD_FORMAT_READ_TIMEOUT = from_millis 10"

record ping_config =
  pc_interval :: duration
  pc_enabled :: bool

definition default_ping_config :: ping_config where
  "default_ping_config = \<lparr>pc_interval = DEFAULT_PING_INTERVAL, pc_enabled = True\<rparr>"

record ping_state =
  pg_last_activity :: nat
  pg_in_flight :: bool
  pg_task_handle :: "nat option"
  pg_should_stop :: bool
  pg_config :: ping_config
  pg_timeout_config :: timeout_config

record 'h shared =
  sh_stream :: "'h option"
  sh_ping :: ping_state

text \<open>Spawning and aborting a task and the interference of other tasks belong to the runtime.\<close>

record ('h, 'w) task_net = "('h, 'w) net" +
  tn_spawn :: "'w \<Rightarrow> nat \<times> 'w"
  tn_abort :: "nat \<Rightarrow> 'w \<Rightarrow> 'w"
  tn_others :: "('h shared, 'w, unit) act"

definition ping_state_new :: "nat \<Rightarrow> ping_config \<Rightarrow> timeout_config \<Rightarrow> ping_state" where
  "ping_state_new now config tcfg =
     \<lparr>pg_last_activity = now, pg_in_flight = False, pg_task_handle = None, pg_should_stop = False,
      pg_config = config, pg_timeout_config = tcfg\<rparr>"

text \<open>Effects that do not wait, such as dropping a stream or aborting a task.\<close>

definition effect :: "('c \<Rightarrow> 'w \<Rightarrow> 'c \<times> 'w) \<Rightarrow> ('c, 'w, unit) act" where
  "effect f = (\<lambda>dl c w. case f c w of (c', w') \<Rightarrow> (Ready (), c', w'))"

text \<open>Looking at the clock.\<close>

definition with_world :: "('w \<Rightarrow> ('c, 'w, 'a) act) \<Rightarrow> ('c, 'w, 'a) act" where
  "with_world k = (\<lambda>dl c w. k w dl c w)"

definition update_ping ::
  "(ping_state \<Rightarrow> ping_state) \<Rightarrow> ('h, 'z) shared_scheme \<Rightarrow> ('h, 'z) shared_scheme" where
  "update_ping f s = s\<lparr>sh_ping := f (sh_ping s)\<rparr>"

text \<open>Waiting for a mutex: the other tasks may act on the shared state before it is granted.\<close>

definition wait_lock ::
  "('h, 'w, 'y) task_net_scheme \<Rightarrow> (('h, 'z) shared_scheme, 'w, unit) act" where
  "wait_lock N = borrow shared.truncate
     (\<lambda>s c. c\<lparr>sh_stream := sh_stream s, sh_ping := sh_ping s\<rparr>) (tn_others N)"

definition touch_activity ::
  "('h, 'w, 'y) task_net_scheme \<Rightarrow> (('h, 'z) shared_scheme, 'w, unit) act" where
  "touch_activity N = effect (\<lambda>s w. (update_ping (\<lambda>p. p\<lparr>pg_last_activity := net_now N w\<rparr>) s, w))"

definition elapsed_since_activity ::
  "('h, 'w, 'y) task_net_scheme \<Rightarrow> ('h, 'z) shared_scheme \<Rightarrow> 'w \<Rightarrow> duration" where
  "elapsed_since_activity N s w = net_now N w - pg_last_activity (sh_ping s)"

abbreviation ping_interval :: "('h, 'z) shared_scheme \<Rightarrow> duration" where
  "ping_interval s \<equiv> pc_interval (pg_config (sh_ping s))"

definition is_enabled :: "('h, 'z) shared_scheme \<Rightarrow> bool" where
  "is_enabled s = pc_enabled (pg_config (sh_ping s))"

text \<open>
  Replacing the shared stream drops the old one, and dropping a stream closes it. The guard of the
  \<open>in_flight\<close> mutex is released when its scope ends, also when the future holding it is dropped.
\<close>

definition put_stream ::
  "('h, 'w, 'y) task_net_scheme \<Rightarrow> 'h option \<Rightarrow> (('h, 'z) shared_scheme, 'w, unit) act" where
  "put_stream N new = effect (\<lambda>s w.
     (s\<lparr>sh_stream := new\<rparr>, case sh_stream s of None \<Rightarrow> w | Some h \<Rightarrow> net_close N h w))"

definition set_in_flight :: "bool \<Rightarrow> ('h, 'z) shared_scheme \<Rightarrow> ('h, 'z) shared_scheme" where
  "set_in_flight b = update_ping (\<lambda>p. p\<lparr>pg_in_flight := b\<rparr>)"

definition with_in_flight ::
  "(('h, 'z) shared_scheme, 'w, 'a) act \<Rightarrow> (('h, 'z) shared_scheme, 'w, 'a) act" where
  "with_in_flight m = (\<lambda>dl s w.
     case m dl (set_in_flight True s) w of (r, s', w') \<Rightarrow> (r, set_in_flight False s', w'))"

subsection \<open>The frames of a ping\<close>

definition send_ping_request_impl ::
  "('h, 'w, 'z) net_scheme \<Rightarrow> 'h \<Rightarrow> ('c, 'w, error + unit) act" where
  "send_ping_request_impl N writer =
     (case request_encode (request_header_new (command_as_u32 Ping) 0) (vec_with_capacity request_encoded_len) of
        Inl e \<Rightarrow> ret (Inl e)
      | Inr buf \<Rightarrow>
          await_try (map_err error_from_io (io (net_write_all N writer (vdata buf))))
          (\<lambda>_. await_try (map_err error_from_io (io (net_flush N writer)))
          (\<lambda>_. ret (Inr ()))))"

definition ping_read_error :: "io_error \<Rightarrow> error" where
  "ping_read_error e = (if e = UnexpectedEof then ConnectionClosed else error_from_io e)"

text \<open>A read into an array of the function's own.\<close>

definition read_array ::
  "('h, 'w, 'z) net_scheme \<Rightarrow> 'h \<Rightarrow> nat \<Rightarrow> ('c, 'w, io_error + byte list) act" where
  "read_array N h n = (\<lambda>dl c w.
     case read_exact N h dl (Vec (replicate n 0) n) w of
       (Ready (Inr _), b, w') \<Rightarrow> (Ready (Inr (vdata b)), c, w')
     | (Ready (Inl e), b, w') \<Rightarrow> (Ready (Inl e), c, w')
     | (Pending, b, w') \<Rightarrow> (Pending, c, w'))"

definition receive_ping_response_impl ::
  "('h, 'w, 'z) net_scheme \<Rightarrow> 'h \<Rightarrow> duration \<Rightarrow> ('c, 'w, error + unit) act" where
  "receive_ping_response_impl N reader read_header_timeout =
     await_try
       (timed N read_header_timeout (read_array N reader 1) ping_read_error
          (Timeout (lit ''Ping response header timeout'')))
       (\<lambda>status_buf.
          let status = status_buf ! 0 in
          if status \<noteq> 1 then ret (Inl (ResponseError status))
          else
            await (timeout N PING_OLD_FORMAT_READ_TIMEOUT (read_array N reader 4)) (\<lambda>r.
              case r of
                Inr (Inr size_buf) \<Rightarrow>
                  (let data_size = from_be_bytes size_buf in
                   if data_size \<noteq> 0 then
                     ret (Inl (Protocol (lit ''ping response must have data_size 0'')))
                   else ret (Inr ()))
              | Inr (Inl e) \<Rightarrow> ret (Inl (error_from_io e))
              | Inl _ \<Rightarrow> ret (Inr ())))"

subsection \<open>The background task\<close>

definition check_interval :: "duration \<Rightarrow> duration" where
  "check_interval interval =
     (let c = interval div PING_CHECK_DIVISOR in
      if c < MIN_PING_CHECK_INTERVAL then MIN_PING_CHECK_INTERVAL else c)"

abbreviation stop_flag :: "('h, 'z) shared_scheme \<Rightarrow> ('h, 'z) shared_scheme" where
  "stop_flag \<equiv> update_ping (\<lambda>p. p\<lparr>pg_should_stop := True\<rparr>)"

text \<open>
  One round of the task: \<open>True\<close> is \<open>continue\<close>, \<open>False\<close> is \<open>break\<close>. The lock on \<open>in_flight\<close> is only
  tried, so a request in flight makes the task skip the round.
\<close>

definition ping_exchange ::
  "('h, 'w, 'y) task_net_scheme \<Rightarrow> (('h, 'z) shared_scheme, 'w, bool) act" where
  "ping_exchange N = await (wait_lock N) (\<lambda>_. with_self (\<lambda>s.
     case sh_stream s of
       None \<Rightarrow> set_self stop_flag (ret False)
     | Some stream_ref \<Rightarrow>
         (let read_header = tc_read_header (pg_timeout_config (sh_ping s)) in
          await (await_try (send_ping_request_impl N stream_ref)
                   (\<lambda>_. receive_ping_response_impl N stream_ref read_header))
            (\<lambda>ping_result.
               case ping_result of
                 Inl e \<Rightarrow> await (put_stream N None) (\<lambda>_. set_self stop_flag (ret False))
               | Inr _ \<Rightarrow> await (touch_activity N) (\<lambda>_. ret True)))))"

definition ping_round ::
  "('h, 'w, 'y) task_net_scheme \<Rightarrow> (('h, 'z) shared_scheme, 'w, bool) act" where
  "ping_round N = with_self (\<lambda>s.
     await (io (net_sleep N (check_interval (ping_interval s)))) (\<lambda>_.
     await (wait_lock N) (\<lambda>_. with_self (\<lambda>s.
       if pg_should_stop (sh_ping s) then ret False
       else with_world (\<lambda>w.
         if elapsed_since_activity N s w < ping_interval s then ret True
         else if pg_in_flight (sh_ping s) then ret True
         else with_in_flight (ping_exchange N))))))"

primrec ping_task ::
  "('h, 'w, 'y) task_net_scheme \<Rightarrow> nat \<Rightarrow> (('h, 'z) shared_scheme, 'w, unit option) act" where
  "ping_task N 0 = ret None"
| "ping_task N (Suc fuel) =
     await (ping_round N) (\<lambda>continue. if continue then ping_task N fuel else ret (Some ()))"

definition start_ping_task ::
  "('h, 'w, 'y) task_net_scheme \<Rightarrow> (('h, 'z) shared_scheme, 'w, unit) act" where
  "start_ping_task N = with_self (\<lambda>s.
     if \<not> is_enabled s then ret ()
     else set_self (update_ping (\<lambda>p. p\<lparr>pg_should_stop := False\<rparr>)) (effect (\<lambda>s w.
       case tn_spawn N w of
         (handle, w') \<Rightarrow> (update_ping (\<lambda>p. p\<lparr>pg_task_handle := Some handle\<rparr>) s, w'))))"

definition stop_ping_task ::
  "('h, 'w, 'y) task_net_scheme \<Rightarrow> (('h, 'z) shared_scheme, 'w, unit) act" where
  "stop_ping_task N = set_self stop_flag (effect (\<lambda>s w.
     case pg_task_handle (sh_ping s) of
       None \<Rightarrow> (s, w)
     | Some handle \<Rightarrow> (update_ping (\<lambda>p. p\<lparr>pg_task_handle := None\<rparr>) s, tn_abort N handle w)))"

text \<open>
  Accessors for the code around the task: \<open>set_should_stop\<close>, \<open>take_task_handle\<close>, and the attempt to
  take the \<open>in_flight\<close> lock for a ping, which fails while a request holds it.
\<close>

definition set_should_stop :: "bool \<Rightarrow> (('h, 'z) shared_scheme, 'w, unit) act" where
  "set_should_stop val = set_self (update_ping (\<lambda>p. p\<lparr>pg_should_stop := val\<rparr>)) (ret ())"

definition take_task_handle :: "(('h, 'z) shared_scheme, 'w, nat option) act" where
  "take_task_handle = with_self (\<lambda>s.
     set_self (update_ping (\<lambda>p. p\<lparr>pg_task_handle := None\<rparr>)) (ret (pg_task_handle (sh_ping s))))"

definition try_acquire_in_flight_for_ping ::
  "('h, 'z) shared_scheme \<Rightarrow> ('h, 'z) shared_scheme option" where
  "try_acquire_in_flight_for_ping s = (if pg_in_flight (sh_ping s) then None else Some (set_in_flight True s))"

subsection \<open>How the shared state changes\<close>

text \<open>No other task is about: waiting for a mutex changes nothing.\<close>

definition undisturbed :: "('h, 'w, 'y) task_net_scheme \<Rightarrow> bool" where
  "undisturbed N \<longleftrightarrow> tn_others N = ret ()"

lemma wait_lock_undisturbed: "undisturbed N \<Longrightarrow> wait_lock N = ret ()"
  by (simp add: wait_lock_def undisturbed_def fun_eq_iff act_simps shared.truncate_def)

lemma ensures_effect [wp_rules]: "(\<And>w. Q (Ready ()) (fst (f c w))) \<Longrightarrow> ensures Q (effect f) c"
  by (auto simp: ensures_def effect_def split: prod.splits) (metis fst_conv)

lemma timely_effect [time_rules]: "(\<And>c w. now (snd (f c w)) = now w) \<Longrightarrow> timely now (effect f)"
  by (auto simp: timely_def effect_def split: prod.splits) (metis snd_conv max.cobounded2)

lemma runs_effect [exec_rules]:
  assumes "\<And>w. sent (snd (f c w)) = sent w" "\<And>w. got (snd (f c w)) = got w" "\<And>w. Q () (fst (f c w)) l"
  shows "runs sent got Q (effect f) c l"
proof (rule runsI)
  fix dl w assume "sent w = fst l" "got w = snd l"
  moreover have "effect f dl c w = (Ready (), fst (f c w), snd (f c w))"
    by (simp add: effect_def split: prod.split)
  moreover from calculation(1,2) have "Q () (fst (f c w)) (sent (snd (f c w)), got (snd (f c w)))"
    using assms by simp
  ultimately show "\<exists>a c' w'. effect f dl c w = (Ready a, c', w') \<and> Q a c' (sent w', got w')"
    by blast
qed

subsection \<open>The frames on a reliable connection\<close>

context reliable_conn
begin

lemma runs_read_array:
  assumes "drop (length G) (peer S) = bs @ rest" "length bs = n" "Q (Inr bs) c (S, G @ bs)"
  shows "runs sent got Q (read_array N h n) c (S, G)"
proof -
  have "runs sent got (\<lambda>r b l'. r = Inr () \<and> vdata b = bs \<and> l' = (S, G @ bs))
      (read_exact N h) (Vec (replicate n 0) n) (S, G)"
    by (rule runs_read_exact) (use assms(1,2) in \<open>simp_all add: vec_len_def\<close>)
  then show ?thesis
    by (rule runs_lift [where g = "\<lambda>dl w. dl"]) (use assms(3) in \<open>auto simp: read_array_def\<close>)
qed

lemma runs_send_ping:
  assumes "Q (Inr ()) c (S @ request_bytes 0 0, G)"
  shows "runs sent got Q (send_ping_request_impl N h) c (S, G)"
proof -
  have "request_encode (request_header_new (command_as_u32 Ping) 0) (vec_with_capacity request_encoded_len) =
      Inr (Vec (request_bytes 0 0) 8)"
    by (simp add: command_as_u32_def vec_with_capacity_def header_sizes request_encode_empty)
  with assms show ?thesis
    unfolding send_ping_request_impl_def
    by - (rule exec_rules | simp)+
qed

lemma runs_ping_rejected:
  assumes "drop (length G) (peer S) = st # rest" "st \<noteq> 1" "Q (Inl (ResponseError st)) c (S, G @ [st])"
  shows "runs sent got Q (receive_ping_response_impl N h d) c (S, G)"
  using assms unfolding receive_ping_response_impl_def
  by - (rule exec_rules runs_read_array [where bs = "[st]"] | simp)+

text \<open>A server of the old format follows the status by the size of the payload.\<close>

lemma runs_ping_old_format:
  assumes "drop (length G) (peer S) = 1 # to_be_bytes n @ rest"
    and "Q (if n = 0 then Inr () else Inl (Protocol (lit ''ping response must have data_size 0''))) c
      (S, G @ 1 # to_be_bytes n)"
  shows "runs sent got Q (receive_ping_response_impl N h d) c (S, G)"
proof -
  have "drop (length G + 1) (peer S) = to_be_bytes n @ rest"
    using assms(1) by (metis append_Cons append_Nil drop_drop add.commute drop0 drop_Suc_Cons One_nat_def)
  with assms show ?thesis
    unfolding receive_ping_response_impl_def
    by - (rule exec_rules runs_read_array [where bs = "[1]" and n = 1]
      runs_read_array [where bs = "to_be_bytes n" and n = 4] | simp add: runs_ret split: if_splits)+
qed

end

context quiet_conn
begin

lemma read_array_waits:
  assumes "sent w = S" "got w = G" "drop (length G) (peer S) = []" "0 < n"
  shows "\<exists>w'. read_array N h n (Some t) c w = (Pending, c, w') \<and> sent w' = S \<and> got w' = G"
proof -
  obtain w' where "net_read N h n (Some t) w = (Pending, w')" "sent w' = S" "got w' = G"
    using read_waits [of n w t] assms by auto
  then show ?thesis
    using assms(4) by (simp add: read_array_def read_exact_def read_exact_from.simps vec_len_def)
qed

lemma runs_free_timeout_waits:
  assumes "drop (length G) (peer S) = []" "0 < n" "\<And>e. Q (Inl e) c (S, G)"
  shows "runs_free sent got Q (timeout N d (read_array N h n)) c (S, G)"
proof (rule runs_freeI)
  fix w assume "sent w = fst (S, G)" "got w = snd (S, G)"
  then obtain w' where "read_array N h n (Some (net_now N w + d)) c w = (Pending, c, w')" "sent w' = S" "got w' = G"
    using read_array_waits [of w S G n "net_now N w + d" c] assms(1,2) by auto
  then show "\<exists>a c' w'. timeout N d (read_array N h n) None c w = (Ready a, c', w') \<and> Q a c' (sent w', got w')"
    using assms(3) by (simp add: timeout_def Let_def)
qed

lemma runs_free_ping_response:
  assumes "drop (length G) (peer S) = [1]" "Q (Inr ()) c (S, G @ [1])"
  shows "runs_free sent got Q (receive_ping_response_impl N h d) c (S, G)"
proof -
  have "drop (length (G @ [1])) (peer S) = []"
    using assms(1) by (metis drop_drop length_append add.commute list.size(3,4) drop0 drop_Suc_Cons One_nat_def add_0)
  then show ?thesis
    unfolding receive_ping_response_impl_def
    apply (rule_tac runs_free_await_try, rule_tac runs_free_runs, rule_tac runs_timed)
    apply (rule runs_read_array [where bs = "[1]" and rest = "[]"])
    using assms apply simp_all
    apply (rule runs_free_await, rule runs_free_timeout_waits)
    apply (auto intro: runs_free_runs runs_ret)
    done
qed

end

lemma runs_free_ping_exchange:
  assumes "quiet_conn N h peer sent got" "undisturbed N" "sh_stream s = Some h"
    and "drop (length G) (peer (S @ request_bytes 0 0)) = [1]"
    and "\<And>t. Q True (update_ping (\<lambda>p. p\<lparr>pg_last_activity := t\<rparr>) s) (S @ request_bytes 0 0, G @ [1])"
  shows "runs_free sent got Q (ping_exchange N) s (S, G)"
  using assms(3) unfolding ping_exchange_def wait_lock_undisturbed [OF assms(2)] Let_def
  apply (intro free_rules runs_free_runs [OF runs_ret])
  apply simp
  apply (intro free_rules)
  apply (rule runs_free_runs, rule reliable_conn.runs_send_ping [OF quiet_conn.axioms(1) [OF assms(1)]])
  apply simp
  apply (rule quiet_conn.runs_free_ping_response [OF assms(1,4)])
  apply simp
  apply (rule runs_free_await, rule runs_free_runs)
  apply (auto simp: touch_activity_def intro!: runs_effect assms(5) runs_free_runs [OF runs_ret])
  done


subsection \<open>Properties of the ping\<close>

text \<open>The pipe as the ping task sees it, with no other task about, and a state with a stream.\<close>

definition pipe_task :: "nat \<Rightarrow> (byte list \<Rightarrow> byte list) \<Rightarrow> (byte list \<Rightarrow> bool) \<Rightarrow> (unit, pipe) task_net" where
  "pipe_task k peer closed =
     \<lparr>net_now = pw_now, net_read = (\<lambda>h. pipe_read k peer closed),
      net_write_all = (\<lambda>h bs dl w. (Ready (Inr ()), w\<lparr>pw_sent := pw_sent w @ bs\<rparr>)),
      net_flush = (\<lambda>h dl w. (Ready (Inr ()), w)), net_shutdown = (\<lambda>h dl w. (Ready (Inr ()), w)),
      net_close = (\<lambda>h w. w), net_sleep = pipe_sleep,
      tn_spawn = (\<lambda>w. (0, w)), tn_abort = (\<lambda>k w. w), tn_others = ret ()\<rparr>"

lemma pipe_task_undisturbed: "undisturbed (pipe_task k peer closed)"
  by (simp add: undisturbed_def pipe_task_def)

lemma pipe_task_quiet: "quiet_conn (pipe_task k peer (\<lambda>_. False)) () peer pw_sent pw_got"
  by (rule quiet_conn_cong [OF pipe_quiet.quiet_conn_axioms [where k = k and peer = peer]])
     (simp_all add: pipe_task_def pipe_net_def)

definition kept_alive :: "unit shared" where
  "kept_alive = \<lparr>sh_stream = Some (), sh_ping = ping_state_new 0 default_ping_config default_timeout_config\<rparr>"

text \<open>A ping never cuts into a request. While a request holds the \<open>in_flight\<close> mutex, a round of the
  task sends nothing, reads nothing and leaves the shared state as it is; it only sleeps.\<close>

theorem ping_skips_requests_in_flight:
  assumes "undisturbed N" "pg_in_flight (sh_ping s)"
  shows "ping_round N dl s w =
    (case net_sleep N (check_interval (ping_interval s)) dl w of
       (Ready _, w') \<Rightarrow> (Ready (\<not> pg_should_stop (sh_ping s)), s, w')
     | (Pending, w') \<Rightarrow> (Pending, s, w'))"
  using assms(2)
  by (simp add: ping_round_def with_world_def act_simps wait_lock_undisturbed [OF assms(1)] split: prod.split poll.split)

theorem ping_skips_requests_in_flight_witness:
  "ping_round (pipe_task 0 (\<lambda>_. []) (\<lambda>_. True)) None (set_in_flight True kept_alive) pipe_start =
     (Ready True, set_in_flight True kept_alive,
      pipe_start\<lparr>pw_now := check_interval DEFAULT_PING_INTERVAL\<rparr>)"
  using ping_skips_requests_in_flight [OF pipe_task_undisturbed [of 0 "\<lambda>_. []" "\<lambda>_. True"],
      of "set_in_flight True kept_alive" None pipe_start]
  by (simp add: set_in_flight_def update_ping_def kept_alive_def ping_state_new_def default_ping_config_def
      pipe_task_def pipe_sleep_def Let_def)

lemma ensures_ping_exchange:
  assumes "undisturbed N"
  shows "ensures (\<lambda>r s'. (r = Ready True \<longrightarrow> sh_stream s' = sh_stream s \<and>
        pg_should_stop (sh_ping s') = pg_should_stop (sh_ping s)) \<and>
      (r = Ready False \<longrightarrow> sh_stream s' = None \<and> pg_should_stop (sh_ping s')) \<and>
      pg_in_flight (sh_ping s') = pg_in_flight (sh_ping s))
    (ping_exchange N) s"
proof -
  have frame: "ensures (\<lambda>r s'. s' = s) (await_try (send_ping_request_impl N h) (\<lambda>_. receive_ping_response_impl N h d)) s" for h d
  proof -
    have arr: "ensures (\<lambda>r s'. s' = s) (read_array N h n) s" for n
      by (auto simp: ensures_def read_array_def split: prod.splits poll.splits sum.splits)
    show ?thesis
      unfolding send_ping_request_impl_def receive_ping_response_impl_def Let_def
      by (auto split: sum.split poll.split intro!: wp_rules ensures_mono [OF arr])
  qed
  show ?thesis
    unfolding ping_exchange_def Let_def wait_lock_undisturbed [OF assms] put_stream_def touch_activity_def
    by (auto simp: update_ping_def split: option.split sum.split poll.split intro!: wp_rules ensures_mono [OF frame])
qed

lemma ensures_with_in_flight [wp_rules]:
  assumes "ensures (\<lambda>r s'. Q r (set_in_flight False s')) m (set_in_flight True s)"
  shows "ensures Q (with_in_flight m) s"
proof (rule ensuresI)
  fix dl w r s' w' assume run: "with_in_flight m dl s w = (r, s', w')"
  obtain r1 s1 w1 where m: "m dl (set_in_flight True s) w = (r1, s1, w1)" by (cases "m dl (set_in_flight True s) w")
  with run ensuresD [OF assms m] show "Q r s'" by (simp add: with_in_flight_def)
qed

lemma ensures_with_world [wp_rules]: "(\<And>w. ensures Q (k w) s) \<Longrightarrow> ensures Q (with_world k) s"
  unfolding ensures_def with_world_def by blast

text \<open>C12: what a round of the ping task leaves behind. The \<open>in_flight\<close> mutex is as it was. When the
  task goes on, the stream is still there; when it ends, the stop flag is set, and an exchange that
  failed has dropped the stream.\<close>

theorem ping_round_outcome:
  assumes "undisturbed N"
  shows "ensures (\<lambda>r s'. pg_in_flight (sh_ping s') = pg_in_flight (sh_ping s) \<and>
      (case r of
         Ready True \<Rightarrow> sh_stream s' = sh_stream s \<and> \<not> pg_should_stop (sh_ping s')
       | Ready False \<Rightarrow> pg_should_stop (sh_ping s') \<and> (pg_should_stop (sh_ping s) \<or> sh_stream s' = None)
       | Pending \<Rightarrow> True))
    (ping_round N) s"
  unfolding ping_round_def wait_lock_undisturbed [OF assms]
  by (auto simp: set_in_flight_def update_ping_def split: poll.split bool.split
      intro!: wp_rules ensures_mono [OF ensures_ping_exchange [OF assms]])

theorem ping_round_outcome_witness:
  "case ping_round (pipe_task 0 (\<lambda>_. [7]) (\<lambda>_. True)) None kept_alive (pipe_start\<lparr>pw_now := from_secs 100\<rparr>) of
     (r, s', w') \<Rightarrow> r = Ready False \<longrightarrow> pg_should_stop (sh_ping s')"
proof -
  let ?N = "pipe_task 0 (\<lambda>_. [7]) (\<lambda>_. True)" and ?w = "pipe_start\<lparr>pw_now := from_secs 100\<rparr>"
  obtain r s' w' where run: "ping_round ?N None kept_alive ?w = (r, s', w')"
    by (cases "ping_round ?N None kept_alive ?w")
  from ensuresD [OF ping_round_outcome [OF pipe_task_undisturbed] run] run show ?thesis
    by (auto split: bool.splits)
qed

text \<open>C31: the answers a ping understands. The single byte 1 of this crate's server, when nothing follows
  it within ten milliseconds, and the status 1 with a payload size of zero of the old format are
  both a success; a size other than zero is a protocol error, another status a response error.\<close>

theorem ping_response_formats:
  assumes "quiet_conn N h peer sent got" and "drop (length (got w)) (peer (sent w)) = answer"
    and "answer = [1] \<or> answer = 1 # to_be_bytes n \<or> (answer = st # rest \<and> st \<noteq> 1)"
  shows "\<exists>w'. receive_ping_response_impl N h d None c w =
      (Ready (if hd answer \<noteq> 1 then Inl (ResponseError (hd answer))
              else if answer \<noteq> [1] \<and> n \<noteq> 0 then Inl (Protocol (lit ''ping response must have data_size 0''))
              else Inr ()), c, w') \<and> sent w' = sent w"
proof -
  note rel = quiet_conn.axioms(1) [OF assms(1)]
  let ?r = "if hd answer \<noteq> 1 then Inl (ResponseError (hd answer))
              else if answer \<noteq> [1] \<and> n \<noteq> 0 then Inl (Protocol (lit ''ping response must have data_size 0''))
              else Inr ()"
  have size: "1 # to_be_bytes n \<noteq> [1]" by (simp add: to_be_bytes_def)
  have "runs_free sent got (\<lambda>r c' l'. r = ?r \<and> c' = c \<and> fst l' = sent w)
      (receive_ping_response_impl N h d) c (sent w, got w)"
    using assms(3)
  proof (elim disjE conjE)
    assume "answer = [1]"
    then show ?thesis
      using assms(2) by (intro quiet_conn.runs_free_ping_response [OF assms(1)]) auto
  next
    assume "answer = 1 # to_be_bytes n"
    then show ?thesis
      using assms(2) size
      by (intro runs_free_runs reliable_conn.runs_ping_old_format [OF rel, where n = n and rest = "[]"]) auto
  next
    assume "answer = st # rest" "st \<noteq> 1"
    then show ?thesis
      using assms(2) by (intro runs_free_runs reliable_conn.runs_ping_rejected [OF rel]) auto
  qed
  then show ?thesis by (rule runs_freeE) auto
qed

theorem ping_response_formats_witness:
  "\<exists>w'. receive_ping_response_impl (pipe_task 0 (\<lambda>_. [1, 0, 0, 0, 9]) (\<lambda>_. False)) () (from_secs 60) None () pipe_start =
     (Ready (Inl (Protocol (lit ''ping response must have data_size 0''))), (), w') \<and> pw_sent w' = []"
  using ping_response_formats [OF pipe_task_quiet [where k = 0 and peer = "\<lambda>_. [1, 0, 0, 0, 9]"],
      where w = pipe_start and answer = "[1, 0, 0, 0, 9]" and n = 9 and d = "from_secs 60" and c = "()"]
  by (simp add: to_be_bytes_def)

end
