(* ===== verification/Client_TL.thy ===== *)
theory Client_TL
  imports Ping
begin

section \<open>The plain TCP client (client_tl.rs)\<close>

text \<open>
  \<open>ClientTL\<close>: connecting with retries, the request-response exchange, connection reuse and its ping
  task, and the no-answer mode. The record extends the state shared with the ping task by the
  client's own fields. The functions of the exchange (\<open>*_locked\<close> in the code) work on the buffer
  and a stream they are given, so they are actions on the buffer alone.
\<close>

record 'h client_tl = "'h shared" +
  ct_address :: string
  ct_command_has_answer :: bool
  ct_buffer :: vec
  ct_max_buffer_size :: usize
  ct_timeout_config :: timeout_config
  ct_keep_alive :: bool

text \<open>Connecting and TCP keep-alive belong to the operating system.\<close>

record ('h, 'w) client_net = "('h, 'w) task_net" +
  cn_tcp_connect :: "string \<Rightarrow> ('w, io_error + 'h) fut"
  cn_set_tcp_keepalive :: "'h \<Rightarrow> keep_alive_config \<Rightarrow> 'w \<Rightarrow> 'w"
  cn_set_keepalive :: "'h \<Rightarrow> bool \<Rightarrow> 'w \<Rightarrow> 'w"

definition ct_new :: "nat \<Rightarrow> string \<Rightarrow> 'h client_tl" where
  "ct_new now address =
     (let cfg = default_timeout_config;
          ping_config = \<lparr>pc_interval = tc_ping_interval cfg, pc_enabled = tc_ping_interval cfg > 0\<rparr>
      in \<lparr>sh_stream = None, sh_ping = ping_state_new now ping_config default_timeout_config,
          ct_address = address, ct_command_has_answer = True,
          ct_buffer = vec_with_capacity DEFAULT_MAX_BUFFER_SIZE,
          ct_max_buffer_size = DEFAULT_MAX_BUFFER_SIZE, ct_timeout_config = cfg, ct_keep_alive = False\<rparr>)"

definition ct_set_max_buffer_size ::
  "(nat \<Rightarrow> bool) \<Rightarrow> usize \<Rightarrow> 'h client_tl \<Rightarrow> (error + unit) \<times> 'h client_tl" where
  "ct_set_max_buffer_size alloc buffer_size c =
     (let limit = (if buffer_size > 0 then buffer_size else DEFAULT_MAX_BUFFER_SIZE);
          additional = limit - vec_len (ct_buffer c)
      in case vec_try_reserve alloc additional (ct_buffer c) of
           Inl e \<Rightarrow> (Inl (Config (Fmt ''max_buffer_size {limit} cannot be reserved on this system: {e}'' [limit])), c)
         | Inr buf \<Rightarrow> (Inr (), c\<lparr>ct_buffer := buf, ct_max_buffer_size := limit\<rparr>))"

definition ct_set_command_has_answer :: "bool \<Rightarrow> 'h client_tl \<Rightarrow> 'h client_tl" where
  "ct_set_command_has_answer b c = c\<lparr>ct_command_has_answer := b\<rparr>"

definition ct_set_keep_alive ::
  "('h, 'w, 'y) client_net_scheme \<Rightarrow> bool \<Rightarrow> ('h client_tl, 'w, unit) act" where
  "ct_set_keep_alive N enabled = with_self (\<lambda>c.
     await (if \<not> enabled \<and> ct_keep_alive c then
              await (stop_ping_task N) (\<lambda>_. await (wait_lock N) (\<lambda>_. put_stream N None))
            else ret ())
       (\<lambda>_. set_self (\<lambda>c. c\<lparr>ct_keep_alive := enabled\<rparr>) (await (wait_lock N) (\<lambda>_.
          set_self (update_ping (\<lambda>p. p\<lparr>pg_config :=
              (pg_config p)\<lparr>pc_enabled := enabled \<and> pc_interval (pg_config p) > 0\<rparr>\<rparr>))
            (ret ())))))"

definition ct_set_timeout_config ::
  "('h, 'w, 'y) client_net_scheme \<Rightarrow> timeout_config \<Rightarrow> ('h client_tl, 'w, error + unit) act" where
  "ct_set_timeout_config N timeout_config = with_self (\<lambda>c.
     let config = with_ping_interval timeout_config (tc_ping_interval timeout_config) in
     await_try (ret (validate config)) (\<lambda>_.
       let ping_enabled = ct_keep_alive c \<and> tc_ping_interval config > 0 in
       await (wait_lock N) (\<lambda>_.
       set_self (update_ping (\<lambda>p. p\<lparr>pg_config :=
           \<lparr>pc_interval = tc_ping_interval config, pc_enabled = ping_enabled\<rparr>\<rparr>)) (
       await (wait_lock N) (\<lambda>_.
       set_self (update_ping (\<lambda>p. p\<lparr>pg_timeout_config := config\<rparr>)) (
       set_self (\<lambda>c. c\<lparr>ct_timeout_config := config\<rparr>) (ret (Inr ()))))))))"

subsection \<open>Connecting\<close>

definition ct_configure_socket ::
  "('h, 'w, 'y) client_net_scheme \<Rightarrow> 'h \<Rightarrow> ('h client_tl, 'w, unit) act" where
  "ct_configure_socket N stream = effect (\<lambda>c w. (c,
     if ct_keep_alive c then
       (case tc_keep_alive (ct_timeout_config c) of
          Some ka \<Rightarrow> cn_set_tcp_keepalive N stream ka w
        | None \<Rightarrow> cn_set_keepalive N stream True w)
     else w))"

text \<open>The branch of a connected socket: configure it, store it, restart the ping task.\<close>

definition ct_connected ::
  "('h, 'w, 'y) client_net_scheme \<Rightarrow> 'h \<Rightarrow> ('h client_tl, 'w, error + unit) act" where
  "ct_connected N stream =
     await (ct_configure_socket N stream) (\<lambda>_.
     await (wait_lock N) (\<lambda>_.
     await (put_stream N (Some stream)) (\<lambda>_.
     await (stop_ping_task N) (\<lambda>_. with_self (\<lambda>c.
     await (if ct_keep_alive c \<and> is_enabled c then start_ping_task N else ret ())
       (\<lambda>_. ret (Inr ())))))))"

function ct_connect_loop ::
  "('h, 'w, 'y) client_net_scheme \<Rightarrow> nat \<Rightarrow> ('h client_tl, 'w, error + unit) act" where
  "ct_connect_loop N tries =
     (if tries < DEFAULT_MAX_CONNECT_RETRIES then with_self (\<lambda>c.
        await (timeout N (tc_connect (ct_timeout_config c)) (io (cn_tcp_connect N (ct_address c)))) (\<lambda>r.
          case r of
            Inr (Inr stream) \<Rightarrow> ct_connected N stream
          | _ \<Rightarrow> await (io (net_sleep N DEFAULT_CONNECT_RETRY_DELAY)) (\<lambda>_.
                   ct_connect_loop N (Suc tries))))
      else
        await (wait_lock N) (\<lambda>_. with_self (\<lambda>c.
          if sh_stream c = None \<and> tries \<ge> DEFAULT_MAX_CONNECT_RETRIES then
            ret (Inl (error_from_str (lit ''Connection error, max retries reached'')))
          else ret (Inr ()))))"
  by pat_completeness auto
termination
  by (relation "measure (\<lambda>(N, tries). DEFAULT_MAX_CONNECT_RETRIES - tries)") auto

declare ct_connect_loop.simps [simp del]

definition ct_connect ::
  "('h, 'w, 'y) client_net_scheme \<Rightarrow> ('h client_tl, 'w, error + unit) act" where
  "ct_connect N = with_self (\<lambda>c.
     timed N (tc_connect_total (ct_timeout_config c)) (ct_connect_loop N 0) id
       (Timeout (lit ''connect total deadline exceeded'')))"

definition ct_disconnect ::
  "('h, 'w, 'y) client_net_scheme \<Rightarrow> ('h client_tl, 'w, error + unit) act" where
  "ct_disconnect N =
     await (stop_ping_task N) (\<lambda>_. await (wait_lock N) (\<lambda>_. with_self (\<lambda>c.
       case sh_stream c of
         None \<Rightarrow> await (put_stream N None) (\<lambda>_. ret (Inr ()))
       | Some stream \<Rightarrow>
           await (io (net_shutdown N stream)) (\<lambda>r.
             await (put_stream N None) (\<lambda>_.
               case r of Inl e \<Rightarrow> ret (Inl (error_from_io e)) | Inr _ \<Rightarrow> ret (Inr ()))))))"

subsection \<open>The exchange\<close>

definition ct_send_request_header ::
  "('h, 'w, 'z) net_scheme \<Rightarrow> 'h \<Rightarrow> u32 \<Rightarrow> u32 \<Rightarrow> duration \<Rightarrow> (vec, 'w, error + unit) act" where
  "ct_send_request_header N stream command data_size tmo =
     set_self vec_clear (with_self (\<lambda>buffer.
       case request_encode (request_header_new command data_size) buffer of
         Inl e \<Rightarrow> ret (Inl e)
       | Inr buf \<Rightarrow> set_self (\<lambda>_. buf) (
           await_try
             (timed N tmo (io (net_write_all N stream (vdata buf))) error_from_io
                (Timeout (lit ''Sending request header'')))
             (\<lambda>_. await_try (map_err error_from_io (io (net_flush N stream)))
             (\<lambda>_. set_self vec_clear (ret (Inr ())))))))"

definition ct_send_response_header ::
  "('h, 'w, 'z) net_scheme \<Rightarrow> 'h \<Rightarrow> byte \<Rightarrow> u32 \<Rightarrow> duration \<Rightarrow> (vec, 'w, error + unit) act" where
  "ct_send_response_header N stream status data_size tmo =
     (let is_default = (data_size = 0) in
      set_self vec_clear (with_self (\<lambda>buffer.
       case response_encode (response_header_new status data_size) buffer is_default of
         Inl e \<Rightarrow> ret (Inl e)
       | Inr buf \<Rightarrow> set_self (\<lambda>_. buf) (
           await_try
             (timed N tmo (io (net_write_all N stream (vdata buf))) error_from_io
                (Timeout (lit ''Sending response header'')))
             (\<lambda>_. await_try (map_err error_from_io (io (net_flush N stream)))
             (\<lambda>_. set_self vec_clear (ret (Inr ()))))))))"

definition ct_receive_response_header ::
  "('h, 'w, 'z) net_scheme \<Rightarrow> 'h \<Rightarrow> bool \<Rightarrow> bool \<Rightarrow> duration \<Rightarrow> usize \<Rightarrow>
     (vec, 'w, error + response_header) act" where
  "ct_receive_response_header N stream is_default command_has_answer read_header_timeout max_buffer_size =
     set_self (vec_resize (response_encoded_len is_default command_has_answer) 0) (
       await_try
         (timed N read_header_timeout (read_exact N stream) error_from_io
            (Timeout (lit ''Waiting for response header'')))
         (\<lambda>_. with_self (\<lambda>buffer.
            let decode_as_default = (is_default \<or> \<not> command_has_answer) in
            case response_decode (vdata buffer) decode_as_default max_buffer_size of
              Inl e \<Rightarrow> ret (Inl e)
            | Inr (response_header, _) \<Rightarrow> set_self vec_clear (ret (Inr response_header)))))"

definition ct_send_message ::
  "('h, 'w, 'z) net_scheme \<Rightarrow> 'h \<Rightarrow> u32 \<Rightarrow> byte list \<Rightarrow> timeout_config \<Rightarrow> bool \<Rightarrow> usize \<Rightarrow>
     (vec, 'w, error + unit) act" where
  "ct_send_message N stream command data cfg command_has_answer max_buffer_size =
     await_try (ct_send_request_header N stream command (usize_as_u32 (length data)) (tc_write cfg))
     (\<lambda>_. await_try
            (ct_receive_response_header N stream True command_has_answer (tc_read_header cfg) max_buffer_size)
     (\<lambda>ack_header.
        if rs_status ack_header \<noteq> 1 then ret (Inl (ResponseError (rs_status ack_header)))
        else
          await_try
            (timed N (tc_write cfg) (io (net_write_all N stream data)) error_from_io
               (Timeout (lit ''Sending message data'')))
            (\<lambda>_. await_try (map_err error_from_io (io (net_flush N stream)))
            (\<lambda>_. set_self vec_clear (ret (Inr ()))))))"

definition ct_receive_message ::
  "('h, 'w, 'z) net_scheme \<Rightarrow> 'h \<Rightarrow> timeout_config \<Rightarrow> bool \<Rightarrow> usize \<Rightarrow>
     (vec, 'w, error + byte list) act" where
  "ct_receive_message N stream cfg command_has_answer max_buffer_size =
     await_try
       (ct_receive_response_header N stream False command_has_answer (tc_read_header cfg) max_buffer_size)
     (\<lambda>res_header.
        let status = rs_status res_header; data_size = unat (rs_data_size res_header) in
        await_try (ct_send_response_header N stream 1 0 (tc_write cfg))
        (\<lambda>_. if status \<noteq> 1 then ret (Inl (ResponseError status))
             else if data_size > max_buffer_size then ret (Inl (BufferOverflow data_size max_buffer_size))
             else if data_size = 0 then set_self vec_clear (ret (Inr []))
             else
               set_self (vec_resize data_size 0) (
                 await_try
                   (timed N (tc_read_data cfg) (read_exact_or_closed N stream) id
                      (Timeout (lit ''Waiting for message data'')))
                   (\<lambda>_. with_self (\<lambda>buffer. ret (Inr (vdata buffer)))))))"

definition ct_exchange ::
  "('h, 'w, 'z) net_scheme \<Rightarrow> 'h \<Rightarrow> u32 \<Rightarrow> byte list \<Rightarrow> timeout_config \<Rightarrow> bool \<Rightarrow> usize \<Rightarrow>
     (vec, 'w, error + byte list) act" where
  "ct_exchange N stream command data cfg command_has_answer max_buffer_size =
     await_try (ct_send_message N stream command data cfg command_has_answer max_buffer_size)
       (\<lambda>_. ct_receive_message N stream cfg command_has_answer max_buffer_size)"

abbreviation ct_on_buffer :: "(vec, 'w, 'a) act \<Rightarrow> ('h client_tl, 'w, 'a) act" where
  "ct_on_buffer \<equiv> borrow ct_buffer (\<lambda>b c. c\<lparr>ct_buffer := b\<rparr>)"

text \<open>The part of \<open>handle_message\<close> that runs under the locks.\<close>

definition ct_handle_locked ::
  "('h, 'w, 'y) client_net_scheme \<Rightarrow> u32 \<Rightarrow> byte list \<Rightarrow> ('h client_tl, 'w, error + byte list) act" where
  "ct_handle_locked N command request_data =
     await (wait_lock N) (\<lambda>_. with_self (\<lambda>c.
       case sh_stream c of
         None \<Rightarrow> ret (Inl NotConnected)
       | Some stream \<Rightarrow>
           await (ct_on_buffer (ct_exchange N stream command request_data (ct_timeout_config c)
                    (ct_command_has_answer c) (ct_max_buffer_size c)))
             (\<lambda>result.
                case result of
                  Inl e \<Rightarrow> await (put_stream N None) (\<lambda>_. await (stop_ping_task N) (\<lambda>_. ret result))
                | Inr _ \<Rightarrow> await (touch_activity N) (\<lambda>_. ret result))))"

definition ct_handle_message ::
  "('h, 'w, 'y) client_net_scheme \<Rightarrow> u32 \<Rightarrow> byte list \<Rightarrow> ('h client_tl, 'w, error + byte list) act" where
  "ct_handle_message N command request_data = with_self (\<lambda>c.
     await_try
       (if \<not> ct_keep_alive c then ct_connect N
        else await (wait_lock N) (\<lambda>_. with_self (\<lambda>c.
               if sh_stream c = None then ct_connect N else ret (Inr ()))))
       (\<lambda>_. await (wait_lock N) (\<lambda>_. with_in_flight (ct_handle_locked N command request_data))))"

text \<open>
  \<open>handle_message_with_no_answer\<close>: the guard's \<open>drop\<close> runs when the future ends, however it ends,
  and sets the flag to \<open>true\<close>, whatever it was before.
\<close>

definition ct_no_answer_guard :: "('h client_tl, 'w, 'a) act \<Rightarrow> ('h client_tl, 'w, 'a) act" where
  "ct_no_answer_guard m = (\<lambda>dl c w. case m dl c w of (r, c', w') \<Rightarrow> (r, c'\<lparr>ct_command_has_answer := True\<rparr>, w'))"

definition ct_handle_message_with_no_answer ::
  "('h, 'w, 'y) client_net_scheme \<Rightarrow> u32 \<Rightarrow> byte list \<Rightarrow> ('h client_tl, 'w, error + byte list) act" where
  "ct_handle_message_with_no_answer N command request_data =
     set_self (\<lambda>c. c\<lparr>ct_command_has_answer := False\<rparr>) (ct_no_answer_guard (ct_handle_message N command request_data))"

text \<open>Dropping the client stops the ping task and closes the stream.\<close>

definition ct_drop ::
  "('h, 'w, 'y) client_net_scheme \<Rightarrow> ('h client_tl, 'w, unit) act" where
  "ct_drop N =
     await (effect (\<lambda>c w. case pg_task_handle (sh_ping c) of
         None \<Rightarrow> (c, w)
       | Some handle \<Rightarrow> (update_ping (\<lambda>p. p\<lparr>pg_task_handle := None\<rparr>) c, tn_abort N handle w)))
     (\<lambda>_. set_self stop_flag (put_stream N None))"

subsection \<open>What the exchange ensures\<close>

text \<open>As on the server, the buffer keeps its capacity, and a response is never longer than the limit.\<close>

definition room :: "usize \<Rightarrow> vec \<Rightarrow> bool" where
  "room limit b \<longleftrightarrow> 8 \<le> vcap b \<and> limit \<le> vcap b"

definition ct_wf :: "'h client_tl \<Rightarrow> bool" where
  "ct_wf c \<longleftrightarrow> room (ct_max_buffer_size c) (ct_buffer c)"

lemmas ct_wp = room_def vec_simps header_sizes Let_def

lemma ensures_ct_send_request_header:
  assumes "room limit b"
  shows "ensures (\<lambda>r b'. vcap b' = vcap b) (ct_send_request_header N s cmd n tmo) b"
  using assms unfolding ct_send_request_header_def
  by - (rule wp_rules | auto simp: ct_wp split: poll.split sum.split)+

lemma ensures_ct_send_response_header:
  assumes "room limit b"
  shows "ensures (\<lambda>r b'. vcap b' = vcap b) (ct_send_response_header N s status n tmo) b"
  using assms unfolding ct_send_response_header_def
  by - (rule wp_rules | auto simp: ct_wp split: poll.split sum.split)+

lemma ensures_ct_receive_response_header:
  assumes "room limit b"
  shows "ensures (\<lambda>r b'. vcap b' = vcap b \<and>
      (\<forall>hdr. r = Ready (Inr hdr) \<longrightarrow> unat (rs_data_size hdr) \<le> limit))
    (ct_receive_response_header N s d a tmo limit) b"
proof -
  have dec: "unat (rs_data_size hdr) \<le> limit"
    if "response_decode bs d' limit = Inr (hdr, rest)" for bs d' hdr rest
    using that by (auto simp: response_decode_def Let_def not_less split: list.splits if_splits)
  from assms show ?thesis unfolding ct_receive_response_header_def
    by - (rule wp_rules | auto simp: ct_wp dest: dec split: poll.split sum.split)+
qed

lemma ensures_ct_exchange:
  assumes "room limit b"
  shows "ensures (\<lambda>r b'. vcap b' = vcap b \<and> (\<forall>d. r = Ready (Inr d) \<longrightarrow> length d \<le> limit))
    (ct_exchange N s cmd data cfg a limit) b"
proof -
  have room: "room limit b'" if "vcap b' = vcap b" for b'
    using that assms by (simp add: room_def)
  have send: "ensures (\<lambda>r b'. vcap b' = vcap b) (ct_send_message N s cmd data cfg a limit) b"
    unfolding ct_send_message_def
    by (rule wp_rules ensures_mono [OF ensures_ct_send_request_header [OF assms]]
        ensures_mono [OF ensures_ct_receive_response_header [OF room]]
      | auto simp: vec_simps split: poll.split sum.split)+
  have receive: "ensures (\<lambda>r b'. vcap b' = vcap b \<and> (\<forall>d. r = Ready (Inr d) \<longrightarrow> length d \<le> limit))
      (ct_receive_message N s cfg a limit) b1" if "vcap b1 = vcap b" for b1
    using that assms unfolding ct_receive_message_def Let_def
    by (intro wp_rules ensures_mono [OF ensures_ct_receive_response_header [OF room]])
       (auto simp: vec_simps room_def vec_len_def [symmetric] split: poll.split sum.split
         intro!: wp_rules ensures_mono [OF ensures_ct_send_response_header [OF room]])
  show ?thesis
    unfolding ct_exchange_def
    by (rule ensures_await_try, rule ensures_mono [OF send]) (auto split: poll.split sum.split intro: receive)
qed

subsection \<open>The exchange on a reliable connection\<close>

lemmas ct_exec = ct_wp vec_clear_def request_encode_empty response_encode_empty
  response_decode_default response_decode_bytes [where rest = "[]", simplified]

context reliable_conn
begin

lemma runs_ct_send_request_header:
  assumes "8 \<le> vcap b" and "Q (Inr ()) (Vec [] (vcap b)) (S @ request_bytes cmd n, G)"
  shows "runs sent got Q (ct_send_request_header N h cmd n tmo) b (S, G)"
  using assms unfolding ct_send_request_header_def
  by - (rule exec_rules | simp add: ct_exec)+

lemma runs_ct_send_ack:
  assumes "8 \<le> vcap b" and "Q (Inr ()) (Vec [] (vcap b)) (S @ [1], G)"
  shows "runs sent got Q (ct_send_response_header N h 1 0 tmo) b (S, G)"
  using assms unfolding ct_send_response_header_def
  by - (rule exec_rules | simp add: ct_exec)+

lemma runs_ct_receive_ack:
  assumes "8 \<le> vcap b" "drop (length G) (peer S) = x # rest"
    and "Q (Inr \<lparr>rs_status = x, rs_data_size = 0\<rparr>) (Vec [] (vcap b)) (S, G @ [x])"
  shows "runs sent got Q (ct_receive_response_header N h True a tmo limit) b (S, G)"
  using assms unfolding ct_receive_response_header_def
  by - (rule exec_rules | simp add: ct_exec)+

lemma runs_ct_receive_header:
  assumes "8 \<le> vcap b" "drop (length G) (peer S) = response_bytes st n @ rest" "unat n \<le> limit"
    and "Q (Inr \<lparr>rs_status = st, rs_data_size = n\<rparr>) (Vec [] (vcap b)) (S, G @ response_bytes st n)"
  shows "runs sent got Q (ct_receive_response_header N h False True tmo limit) b (S, G)"
  using assms unfolding ct_receive_response_header_def
  by - (rule exec_rules | simp add: ct_exec)+

lemma runs_ct_send_message:
  assumes "8 \<le> vcap b" "length data < 2 ^ 32"
    and "drop (length G) (peer (S @ request_bytes cmd (usize_as_u32 (length data)))) = 1 # rest"
    and "Q (Inr ()) (Vec [] (vcap b)) (S @ request_bytes cmd (usize_as_u32 (length data)) @ data, G @ [1])"
  shows "runs sent got Q (ct_send_message N h cmd data cfg a limit) b (S, G)"
  using assms unfolding ct_send_message_def
  by - (rule exec_rules runs_ct_send_request_header runs_ct_receive_ack | simp add: ct_exec)+

lemma runs_ct_rejected:
  assumes "8 \<le> vcap b"
    and "drop (length G) (peer (S @ request_bytes cmd (usize_as_u32 (length data)))) = st # rest" "st \<noteq> 1"
    and "Q (Inl (ResponseError st)) (Vec [] (vcap b))
      (S @ request_bytes cmd (usize_as_u32 (length data)), G @ [st])"
  shows "runs sent got Q (ct_send_message N h cmd data cfg a limit) b (S, G)"
  using assms unfolding ct_send_message_def
  by - (rule exec_rules runs_ct_send_request_header runs_ct_receive_ack | simp add: ct_exec)+

lemma runs_ct_receive_message:
  assumes "room limit b" "drop (length G) (peer S) = response_bytes 1 n @ r1" "unat n \<le> limit"
    and "drop (length G + 5) (peer (S @ [1])) = data @ r2" "length data = unat n"
    and "\<forall>d. Q (Inr data) (Vec d (vcap b)) (S @ [1], G @ response_bytes 1 n @ data)"
  shows "runs sent got Q (ct_receive_message N h cfg True limit) b (S, G)"
  using assms unfolding ct_receive_message_def room_def
  by - (cases "unat n = 0"; (rule exec_rules runs_ct_receive_header runs_ct_send_ack | simp add: ct_exec)+)

lemma runs_ct_failed_message:
  assumes "room limit b" "drop (length G) (peer S) = response_bytes st n @ r1" "unat n \<le> limit" "st \<noteq> 1"
    and "Q (Inl (ResponseError st)) (Vec [] (vcap b)) (S @ [1], G @ response_bytes st n)"
  shows "runs sent got Q (ct_receive_message N h cfg True limit) b (S, G)"
  using assms unfolding ct_receive_message_def room_def
  by - (rule exec_rules runs_ct_receive_header runs_ct_send_ack | simp add: ct_exec)+

text \<open>A whole exchange, from the peer's three answers.\<close>

lemma runs_ct_exchange:
  assumes "room limit b" "length data < 2 ^ 32"
    and "drop (length G) (peer (S @ request_bytes cmd (usize_as_u32 (length data)))) = 1 # r1"
    and "drop (length G + 1) (peer (S @ request_bytes cmd (usize_as_u32 (length data)) @ data)) =
      response_bytes 1 n @ r2" "unat n \<le> limit"
    and "drop (length G + 6) (peer (S @ request_bytes cmd (usize_as_u32 (length data)) @ data @ [1])) = out @ r3"
      "length out = unat n"
    and "\<forall>d. Q (Inr out) (Vec d (vcap b))
      (S @ request_bytes cmd (usize_as_u32 (length data)) @ data @ [1], G @ [1] @ response_bytes 1 n @ out)"
  shows "runs sent got Q (ct_exchange N h cmd data cfg True limit) b (S, G)"
  unfolding ct_exchange_def
  apply (rule runs_await_try, rule runs_ct_send_message)
  using assms(1) apply (simp add: room_def)
  apply (rule assms(2), rule assms(3))
  apply simp
  apply (rule runs_ct_receive_message)
  using assms apply (simp_all add: room_def add.commute)
  done

lemma runs_ct_exchange_failed:
  assumes "room limit b" "length data < 2 ^ 32"
    and "drop (length G) (peer (S @ request_bytes cmd (usize_as_u32 (length data)))) = 1 # r1"
    and "drop (length G + 1) (peer (S @ request_bytes cmd (usize_as_u32 (length data)) @ data)) =
      response_bytes st n @ r2" "unat n \<le> limit" "st \<noteq> 1"
    and "Q (Inl (ResponseError st)) (Vec [] (vcap b))
      (S @ request_bytes cmd (usize_as_u32 (length data)) @ data @ [1], G @ [1] @ response_bytes st n)"
  shows "runs sent got Q (ct_exchange N h cmd data cfg True limit) b (S, G)"
  unfolding ct_exchange_def
  apply (rule runs_await_try, rule runs_ct_send_message)
  using assms(1) apply (simp add: room_def)
  apply (rule assms(2), rule assms(3))
  apply simp
  apply (rule runs_ct_failed_message)
  using assms apply (simp_all add: room_def add.commute)
  done

lemma runs_ct_exchange_rejected:
  assumes "room limit b"
    and "drop (length G) (peer (S @ request_bytes cmd (usize_as_u32 (length data)))) = st # r1" "st \<noteq> 1"
    and "Q (Inl (ResponseError st)) (Vec [] (vcap b))
      (S @ request_bytes cmd (usize_as_u32 (length data)), G @ [st])"
  shows "runs sent got Q (ct_exchange N h cmd data cfg a limit) b (S, G)"
  unfolding ct_exchange_def
  apply (rule runs_await_try, rule runs_ct_rejected [OF _ assms(2,3)])
  using assms by (simp_all add: room_def)

end

subsection \<open>Connecting keeps its deadline\<close>

definition client_timely :: "('h, 'w, 'y) client_net_scheme \<Rightarrow> bool" where
  "client_timely N \<longleftrightarrow>
     (\<forall>a. fut_timely (net_now N) (cn_tcp_connect N a)) \<and> (\<forall>d. fut_timely (net_now N) (net_sleep N d)) \<and>
     timely (net_now N) (tn_others N) \<and>
     (\<forall>h ka w. net_now N (cn_set_tcp_keepalive N h ka w) = net_now N w) \<and>
     (\<forall>h b w. net_now N (cn_set_keepalive N h b w) = net_now N w) \<and>
     (\<forall>h w. net_now N (net_close N h w) = net_now N w) \<and>
     (\<forall>w. net_now N (snd (tn_spawn N w)) = net_now N w) \<and>
     (\<forall>k w. net_now N (tn_abort N k w) = net_now N w)"

lemma timely_shared [time_rules]:
  assumes "client_timely N"
  shows "timely (net_now N) (wait_lock N :: (('h, 'z) shared_scheme, 'w, unit) act)"
    and "timely (net_now N) (put_stream N new :: (('h, 'z) shared_scheme, 'w, unit) act)"
    and "timely (net_now N) (stop_ping_task N :: (('h, 'z) shared_scheme, 'w, unit) act)"
    and "timely (net_now N) (start_ping_task N :: (('h, 'z) shared_scheme, 'w, unit) act)"
  using assms unfolding client_timely_def wait_lock_def put_stream_def stop_ping_task_def start_ping_task_def
  by (auto intro!: time_rules split: option.split prod.split)
     (metis snd_conv)

lemma timely_ct_connected [time_rules]:
  assumes "client_timely N"
  shows "timely (net_now N) (ct_connected N stream)"
proof -
  from assms have "timely (net_now N) (ct_configure_socket N stream)"
    unfolding ct_configure_socket_def client_timely_def
    by (intro timely_effect) (auto split: option.split)
  then show ?thesis
    unfolding ct_connected_def by (intro time_rules) (auto simp: assms intro: time_rules timely_shared [OF assms])
qed

lemma timely_ct_connect_loop:
  assumes "client_timely N"
  shows "timely (net_now N) (ct_connect_loop N tries)"
  using assms
proof (induction N tries rule: ct_connect_loop.induct)
  case (1 N tries)
  have net: "fut_timely (net_now N) (cn_tcp_connect N a)" "fut_timely (net_now N) (net_sleep N d)" for a d
    using "1.prems" unfolding client_timely_def by blast+
  show ?case
  proof (cases "tries < DEFAULT_MAX_CONNECT_RETRIES")
    case True
    then have "timely (net_now N) (ct_connect_loop N (Suc tries))" using "1.IH" "1.prems" by blast
    then show ?thesis
      using True net "1.prems"
      by (subst ct_connect_loop.simps)
         (auto split: sum.split intro!: time_rules)
  next
    case False
    then show ?thesis
      by (subst ct_connect_loop.simps) (auto intro!: time_rules timely_shared [OF "1.prems"])
  qed
qed

subsection \<open>Connecting to an address that refuses\<close>

text \<open>
  With every attempt refused at once, and time enough for the pauses, the loop tries ten times and
  reports a failure only when there is no stream. A stream of an earlier request counts as success.
\<close>

definition refuses :: "('h, pipe, 'y) client_net_scheme \<Rightarrow> bool" where
  "refuses N \<longleftrightarrow> undisturbed N \<and> net_now N = pw_now \<and> net_sleep N = pipe_sleep \<and>
     (\<forall>a dl w. cn_tcp_connect N a dl w = (Ready (Inl (OsError 111)), w))"

definition after_pauses :: "nat \<Rightarrow> pipe \<Rightarrow> pipe" where
  "after_pauses n w = w\<lparr>pw_now := pw_now w + n * DEFAULT_CONNECT_RETRY_DELAY\<rparr>"

lemma ct_connect_loop_refused:
  assumes "refuses N" and "tries \<le> DEFAULT_MAX_CONNECT_RETRIES"
    and "pw_now w + (DEFAULT_MAX_CONNECT_RETRIES - tries) * DEFAULT_CONNECT_RETRY_DELAY \<le> t"
  shows "ct_connect_loop N tries (Some t) c w =
    (Ready (if sh_stream c = None then Inl (Msg (lit ''Connection error, max retries reached'')) else Inr ()),
     c, after_pauses (DEFAULT_MAX_CONNECT_RETRIES - tries) w)"
  using assms
proof (induction N tries arbitrary: w rule: ct_connect_loop.induct)
  case (1 N tries)
  have N: "wait_lock N = ret ()" "net_now N = pw_now" "net_sleep N = pipe_sleep"
    "\<And>a dl w. cn_tcp_connect N a dl w = (Ready (Inl (OsError 111)), w)"
    using "1.prems"(1) by (simp_all add: refuses_def wait_lock_undisturbed)
  show ?case
  proof (cases "tries < DEFAULT_MAX_CONNECT_RETRIES")
    case False
    then have "tries = DEFAULT_MAX_CONNECT_RETRIES" using "1.prems"(2) by simp
    then show ?thesis
      by (subst ct_connect_loop.simps) (simp add: N act_simps error_from_str_def after_pauses_def)
  next
    case True
    let ?k = "DEFAULT_MAX_CONNECT_RETRIES - Suc tries"
    from True have k: "DEFAULT_MAX_CONNECT_RETRIES - tries = Suc ?k" by simp
    let ?w = "w\<lparr>pw_now := pw_now w + DEFAULT_CONNECT_RETRY_DELAY\<rparr>"
    from "1.prems"(3) have t: "pw_now ?w + ?k * DEFAULT_CONNECT_RETRY_DELAY \<le> t"
      unfolding k by simp
    have "ct_connect_loop N (Suc tries) (Some t) c ?w =
      (Ready (if sh_stream c = None then Inl (Msg (lit ''Connection error, max retries reached'')) else Inr ()),
       c, after_pauses ?k ?w)"
      using "1.IH" "1.prems"(1) True t by (auto simp: Suc_le_eq)
    moreover have "\<not> outer_first (Some t) (pw_now w + DEFAULT_CONNECT_RETRY_DELAY)"
      using t by simp
    ultimately show ?thesis
      using True unfolding k
      by (subst ct_connect_loop.simps)
         (simp add: N act_simps timeout_def Let_def pipe_sleep_def after_pauses_def ac_simps)
  qed
qed

lemma ct_connect_refused:
  assumes "refuses N" and "10 * DEFAULT_CONNECT_RETRY_DELAY \<le> tc_connect_total (ct_timeout_config c)"
  shows "ct_connect N None c w =
    (Ready (if sh_stream c = None then Inl (Msg (lit ''Connection error, max retries reached'')) else Inr ()),
     c, after_pauses 10 w)"
proof -
  have retries: "DEFAULT_MAX_CONNECT_RETRIES = 10" by (simp add: DEFAULT_MAX_CONNECT_RETRIES_def)
  have now: "net_now N = pw_now" using assms(1) by (simp add: refuses_def)
  from assms(2) show ?thesis
    unfolding ct_connect_def act_unfold
    using ct_connect_loop_refused [OF assms(1), of 0 w "pw_now w + tc_connect_total (ct_timeout_config c)" c]
    by (simp add: timed_unfold Let_def now retries)
qed

subsection \<open>After an exchange\<close>

text \<open>
  A failed exchange, whatever failed, leaves no stream behind and tells the ping task to stop; a
  successful one keeps the stream and returns no more than the limit.
\<close>

lemma ensures_wait_lock: "(\<And>r st pg. Q r (c\<lparr>sh_stream := st, sh_ping := pg\<rparr>)) \<Longrightarrow>
    ensures Q (wait_lock N) c"
  unfolding wait_lock_def by (rule ensures_borrow, rule ensures_any)

lemma ensures_put_stream [wp_rules]: "Q (Ready ()) (c\<lparr>sh_stream := new\<rparr>) \<Longrightarrow> ensures Q (put_stream N new) c"
  unfolding put_stream_def by (rule ensures_effect) simp

lemma ensures_stop_ping_task [wp_rules]:
  assumes "Q (Ready ()) (update_ping (\<lambda>p. p\<lparr>pg_task_handle := None, pg_should_stop := True\<rparr>) c)"
  shows "ensures Q (stop_ping_task N) c"
proof -
  have [simp]: "sh_ping c\<lparr>pg_should_stop := True\<rparr> = sh_ping c\<lparr>pg_task_handle := None, pg_should_stop := True\<rparr>"
    if "pg_task_handle (sh_ping c) = None" using that by simp
  have [simp]: "p\<lparr>pg_should_stop := True, pg_task_handle := None\<rparr> =
      p\<lparr>pg_task_handle := None, pg_should_stop := True\<rparr>" for p :: ping_state
    by (cases p) simp
  show ?thesis
    using assms unfolding stop_ping_task_def
    by (intro ensures_set_self ensures_effect) (simp add: update_ping_def split: option.split)
qed

lemma ensures_touch_activity [wp_rules]:
  "(\<And>t. Q (Ready ()) (update_ping (\<lambda>p. p\<lparr>pg_last_activity := t\<rparr>) c)) \<Longrightarrow> ensures Q (touch_activity N) c"
  unfolding touch_activity_def by (rule ensures_effect) simp

lemma ensures_ct_handle_locked:
  assumes "ct_wf c"
  shows "ensures (\<lambda>r c'. ct_wf c' \<and> ct_max_buffer_size c' = ct_max_buffer_size c \<and>
      (\<forall>e. r = Ready (Inl e) \<longrightarrow> sh_stream c' = None \<and> (e = NotConnected \<or> pg_should_stop (sh_ping c'))) \<and>
      (\<forall>d. r = Ready (Inr d) \<longrightarrow> sh_stream c' \<noteq> None \<and> length d \<le> ct_max_buffer_size c))
    (ct_handle_locked N cmd data) c"
  using assms unfolding ct_handle_locked_def
  by (intro ensures_await ensures_wait_lock)
     (auto simp: ct_wf_def room_def update_ping_def split: poll.split option.split sum.split
       intro!: wp_rules ensures_mono [OF ensures_ct_exchange])

subsection \<open>A message over a kept connection\<close>

lemma runs_with_in_flight [exec_rules]:
  assumes "runs sent got (\<lambda>r s' l'. Q r (set_in_flight False s') l') m (set_in_flight True c) l"
  shows "runs sent got Q (with_in_flight m) c l"
  by (rule runs_lift [OF assms, where g = "\<lambda>dl w. dl"]) (simp add: with_in_flight_def)

lemma runs_touch_activity [exec_rules]:
  "(\<And>t. Q () (update_ping (\<lambda>p. p\<lparr>pg_last_activity := t\<rparr>) c) l) \<Longrightarrow> runs sent got Q (touch_activity N) c l"
  unfolding touch_activity_def by (rule runs_effect) simp_all

text \<open>A client between two messages of a kept connection, waiting for answers.\<close>

definition client_ready :: "'h \<Rightarrow> 'h client_tl \<Rightarrow> bool" where
  "client_ready h c \<longleftrightarrow> ct_wf c \<and> ct_keep_alive c \<and> sh_stream c = Some h \<and> ct_command_has_answer c"

lemma runs_ct_handle_message:
  assumes "undisturbed N" "client_ready h c"
    and "runs sent got (\<lambda>r b l'. (\<exists>d. r = Inr d) \<and> vcap b = vcap (ct_buffer c) \<and>
          (\<forall>c'. client_ready h c' \<longrightarrow> ct_max_buffer_size c' = ct_max_buffer_size c \<longrightarrow> Q r c' l'))
      (ct_exchange N h cmd data (ct_timeout_config c) True (ct_max_buffer_size c)) (ct_buffer c) l"
  shows "runs sent got Q (ct_handle_message N cmd data) c l"
  using assms(1,2) unfolding ct_handle_message_def ct_handle_locked_def
  by (auto simp: wait_lock_undisturbed set_in_flight_def update_ping_def client_ready_def ct_wf_def room_def
      split: sum.split intro!: exec_rules runs_mono [OF assms(3)])

lemma runs_ct_handle_message_failed:
  assumes "undisturbed N" "client_ready h c"
    and "\<And>w. sent (net_close N h w) = sent w" "\<And>w. got (net_close N h w) = got w"
    and "\<And>k w. sent (tn_abort N k w) = sent w" "\<And>k w. got (tn_abort N k w) = got w"
    and "runs sent got (\<lambda>r b l'. (\<exists>e. r = Inl e) \<and> (\<forall>c'. sh_stream c' = None \<longrightarrow> Q r c' l'))
      (ct_exchange N h cmd data (ct_timeout_config c) True (ct_max_buffer_size c)) (ct_buffer c) l"
  shows "runs sent got Q (ct_handle_message N cmd data) c l"
  using assms(1-6) unfolding ct_handle_message_def ct_handle_locked_def put_stream_def stop_ping_task_def
  by (auto simp: wait_lock_undisturbed set_in_flight_def update_ping_def client_ready_def
      split: sum.split option.split intro!: exec_rules runs_mono [OF assms(7)])

subsection \<open>A client on the concrete network\<close>

text \<open>The pipe as a client sees it, on a host where new connections are refused and nothing else runs.\<close>

definition pipe_client ::
  "nat \<Rightarrow> (byte list \<Rightarrow> byte list) \<Rightarrow> (byte list \<Rightarrow> bool) \<Rightarrow> (unit, pipe) client_net" where
  "pipe_client k peer closed =
     \<lparr>net_now = pw_now, net_read = (\<lambda>h. pipe_read k peer closed),
      net_write_all = (\<lambda>h bs dl w. (Ready (Inr ()), w\<lparr>pw_sent := pw_sent w @ bs\<rparr>)),
      net_flush = (\<lambda>h dl w. (Ready (Inr ()), w)), net_shutdown = (\<lambda>h dl w. (Ready (Inr ()), w)),
      net_close = (\<lambda>h w. w), net_sleep = pipe_sleep,
      tn_spawn = (\<lambda>w. (0, w)), tn_abort = (\<lambda>k w. w), tn_others = ret (),
      cn_tcp_connect = (\<lambda>a dl w. (Ready (Inl (OsError 111)), w)),
      cn_set_tcp_keepalive = (\<lambda>h ka w. w), cn_set_keepalive = (\<lambda>h b w. w)\<rparr>"

lemma pipe_client_reliable: "reliable_conn (pipe_client k peer closed) () peer pw_sent pw_got"
  by (rule reliable_conn_cong [OF pipe.reliable_conn_axioms [where k = k and peer = peer and closed = closed]])
     (simp_all add: pipe_client_def pipe_net_def)

lemma pipe_client_quiet: "quiet_conn (pipe_client k peer (\<lambda>_. False)) () peer pw_sent pw_got"
  by (rule quiet_conn_cong [OF pipe_quiet.quiet_conn_axioms [where k = k and peer = peer]])
     (simp_all add: pipe_client_def pipe_net_def)

lemma pipe_client_undisturbed: "undisturbed (pipe_client k peer closed)"
  by (simp add: undisturbed_def pipe_client_def)

lemma pipe_client_refuses: "refuses (pipe_client k peer closed)"
  by (simp add: refuses_def pipe_client_undisturbed) (simp add: pipe_client_def)

lemma pipe_client_timely: "client_timely (pipe_client k peer closed)"
  by (auto simp: client_timely_def pipe_client_def fut_timely_def pipe_sleep_def Let_def timely_ret split: if_splits)

lemma ct_new_wf: "ct_wf (ct_new now address)"
  by (simp add: ct_wf_def ct_new_def room_def Let_def vec_with_capacity_def DEFAULT_MAX_BUFFER_SIZE_def)

subsection \<open>Properties of the plain client\<close>

text \<open>C11: after a message. Whatever the network does, an exchange that fails leaves no stream behind,
  so that a half-finished exchange is never continued, and tells the ping task to stop; one that
  succeeds keeps the stream and returns no more than the limit. The buffer stays sound either way.\<close>

theorem failed_message_drops_connection:
  assumes "ct_wf c"
  shows "ensures (\<lambda>r c'. ct_wf c' \<and> ct_max_buffer_size c' = ct_max_buffer_size c \<and>
      (case r of
         Ready (Inl e) \<Rightarrow> sh_stream c' = None \<and> (e = NotConnected \<or> pg_should_stop (sh_ping c'))
       | Ready (Inr d) \<Rightarrow> sh_stream c' \<noteq> None \<and> length d \<le> ct_max_buffer_size c
       | Pending \<Rightarrow> True))
    (ct_handle_locked N cmd data) c"
  by (rule ensures_mono [OF ensures_ct_handle_locked [OF assms]]) (auto split: poll.split sum.split)

theorem failed_message_drops_connection_witness:
  "case ct_handle_locked (pipe_client 0 (\<lambda>_. [7]) (\<lambda>_. True)) 5 [1] None ((ct_new 0 ''a'')\<lparr>sh_stream := Some ()\<rparr>) pipe_start
   of (r, c', w') \<Rightarrow> (\<forall>e. r = Ready (Inl e) \<longrightarrow> sh_stream c' = None)"
proof -
  have wf: "ct_wf ((ct_new 0 ''a'')\<lparr>sh_stream := Some ()\<rparr>)"
    using ct_new_wf [of 0 "''a''"] by (simp add: ct_wf_def)
  let ?c = "(ct_new 0 ''a'')\<lparr>sh_stream := Some ()\<rparr>"
  obtain r c' w' where run: "ct_handle_locked (pipe_client 0 (\<lambda>_. [7]) (\<lambda>_. True)) 5 [1] None ?c pipe_start = (r, c', w')"
    by (cases "ct_handle_locked (pipe_client 0 (\<lambda>_. [7]) (\<lambda>_. True)) 5 [1] None ?c pipe_start")
  from ensuresD [OF failed_message_drops_connection [OF wf] run] run show ?thesis by auto
qed

text \<open>\<open>connect\<close> is over by its overall deadline. When the runtime keeps its deadlines, a \<open>connect\<close>
  with nothing around it always returns, at the latest \<open>connect_total\<close> after it began, whatever the
  address does and however many attempts were made.\<close>

theorem connect_keeps_its_deadline:
  assumes "client_timely N" and "ct_connect N None c w = (r, c', w')"
  shows "r \<noteq> Pending \<and> net_now N w' \<le> net_now N w + tc_connect_total (ct_timeout_config c)"
proof -
  have "timed N (tc_connect_total (ct_timeout_config c)) (ct_connect_loop N 0) id
      (Timeout (lit ''connect total deadline exceeded'')) None c w = (r, c', w')"
    using assms(2) by (simp add: ct_connect_def act_simps)
  then show ?thesis by (rule timed_returns [OF timely_ct_connect_loop [OF assms(1)]])
qed

theorem connect_keeps_its_deadline_witness:
  "case ct_connect (pipe_client 0 (\<lambda>_. []) (\<lambda>_. True)) None (ct_new 0 ''a'') pipe_start of
     (r, c', w') \<Rightarrow> r \<noteq> Pending \<and> pw_now w' \<le> 30 * 1000000000"
proof -
  obtain r c' w' where run: "ct_connect (pipe_client 0 (\<lambda>_. []) (\<lambda>_. True)) None (ct_new 0 ''a'') pipe_start = (r, c', w')"
    by (cases "ct_connect (pipe_client 0 (\<lambda>_. []) (\<lambda>_. True)) None (ct_new 0 ''a'') pipe_start")
  from connect_keeps_its_deadline [OF pipe_client_timely run] run show ?thesis
    by (simp add: pipe_client_def ct_new_def Let_def default_timeout_config_def timeout_constants)
qed

text \<open>C17: against an address that refuses every attempt, \<open>connect\<close> makes ten attempts with a second's
  pause after each and then fails, but only if there is no stream. A stream left over from an
  earlier request makes it report success although nothing was connected, and with connection reuse
  switched off, where every message is to open a new connection, the message is then sent over the
  old stream.\<close>

theorem refused_connect_reuses_old_stream:
  assumes "refuses N" and "10 * DEFAULT_CONNECT_RETRY_DELAY \<le> tc_connect_total (ct_timeout_config c)"
    and "\<not> ct_keep_alive c"
  shows "ct_connect N None c w =
      (Ready (if sh_stream c = None then Inl (Msg (lit ''Connection error, max retries reached'')) else Inr ()),
       c, w\<lparr>pw_now := pw_now w + 10 * DEFAULT_CONNECT_RETRY_DELAY\<rparr>) \<and>
    ct_handle_message N cmd data None c w =
      (if sh_stream c = None then
         (Ready (Inl (Msg (lit ''Connection error, max retries reached''))),
          c, w\<lparr>pw_now := pw_now w + 10 * DEFAULT_CONNECT_RETRY_DELAY\<rparr>)
       else with_in_flight (ct_handle_locked N cmd data) None c
              (w\<lparr>pw_now := pw_now w + 10 * DEFAULT_CONNECT_RETRY_DELAY\<rparr>))"
proof -
  have conn: "ct_connect N None c w =
      (Ready (if sh_stream c = None then Inl (Msg (lit ''Connection error, max retries reached'')) else Inr ()),
       c, w\<lparr>pw_now := pw_now w + 10 * DEFAULT_CONNECT_RETRY_DELAY\<rparr>)"
    using ct_connect_refused [OF assms(1,2)] by (simp add: after_pauses_def)
  have "undisturbed N" using assms(1) by (simp add: refuses_def)
  note lock = wait_lock_undisturbed [OF this]
  show ?thesis
    using conn assms(3) by (simp add: ct_handle_message_def act_simps lock)
qed

theorem refused_connect_reuses_old_stream_witness:
  "fst (ct_connect (pipe_client 0 (\<lambda>_. []) (\<lambda>_. True)) None ((ct_new 0 ''a'')\<lparr>sh_stream := Some ()\<rparr>) pipe_start) =
     Ready (Inr ())"
  using refused_connect_reuses_old_stream [OF pipe_client_refuses [where k = 0 and peer = "\<lambda>_. []"
        and closed = "\<lambda>_. True"], where c = "(ct_new 0 ''a'')\<lparr>sh_stream := Some ()\<rparr>" and w = pipe_start]
  by (simp add: ct_new_def Let_def default_timeout_config_def timeout_constants)

text \<open>\<open>handle_message_with_no_answer\<close> does not restore the answer mode the client had: its guard
  switches answers on, however the call ended, so a client set to the no-answer mode is out of it.\<close>

theorem no_answer_mode_is_reset:
  "case ct_handle_message_with_no_answer N cmd data dl c w of (r, c', w') \<Rightarrow> ct_command_has_answer c'"
  by (simp add: ct_handle_message_with_no_answer_def ct_no_answer_guard_def act_simps split: prod.split)

text \<open>A request the server rejects in its acknowledgement is a response error with that status, and
  its payload is not sent: nothing but the eight bytes of the header has gone out.\<close>

theorem rejected_request_withholds_payload:
  assumes "reliable_conn N h peer sent got" and "room limit b"
    and "drop (length (got w)) (peer (sent w @ request_bytes cmd (usize_as_u32 (length data)))) = st # rest"
    and "st \<noteq> 1"
  shows "\<exists>b' w'. ct_exchange N h cmd data cfg has_answer limit dl b w = (Ready (Inl (ResponseError st)), b', w') \<and>
    sent w' = sent w @ request_bytes cmd (usize_as_u32 (length data)) \<and> got w' = got w @ [st]"
proof -
  have "runs sent got (\<lambda>r b' l'. r = Inl (ResponseError st) \<and>
      l' = (sent w @ request_bytes cmd (usize_as_u32 (length data)), got w @ [st]))
    (ct_exchange N h cmd data cfg has_answer limit) b (sent w, got w)"
    by (rule reliable_conn.runs_ct_exchange_rejected [OF assms(1-4)]) simp
  then show ?thesis
    by (rule runsE [where dl = dl]) auto
qed

theorem rejected_request_withholds_payload_witness:
  "\<exists>b' w'. ct_exchange (pipe_client 0 (\<lambda>_. [7]) (\<lambda>_. True)) () 5 [1, 2] default_timeout_config True 100 None
      (Vec [] 100) pipe_start = (Ready (Inl (ResponseError 7)), b', w') \<and>
    pw_sent w' = [0, 0, 0, 5, 0, 0, 0, 2] \<and> pw_got w' = [7]"
  using rejected_request_withholds_payload [OF pipe_client_reliable [where k = 0 and peer = "\<lambda>_. [7]"
        and closed = "\<lambda>_. True"], where limit = 100 and b = "Vec [] 100" and w = pipe_start and cmd = 5
      and data = "[1, 2]" and st = 7 and rest = "[]" and cfg = default_timeout_config and has_answer = True and dl = None]
  by (simp add: room_def request_bytes_def to_be_bytes_def)

end
