(* ===== verification/Client_TLS.thy ===== *)
theory Client_TLS
  imports Client_TL
begin

section \<open>The TLS client (client_tls.rs)\<close>

text \<open>
  \<open>ClientTLS\<close> repeats \<open>ClientTL\<close> over a TLS stream: connecting first refuses the placeholder domain,
  then builds a connector and shakes hands, and the functions of the exchange return boxed errors,
  which \<open>handle_message\<close> turns into \<open>Error::Other\<close>. Building a connector and the handshake are the
  TLS stack, parameters here; \<open>'k\<close> is the type of connectors.
\<close>

record 'h client_tls = "'h shared" +
  cs_accept_invalid_certs :: bool
  cs_address :: string
  cs_domain :: string
  cs_command_has_answer :: bool
  cs_buffer :: vec
  cs_max_buffer_size :: usize
  cs_timeout_config :: timeout_config
  cs_keep_alive :: bool

record ('h, 'k, 'w) tls_client_net = "('h, 'w) client_net" +
  cn_tls_build :: "bool \<Rightarrow> tls_error + 'k"
  cn_tls_connect :: "'k \<Rightarrow> string \<Rightarrow> 'h \<Rightarrow> ('w, tls_error + 'h) fut"

definition PLACEHOLDER_DOMAIN :: string where
  "PLACEHOLDER_DOMAIN = ''example.org''"

definition cs_new :: "nat \<Rightarrow> string \<Rightarrow> 'h client_tls" where
  "cs_new now address =
     (let cfg = default_timeout_config;
          ping_config = \<lparr>pc_interval = tc_ping_interval cfg, pc_enabled = tc_ping_interval cfg > 0\<rparr>
      in \<lparr>sh_stream = None, sh_ping = ping_state_new now ping_config default_timeout_config,
          cs_accept_invalid_certs = False, cs_address = address, cs_domain = PLACEHOLDER_DOMAIN,
          cs_command_has_answer = True, cs_buffer = vec_with_capacity DEFAULT_MAX_BUFFER_SIZE,
          cs_max_buffer_size = DEFAULT_MAX_BUFFER_SIZE, cs_timeout_config = cfg, cs_keep_alive = False\<rparr>)"

definition cs_set_max_buffer_size ::
  "(nat \<Rightarrow> bool) \<Rightarrow> usize \<Rightarrow> 'h client_tls \<Rightarrow> (error + unit) \<times> 'h client_tls" where
  "cs_set_max_buffer_size alloc buffer_size c =
     (let limit = (if buffer_size > 0 then buffer_size else DEFAULT_MAX_BUFFER_SIZE);
          additional = limit - vec_len (cs_buffer c)
      in case vec_try_reserve alloc additional (cs_buffer c) of
           Inl e \<Rightarrow> (Inl (Config (Fmt ''max_buffer_size {limit} cannot be reserved on this system: {e}'' [limit])), c)
         | Inr buf \<Rightarrow> (Inr (), c\<lparr>cs_buffer := buf, cs_max_buffer_size := limit\<rparr>))"

definition cs_set_command_has_answer :: "bool \<Rightarrow> 'h client_tls \<Rightarrow> 'h client_tls" where
  "cs_set_command_has_answer b c = c\<lparr>cs_command_has_answer := b\<rparr>"

definition cs_danger_accept_invalid_certs :: "bool \<Rightarrow> 'h client_tls \<Rightarrow> 'h client_tls" where
  "cs_danger_accept_invalid_certs b c = c\<lparr>cs_accept_invalid_certs := b\<rparr>"

definition cs_set_domain :: "string \<Rightarrow> 'h client_tls \<Rightarrow> 'h client_tls" where
  "cs_set_domain domain c = c\<lparr>cs_domain := domain\<rparr>"

definition cs_set_keep_alive ::
  "('h, 'k, 'w, 'y) tls_client_net_scheme \<Rightarrow> bool \<Rightarrow> ('h client_tls, 'w, unit) act" where
  "cs_set_keep_alive N enabled = with_self (\<lambda>c.
     await (if \<not> enabled \<and> cs_keep_alive c then
              await (stop_ping_task N) (\<lambda>_. await (wait_lock N) (\<lambda>_. put_stream N None))
            else ret ())
       (\<lambda>_. set_self (\<lambda>c. c\<lparr>cs_keep_alive := enabled\<rparr>) (await (wait_lock N) (\<lambda>_.
          set_self (update_ping (\<lambda>p. p\<lparr>pg_config :=
              (pg_config p)\<lparr>pc_enabled := enabled \<and> pc_interval (pg_config p) > 0\<rparr>\<rparr>))
            (ret ())))))"

definition cs_set_timeout_config ::
  "('h, 'k, 'w, 'y) tls_client_net_scheme \<Rightarrow> timeout_config \<Rightarrow> ('h client_tls, 'w, error + unit) act" where
  "cs_set_timeout_config N timeout_config = with_self (\<lambda>c.
     let config = with_ping_interval timeout_config (tc_ping_interval timeout_config) in
     await_try (ret (validate config)) (\<lambda>_.
       let ping_enabled = cs_keep_alive c \<and> tc_ping_interval config > 0 in
       await (wait_lock N) (\<lambda>_.
       set_self (update_ping (\<lambda>p. p\<lparr>pg_config :=
           \<lparr>pc_interval = tc_ping_interval config, pc_enabled = ping_enabled\<rparr>\<rparr>)) (
       await (wait_lock N) (\<lambda>_.
       set_self (update_ping (\<lambda>p. p\<lparr>pg_timeout_config := config\<rparr>)) (
       set_self (\<lambda>c. c\<lparr>cs_timeout_config := config\<rparr>) (ret (Inr ()))))))))"

subsection \<open>Connecting\<close>

definition cs_configure_socket ::
  "('h, 'k, 'w, 'y) tls_client_net_scheme \<Rightarrow> 'h \<Rightarrow> ('h client_tls, 'w, unit) act" where
  "cs_configure_socket N stream = effect (\<lambda>c w. (c,
     if cs_keep_alive c then
       (case tc_keep_alive (cs_timeout_config c) of
          Some ka \<Rightarrow> cn_set_tcp_keepalive N stream ka w
        | None \<Rightarrow> cn_set_keepalive N stream True w)
     else w))"

text \<open>
  The branch of a connected socket: configure it, shake hands (a failure ends \<open>connect\<close> at once),
  store it, restart the ping task.
\<close>

definition cs_connected ::
  "('h, 'k, 'w, 'y) tls_client_net_scheme \<Rightarrow> 'k \<Rightarrow> 'h \<Rightarrow> ('h client_tls, 'w, error + unit) act" where
  "cs_connected N connector stream =
     await (cs_configure_socket N stream) (\<lambda>_. with_self (\<lambda>c.
     await_try (map_err error_from_tls (io (cn_tls_connect N connector (cs_domain c) stream))) (\<lambda>tls_stream.
     await (wait_lock N) (\<lambda>_.
     await (put_stream N (Some tls_stream)) (\<lambda>_.
     await (stop_ping_task N) (\<lambda>_. with_self (\<lambda>c.
     await (if cs_keep_alive c \<and> is_enabled c then start_ping_task N else ret ())
       (\<lambda>_. ret (Inr ())))))))))"

function cs_connect_loop ::
  "('h, 'k, 'w, 'y) tls_client_net_scheme \<Rightarrow> 'k \<Rightarrow> nat \<Rightarrow> ('h client_tls, 'w, error + unit) act" where
  "cs_connect_loop N connector tries =
     (if tries < DEFAULT_MAX_CONNECT_RETRIES then with_self (\<lambda>c.
        await (timeout N (tc_connect (cs_timeout_config c)) (io (cn_tcp_connect N (cs_address c)))) (\<lambda>r.
          case r of
            Inr (Inr stream) \<Rightarrow> cs_connected N connector stream
          | _ \<Rightarrow> await (io (net_sleep N DEFAULT_CONNECT_RETRY_DELAY)) (\<lambda>_.
                   cs_connect_loop N connector (Suc tries))))
      else
        await (wait_lock N) (\<lambda>_. with_self (\<lambda>c.
          if sh_stream c = None \<and> tries \<ge> DEFAULT_MAX_CONNECT_RETRIES then
            ret (Inl (error_from_str (lit ''Connection error, max retries reached'')))
          else ret (Inr ()))))"
  by pat_completeness auto
termination
  by (relation "measure (\<lambda>(N, connector, tries). DEFAULT_MAX_CONNECT_RETRIES - tries)") auto

declare cs_connect_loop.simps [simp del]

definition cs_connect ::
  "('h, 'k, 'w, 'y) tls_client_net_scheme \<Rightarrow> ('h client_tls, 'w, error + unit) act" where
  "cs_connect N = with_self (\<lambda>c.
     if cs_domain c = PLACEHOLDER_DOMAIN \<and> \<not> cs_accept_invalid_certs c then
       ret (Inl (Config (lit ''TLS domain not set: call set_domain() before connecting'')))
     else
       timed N (tc_connect_total (cs_timeout_config c))
         (case cn_tls_build N (cs_accept_invalid_certs c) of
            Inl e \<Rightarrow> ret (Inl (error_from_tls e))
          | Inr connector \<Rightarrow> cs_connect_loop N connector 0)
         id (Timeout (lit ''connect total deadline exceeded'')))"

definition cs_disconnect ::
  "('h, 'k, 'w, 'y) tls_client_net_scheme \<Rightarrow> ('h client_tls, 'w, error + unit) act" where
  "cs_disconnect N =
     await (stop_ping_task N) (\<lambda>_. await (wait_lock N) (\<lambda>_. with_self (\<lambda>c.
       case sh_stream c of
         None \<Rightarrow> await (put_stream N None) (\<lambda>_. ret (Inr ()))
       | Some stream \<Rightarrow>
           await (io (net_shutdown N stream)) (\<lambda>r.
             await (put_stream N None) (\<lambda>_.
               case r of Inl e \<Rightarrow> ret (Inl (error_from_io e)) | Inr _ \<Rightarrow> ret (Inr ()))))))"

subsection \<open>The exchange\<close>

definition cs_send_request_header ::
  "('h, 'w, 'z) net_scheme \<Rightarrow> 'h \<Rightarrow> u32 \<Rightarrow> u32 \<Rightarrow> duration \<Rightarrow> (vec, 'w, box_error + unit) act" where
  "cs_send_request_header N stream command data_size tmo =
     set_self vec_clear (with_self (\<lambda>buffer.
       case request_encode (request_header_new command data_size) buffer of
         Inl e \<Rightarrow> ret (Inl (BoxError e))
       | Inr buf \<Rightarrow> set_self (\<lambda>_. buf) (
           await_try
             (timed N tmo (io (net_write_all N stream (vdata buf))) BoxIo
                (BoxStr (lit ''Timeout sending request header'')))
             (\<lambda>_. await_try (map_err BoxIo (io (net_flush N stream)))
             (\<lambda>_. set_self vec_clear (ret (Inr ())))))))"

definition cs_send_response_header ::
  "('h, 'w, 'z) net_scheme \<Rightarrow> 'h \<Rightarrow> byte \<Rightarrow> u32 \<Rightarrow> duration \<Rightarrow> (vec, 'w, box_error + unit) act" where
  "cs_send_response_header N stream status data_size tmo =
     (let is_default = (data_size = 0) in
      set_self vec_clear (with_self (\<lambda>buffer.
       case response_encode (response_header_new status data_size) buffer is_default of
         Inl e \<Rightarrow> ret (Inl (BoxError e))
       | Inr buf \<Rightarrow> set_self (\<lambda>_. buf) (
           await_try
             (timed N tmo (io (net_write_all N stream (vdata buf))) BoxIo
                (BoxStr (lit ''Timeout sending response header'')))
             (\<lambda>_. await_try (map_err BoxIo (io (net_flush N stream)))
             (\<lambda>_. set_self vec_clear (ret (Inr ()))))))))"

definition cs_receive_response_header ::
  "('h, 'w, 'z) net_scheme \<Rightarrow> 'h \<Rightarrow> bool \<Rightarrow> bool \<Rightarrow> duration \<Rightarrow> usize \<Rightarrow>
     (vec, 'w, box_error + response_header) act" where
  "cs_receive_response_header N stream is_default command_has_answer read_header_timeout max_buffer_size =
     set_self (vec_resize (response_encoded_len is_default command_has_answer) 0) (
       await_try
         (timed N read_header_timeout (read_exact N stream) BoxIo
            (BoxStr (lit ''Timeout waiting for response header'')))
         (\<lambda>_. with_self (\<lambda>buffer.
            let decode_as_default = (is_default \<or> \<not> command_has_answer) in
            case response_decode (vdata buffer) decode_as_default max_buffer_size of
              Inl e \<Rightarrow> ret (Inl (BoxError e))
            | Inr (response_header, _) \<Rightarrow> set_self vec_clear (ret (Inr response_header)))))"

definition cs_send_message ::
  "('h, 'w, 'z) net_scheme \<Rightarrow> 'h \<Rightarrow> u32 \<Rightarrow> byte list \<Rightarrow> timeout_config \<Rightarrow> bool \<Rightarrow> usize \<Rightarrow>
     (vec, 'w, box_error + unit) act" where
  "cs_send_message N stream command data cfg command_has_answer max_buffer_size =
     await_try (cs_send_request_header N stream command (usize_as_u32 (length data)) (tc_write cfg))
     (\<lambda>_. await_try
            (cs_receive_response_header N stream True command_has_answer (tc_read_header cfg) max_buffer_size)
     (\<lambda>ack_header.
        if rs_status ack_header \<noteq> 1 then ret (Inl (BoxStr (Fmt ''Request rejected by server: status {}'' [unat (rs_status ack_header)])))
        else
          await_try
            (timed N (tc_write cfg) (io (net_write_all N stream data)) BoxIo
               (BoxStr (lit ''Timeout sending message data'')))
            (\<lambda>_. await_try (map_err BoxIo (io (net_flush N stream)))
            (\<lambda>_. set_self vec_clear (ret (Inr ()))))))"

definition cs_receive_message ::
  "('h, 'w, 'z) net_scheme \<Rightarrow> 'h \<Rightarrow> timeout_config \<Rightarrow> bool \<Rightarrow> usize \<Rightarrow>
     (vec, 'w, box_error + byte list) act" where
  "cs_receive_message N stream cfg command_has_answer max_buffer_size =
     await_try
       (cs_receive_response_header N stream False command_has_answer (tc_read_header cfg) max_buffer_size)
     (\<lambda>res_header.
        let status = rs_status res_header; data_size = unat (rs_data_size res_header) in
        await_try (cs_send_response_header N stream 1 0 (tc_write cfg))
        (\<lambda>_. if status \<noteq> 1 then ret (Inl (BoxStr (Fmt ''Response status is not Ok: {status}'' [unat status])))
             else if data_size > max_buffer_size then ret (Inl (BoxStr (lit ''Data size is more then max buffer size'')))
             else if data_size = 0 then set_self vec_clear (ret (Inr []))
             else
               set_self (vec_resize data_size 0) (
                 await_try
                   (timed N (tc_read_data cfg) (read_exact_or_closed N stream) BoxError
                      (BoxStr (lit ''Timeout waiting for message data'')))
                   (\<lambda>_. with_self (\<lambda>buffer. ret (Inr (vdata buffer)))))))"

definition cs_exchange ::
  "('h, 'w, 'z) net_scheme \<Rightarrow> 'h \<Rightarrow> u32 \<Rightarrow> byte list \<Rightarrow> timeout_config \<Rightarrow> bool \<Rightarrow> usize \<Rightarrow>
     (vec, 'w, error + byte list) act" where
  "cs_exchange N stream command data cfg command_has_answer max_buffer_size =
     await_try
       (map_err error_from_box (cs_send_message N stream command data cfg command_has_answer max_buffer_size))
       (\<lambda>_. await_try
          (map_err error_from_box (cs_receive_message N stream cfg command_has_answer max_buffer_size))
          (\<lambda>response. ret (Inr response)))"

abbreviation cs_on_buffer :: "(vec, 'w, 'a) act \<Rightarrow> ('h client_tls, 'w, 'a) act" where
  "cs_on_buffer \<equiv> borrow cs_buffer (\<lambda>b c. c\<lparr>cs_buffer := b\<rparr>)"

definition cs_handle_locked ::
  "('h, 'k, 'w, 'y) tls_client_net_scheme \<Rightarrow> u32 \<Rightarrow> byte list \<Rightarrow> ('h client_tls, 'w, error + byte list) act" where
  "cs_handle_locked N command request_data =
     await (wait_lock N) (\<lambda>_. with_self (\<lambda>c.
       case sh_stream c of
         None \<Rightarrow> ret (Inl (error_from_str (lit ''Not connected'')))
       | Some stream \<Rightarrow>
           await (cs_on_buffer (cs_exchange N stream command request_data (cs_timeout_config c)
                    (cs_command_has_answer c) (cs_max_buffer_size c)))
             (\<lambda>result.
                case result of
                  Inl e \<Rightarrow> await (put_stream N None) (\<lambda>_. await (stop_ping_task N) (\<lambda>_. ret result))
                | Inr _ \<Rightarrow> await (touch_activity N) (\<lambda>_. ret result))))"

definition cs_handle_message ::
  "('h, 'k, 'w, 'y) tls_client_net_scheme \<Rightarrow> u32 \<Rightarrow> byte list \<Rightarrow> ('h client_tls, 'w, error + byte list) act" where
  "cs_handle_message N command request_data = with_self (\<lambda>c.
     await_try
       (if \<not> cs_keep_alive c then cs_connect N
        else await (wait_lock N) (\<lambda>_. with_self (\<lambda>c.
               if sh_stream c = None then cs_connect N else ret (Inr ()))))
       (\<lambda>_. await (wait_lock N) (\<lambda>_. with_in_flight (cs_handle_locked N command request_data))))"

definition cs_no_answer_guard :: "('h client_tls, 'w, 'a) act \<Rightarrow> ('h client_tls, 'w, 'a) act" where
  "cs_no_answer_guard m = (\<lambda>dl c w. case m dl c w of (r, c', w') \<Rightarrow> (r, c'\<lparr>cs_command_has_answer := True\<rparr>, w'))"

definition cs_handle_message_with_no_answer ::
  "('h, 'k, 'w, 'y) tls_client_net_scheme \<Rightarrow> u32 \<Rightarrow> byte list \<Rightarrow> ('h client_tls, 'w, error + byte list) act" where
  "cs_handle_message_with_no_answer N command request_data =
     set_self (\<lambda>c. c\<lparr>cs_command_has_answer := False\<rparr>) (cs_no_answer_guard (cs_handle_message N command request_data))"

definition cs_drop ::
  "('h, 'k, 'w, 'y) tls_client_net_scheme \<Rightarrow> ('h client_tls, 'w, unit) act" where
  "cs_drop N =
     await (effect (\<lambda>c w. case pg_task_handle (sh_ping c) of
         None \<Rightarrow> (c, w)
       | Some handle \<Rightarrow> (update_ping (\<lambda>p. p\<lparr>pg_task_handle := None\<rparr>) c, tn_abort N handle w)))
     (\<lambda>_. set_self stop_flag (put_stream N None))"

subsection \<open>The same exchange, up to the texts of errors\<close>

text \<open>
  With every error replaced by the mere fact of a failure, the exchange of the TLS client is that
  of the plain client: the same bytes in the same order, the same buffer, the same success.
\<close>

abbreviation erase :: "('c, 'w, 'e + 'a) act \<Rightarrow> ('c, 'w, unit + 'a) act" where
  "erase \<equiv> map_err (\<lambda>_. ())"

lemma erase_if: "erase (if b then m else n) = (if b then erase m else erase n)"
  by simp

lemma erase_send_request_header:
  "erase (cs_send_request_header N s cmd n tmo) = erase (ct_send_request_header N s cmd n tmo)"
  unfolding cs_send_request_header_def ct_send_request_header_def
  by (simp add: err_simps request_encode_def Let_def)

lemma erase_send_response_header:
  "erase (cs_send_response_header N s st n tmo) = erase (ct_send_response_header N s st n tmo)"
  unfolding cs_send_response_header_def ct_send_response_header_def
  by (simp add: err_simps response_encode_def Let_def)

lemma erase_receive_response_header:
  "erase (cs_receive_response_header N s d a tmo limit) = erase (ct_receive_response_header N s d a tmo limit)"
  unfolding cs_receive_response_header_def ct_receive_response_header_def
  by (auto simp: err_simps Let_def fun_eq_iff act_simps timed_unfold split: sum.split prod.split poll.split)

lemma erase_send_message:
  "erase (cs_send_message N s cmd data cfg a limit) = erase (ct_send_message N s cmd data cfg a limit)"
  unfolding cs_send_message_def ct_send_message_def
  by (simp add: err_simps erase_if erase_send_request_header erase_receive_response_header cong: if_cong)

lemma erase_receive_message:
  "erase (cs_receive_message N s cfg a limit) = erase (ct_receive_message N s cfg a limit)"
  unfolding cs_receive_message_def ct_receive_message_def Let_def
  by (simp add: err_simps erase_if erase_send_response_header erase_receive_response_header cong: if_cong)

lemma await_try_ret_Inr: "await_try m (\<lambda>a. ret (Inr a)) = m"
  by (auto simp: fun_eq_iff act_simps split: prod.splits poll.splits sum.splits)

lemma erase_exchange:
  "erase (cs_exchange N s cmd data cfg a limit) = erase (ct_exchange N s cmd data cfg a limit)"
  unfolding cs_exchange_def ct_exchange_def
  using erase_send_message [of N s cmd data cfg a limit] erase_receive_message [of N s cfg a limit]
  by (simp add: err_simps await_try_ret_Inr)

text \<open>So every fact about runs carries over: a success is the same success, a failure is a failure.\<close>

lemma ensures_cs_exchange:
  assumes "room limit b"
  shows "ensures (\<lambda>r b'. vcap b' = vcap b \<and> (\<forall>d. r = Ready (Inr d) \<longrightarrow> length d \<le> limit))
    (cs_exchange N s cmd data cfg a limit) b"
proof (rule ensuresI)
  fix dl w r b' w' assume run: "cs_exchange N s cmd data cfg a limit dl b w = (r, b', w')"
  obtain r1 b1 w1 where ct: "ct_exchange N s cmd data cfg a limit dl b w = (r1, b1, w1)"
    by (cases "ct_exchange N s cmd data cfg a limit dl b w")
  have "erase (cs_exchange N s cmd data cfg a limit) dl b w = erase (ct_exchange N s cmd data cfg a limit) dl b w"
    by (simp only: erase_exchange)
  with run ct have "b' = b1" "r = Ready (Inr d) \<longleftrightarrow> r1 = Ready (Inr d)" for d
    by (auto simp: map_err_unfold split: poll.splits sum.splits)
  with ensuresD [OF ensures_ct_exchange [OF assms] ct]
  show "vcap b' = vcap b \<and> (\<forall>d. r = Ready (Inr d) \<longrightarrow> length d \<le> limit)" by blast
qed

subsection \<open>Properties of the TLS client\<close>

text \<open>The exchange of the TLS client is that of the plain client. With every error replaced by the
  mere fact of a failure the two are the same action: the same bytes sent and read in the same
  order under the same timeouts, the same buffer, the same payload.\<close>

theorem client_tls_exchange_is_client_tl:
  "map_err (\<lambda>_. ()) (cs_exchange N stream cmd data cfg has_answer limit) =
   map_err (\<lambda>_. ()) (ct_exchange N stream cmd data cfg has_answer limit)"
  by (rule erase_exchange)

lemma ensures_map_err_range: "ensures (\<lambda>r c'. \<forall>e. r = Ready (Inl e) \<longrightarrow> e \<in> range g) (map_err g m) c"
  by (rule ensures_map_err, rule ensures_any) (auto split: poll.split sum.split)

text \<open>The errors themselves are not the same. Every failure inside an exchange of the TLS client
  reaches the caller as \<open>Error::Other\<close>: a peer that went away is never recognised by
  \<open>is_disconnect\<close>, and a status the server answered is never a \<open>ResponseError\<close>, as both are with the
  plain client.\<close>

theorem client_tls_errors_are_opaque:
  "ensures (\<lambda>r b'. case r of
       Ready (Inl e) \<Rightarrow> (\<exists>b. e = Other b) \<and> \<not> is_disconnect e \<and> (\<forall>st. e \<noteq> ResponseError st)
     | _ \<Rightarrow> True)
   (cs_exchange N stream cmd data cfg has_answer limit) b"
proof -
  have other: "(\<exists>b. e = Other b) \<and> \<not> is_disconnect e \<and> (\<forall>st. e \<noteq> ResponseError st)"
    if "e \<in> range error_from_box" for e
    using that by (auto simp: error_from_box_def)
  show ?thesis
    unfolding cs_exchange_def await_try_ret_Inr
    by (rule ensures_await_try, rule ensures_mono [OF ensures_map_err_range])
       (auto simp: other split: poll.split sum.split
          intro!: ensures_mono [OF ensures_map_err_range] dest: other)
qed

text \<open>A host without a TLS stack of its own: connecting succeeds, the handshake fails with error 42.\<close>

definition pipe_tls_client :: "(unit, unit, pipe) tls_client_net" where
  "pipe_tls_client =
     \<lparr>net_now = pw_now, net_read = (\<lambda>h. pipe_read 0 (\<lambda>_. []) (\<lambda>_. True)),
      net_write_all = (\<lambda>h bs dl w. (Ready (Inr ()), w\<lparr>pw_sent := pw_sent w @ bs\<rparr>)),
      net_flush = (\<lambda>h dl w. (Ready (Inr ()), w)), net_shutdown = (\<lambda>h dl w. (Ready (Inr ()), w)),
      net_close = (\<lambda>h w. w), net_sleep = pipe_sleep,
      tn_spawn = (\<lambda>w. (0, w)), tn_abort = (\<lambda>k w. w), tn_others = ret (),
      cn_tcp_connect = (\<lambda>a dl w. (Ready (Inr ()), w)),
      cn_set_tcp_keepalive = (\<lambda>h ka w. w), cn_set_keepalive = (\<lambda>h b w. w),
      cn_tls_build = (\<lambda>_. Inr ()), cn_tls_connect = (\<lambda>k d h dl w. (Ready (Inl 42), w))\<rparr>"

text \<open>With certificates verified and no domain set, \<open>connect\<close> is a configuration error before any
  network operation: the world, the client and its stream are as they were, whatever the network.\<close>

theorem connect_needs_domain:
  assumes "\<not> cs_accept_invalid_certs c" and "cs_domain c = cs_domain (cs_new now address)"
  shows "cs_connect N dl c w =
    (Ready (Inl (Config (lit ''TLS domain not set: call set_domain() before connecting''))), c, w)"
  using assms by (simp add: cs_connect_def act_simps cs_new_def Let_def)

theorem connect_needs_domain_witness:
  "cs_connect pipe_tls_client None (cs_new 0 ''a'') pipe_start =
    (Ready (Inl (Config (lit ''TLS domain not set: call set_domain() before connecting''))), cs_new 0 ''a'', pipe_start)"
  by (rule connect_needs_domain [where now = 0 and address = "''a''"]) (simp_all add: cs_new_def Let_def)

text \<open>A failed handshake ends \<open>connect\<close> at once with the TLS error, on the first attempt and without
  the retries that a failed TCP connection gets; the client keeps the stream it had.\<close>

theorem failed_handshake_is_not_retried:
  assumes "cs_domain c \<noteq> PLACEHOLDER_DOMAIN \<or> cs_accept_invalid_certs c" and "\<not> cs_keep_alive c"
    and "cn_tls_build N (cs_accept_invalid_certs c) = Inr connector"
    and "\<And>dl. cn_tcp_connect N (cs_address c) dl w = (Ready (Inr socket), w1)"
    and "\<And>dl. cn_tls_connect N connector (cs_domain c) socket dl w1 = (Ready (Inl e), w2)"
  shows "cs_connect N dl c w = (Ready (Inl (Tls e)), c, w2)"
proof -
  have "cs_connect_loop N connector 0 dl' c w = (Ready (Inl (Tls e)), c, w2)" for dl'
    using assms(2,4,5)
    by (subst cs_connect_loop.simps)
       (simp add: act_simps timeout_def Let_def cs_connected_def cs_configure_socket_def effect_def
         DEFAULT_MAX_CONNECT_RETRIES_def error_from_tls_def)
  then show ?thesis
    using assms(1,3) by (auto simp: cs_connect_def act_simps timed_unfold Let_def)
qed

theorem failed_handshake_is_not_retried_witness:
  "cs_connect pipe_tls_client None (cs_set_domain ''server'' (cs_new 0 ''a'')) pipe_start =
    (Ready (Inl (Tls 42)), cs_set_domain ''server'' (cs_new 0 ''a''), pipe_start)"
  by (rule failed_handshake_is_not_retried [where connector = "()" and socket = "()" and ?w1.0 = pipe_start])
     (simp_all add: pipe_tls_client_def cs_set_domain_def cs_new_def Let_def PLACEHOLDER_DOMAIN_def)

end
