(* ===== verification/Client_View.thy ===== *)
theory Client_View
  imports Client_TLS
begin

section \<open>The TLS client as a plain client\<close>

text \<open>
  \<open>client_tls.rs\<close> is a copy of \<open>client_tl.rs\<close> but for connecting. Seen through \<open>cs_view\<close>, which
  forgets the two TLS settings, every operation of a \<open>ClientTLS\<close> other than \<open>connect\<close> is that of a
  \<open>ClientTL\<close>: the setters exactly, a message up to the texts of its errors. What the other theories
  show of the plain client is carried over by \<open>lifts\<close>.
\<close>

definition cs_view :: "'h client_tls \<Rightarrow> 'h client_tl" where
  "cs_view c = \<lparr>sh_stream = sh_stream c, sh_ping = sh_ping c, ct_address = cs_address c,
     ct_command_has_answer = cs_command_has_answer c, ct_buffer = cs_buffer c,
     ct_max_buffer_size = cs_max_buffer_size c, ct_timeout_config = cs_timeout_config c,
     ct_keep_alive = cs_keep_alive c\<rparr>"

lemma cs_view_simps [simp]:
  "sh_stream (cs_view c) = sh_stream c" "sh_ping (cs_view c) = sh_ping c"
  "ct_address (cs_view c) = cs_address c" "ct_command_has_answer (cs_view c) = cs_command_has_answer c"
  "ct_buffer (cs_view c) = cs_buffer c" "ct_max_buffer_size (cs_view c) = cs_max_buffer_size c"
  "ct_timeout_config (cs_view c) = cs_timeout_config c" "ct_keep_alive (cs_view c) = cs_keep_alive c"
  by (simp_all add: cs_view_def)

lemma cs_view_updates [simp]:
  "(cs_view c)\<lparr>sh_stream := s\<rparr> = cs_view (c\<lparr>sh_stream := s\<rparr>)"
  "(cs_view c)\<lparr>sh_ping := p\<rparr> = cs_view (c\<lparr>sh_ping := p\<rparr>)"
  "(cs_view c)\<lparr>ct_command_has_answer := b\<rparr> = cs_view (c\<lparr>cs_command_has_answer := b\<rparr>)"
  "(cs_view c)\<lparr>ct_buffer := v\<rparr> = cs_view (c\<lparr>cs_buffer := v\<rparr>)"
  "(cs_view c)\<lparr>ct_max_buffer_size := n\<rparr> = cs_view (c\<lparr>cs_max_buffer_size := n\<rparr>)"
  "(cs_view c)\<lparr>ct_timeout_config := cfg\<rparr> = cs_view (c\<lparr>cs_timeout_config := cfg\<rparr>)"
  "(cs_view c)\<lparr>ct_keep_alive := b\<rparr> = cs_view (c\<lparr>cs_keep_alive := b\<rparr>)"
  by (simp_all add: cs_view_def)

lemma cs_view_shared [simp]:
  "update_ping f (cs_view c) = cs_view (update_ping f c)"
  "set_in_flight b (cs_view c) = cs_view (set_in_flight b c)"
  "is_enabled (cs_view c) = is_enabled c"
  "shared.truncate (cs_view c) = shared.truncate c"
  by (simp_all add: update_ping_def set_in_flight_def is_enabled_def shared.truncate_def)

subsection \<open>The state shared with the ping task\<close>

lemma lifts_effect [lift_rules]:
  "(\<And>c w. g (f c) w = map_prod f id (u c w)) \<Longrightarrow> lifts f (effect u) (effect g)"
  by (auto simp: lifts_def effect_def split: prod.splits)

lemma lifts_shared [lift_rules]:
  "lifts cs_view (wait_lock N) (wait_lock N)"
  "lifts cs_view (put_stream N new) (put_stream N new)"
  "lifts cs_view (stop_ping_task N) (stop_ping_task N)"
  "lifts cs_view (touch_activity N) (touch_activity N)"
  unfolding wait_lock_def put_stream_def stop_ping_task_def touch_activity_def
  by (auto intro!: lift_rules split: option.split)

lemma lifts_with_in_flight [lift_rules]:
  "lifts cs_view m n \<Longrightarrow> lifts cs_view (with_in_flight m) (with_in_flight n)"
  by (auto simp: lifts_def with_in_flight_def split: prod.split)

lemma lifts_if [lift_rules]:
  "lifts f m m' \<Longrightarrow> lifts f n n' \<Longrightarrow> lifts f (if b then m else n) (if b then m' else n')"
  by simp

subsection \<open>The setters\<close>

lemma cs_view_new: "cs_view (cs_new now address) = ct_new now address"
  by (simp add: cs_view_def cs_new_def ct_new_def Let_def)

lemma cs_view_set_max_buffer_size:
  "ct_set_max_buffer_size alloc n (cs_view c) = map_prod id cs_view (cs_set_max_buffer_size alloc n c)"
  by (simp add: ct_set_max_buffer_size_def cs_set_max_buffer_size_def Let_def split: sum.split)

lemma cs_view_set_command_has_answer:
  "ct_set_command_has_answer b (cs_view c) = cs_view (cs_set_command_has_answer b c)"
  by (simp add: ct_set_command_has_answer_def cs_set_command_has_answer_def)

lemma lifts_set_keep_alive: "lifts cs_view (cs_set_keep_alive N b) (ct_set_keep_alive N b)"
  unfolding cs_set_keep_alive_def ct_set_keep_alive_def
  by (rule lift_rules | simp | safe)+

lemma lifts_set_timeout_config: "lifts cs_view (cs_set_timeout_config N cfg) (ct_set_timeout_config N cfg)"
  unfolding cs_set_timeout_config_def ct_set_timeout_config_def Let_def
  by (rule lift_rules | simp)+

lemma lifts_disconnect: "lifts cs_view (cs_disconnect N) (ct_disconnect N)"
  unfolding cs_disconnect_def ct_disconnect_def
  by (rule lift_rules | simp split: option.split sum.split | safe)+

lemma lifts_drop: "lifts cs_view (cs_drop N) (ct_drop N)"
  unfolding cs_drop_def ct_drop_def
  by (rule lift_rules | simp split: option.split)+

subsection \<open>A message\<close>

text \<open>The error of an exchange is handed on as it is.\<close>

lemma erase_handed_on:
  "erase (await m (\<lambda>r. case r of Inl e \<Rightarrow> await p (\<lambda>_. await q (\<lambda>_. ret r)) | Inr a \<Rightarrow> await t (\<lambda>_. ret r))) =
   await (erase m) (\<lambda>r. case r of Inl e \<Rightarrow> await p (\<lambda>_. await q (\<lambda>_. ret r)) | Inr a \<Rightarrow> await t (\<lambda>_. ret r))"
  by (auto simp: fun_eq_iff act_simps split: prod.splits poll.splits sum.splits)

lemma erase_borrow: "erase (borrow get put m) = borrow get put (erase m)"
  by (auto simp: fun_eq_iff act_simps split: prod.splits poll.splits sum.splits)

lemma erase_under_lock:
  "erase (await l (\<lambda>_. with_self (\<lambda>c. case g c of None \<Rightarrow> ret (Inl e) | Some s \<Rightarrow> k c s))) =
   await l (\<lambda>_. with_self (\<lambda>c. case g c of None \<Rightarrow> ret (Inl ()) | Some s \<Rightarrow> erase (k c s)))"
  by (auto simp: err_simps fun_eq_iff act_simps split: prod.splits poll.splits sum.splits option.splits)

lemma lifts_handle_locked:
  "lifts cs_view (erase (cs_handle_locked N cmd data)) (erase (ct_handle_locked N cmd data))"
proof -
  have some: "lifts cs_view
      (erase (await (cs_on_buffer (cs_exchange N s cmd data cfg a limit))
        (\<lambda>r. case r of Inl e \<Rightarrow> await (put_stream N None) (\<lambda>_. await (stop_ping_task N) (\<lambda>_. ret r))
           | Inr d \<Rightarrow> await (touch_activity N) (\<lambda>_. ret r))))
      (erase (await (ct_on_buffer (ct_exchange N s cmd data cfg a limit))
        (\<lambda>r. case r of Inl e \<Rightarrow> await (put_stream N None) (\<lambda>_. await (stop_ping_task N) (\<lambda>_. ret r))
           | Inr d \<Rightarrow> await (touch_activity N) (\<lambda>_. ret r))))" for s cfg a limit
    unfolding erase_handed_on erase_borrow erase_exchange
    by (rule lift_rules | simp split: sum.split | safe)+
  show ?thesis
    unfolding cs_handle_locked_def ct_handle_locked_def erase_under_lock
    by (rule lifts_await, rule lift_rules, rule lifts_with_self)
       (auto simp: lifts_ret split: option.split intro!: some)
qed

lemma erase_with_in_flight: "erase (with_in_flight m) = with_in_flight (erase m)"
  by (auto simp: fun_eq_iff with_in_flight_def act_simps split: prod.splits poll.splits sum.splits)

text \<open>On a kept connection, with no other task about, a message is its exchange.\<close>

lemma ct_handle_message_kept:
  assumes "undisturbed N" "ct_keep_alive c" "sh_stream c \<noteq> None"
  shows "ct_handle_message N cmd data dl c w = with_in_flight (ct_handle_locked N cmd data) dl c w"
  using assms(2,3) by (auto simp: ct_handle_message_def act_simps wait_lock_undisturbed [OF assms(1)])

lemma cs_handle_message_kept:
  assumes "undisturbed N" "cs_keep_alive c" "sh_stream c \<noteq> None"
  shows "cs_handle_message N cmd data dl c w = with_in_flight (cs_handle_locked N cmd data) dl c w"
  using assms(2,3) by (auto simp: cs_handle_message_def act_simps wait_lock_undisturbed [OF assms(1)])

lemma message_view:
  assumes "undisturbed N" "cs_keep_alive c" "sh_stream c \<noteq> None"
  shows "erase (ct_handle_message N cmd data) dl (cs_view c) w =
    (case erase (cs_handle_message N cmd data) dl c w of (r, c', w') \<Rightarrow> (r, cs_view c', w'))"
proof -
  have "erase (ct_handle_message N cmd data) dl (cs_view c) w =
      erase (with_in_flight (ct_handle_locked N cmd data)) dl (cs_view c) w"
    using assms by (simp add: map_err_unfold ct_handle_message_kept)
  also have "\<dots> = (case erase (with_in_flight (cs_handle_locked N cmd data)) dl c w of (r, c', w') \<Rightarrow> (r, cs_view c', w'))"
    unfolding erase_with_in_flight by (rule liftsD, rule lift_rules, rule lifts_handle_locked)
  also have "erase (with_in_flight (cs_handle_locked N cmd data)) dl c w = erase (cs_handle_message N cmd data) dl c w"
    using assms by (simp add: map_err_unfold cs_handle_message_kept)
  finally show ?thesis .
qed

text \<open>So a success is the same success, and a failure a failure that leaves the same state.\<close>

lemma erase_cases:
  assumes "erase n dl d w = (case erase m dl c w of (r, c', w') \<Rightarrow> (r, f c', w'))"
    and "n dl d w = (r, d', w')"
  obtains r' c' where "m dl c w = (r', c', w')" "d' = f c'"
    "\<forall>a. r = Ready (Inr a) \<longleftrightarrow> r' = Ready (Inr a)" "r = Pending \<longleftrightarrow> r' = Pending"
proof -
  obtain r1 c1 w1 where m: "m dl c w = (r1, c1, w1)" by (cases "m dl c w")
  from assms m have "w1 = w'" "d' = f c1" "\<forall>a. r = Ready (Inr a) \<longleftrightarrow> r1 = Ready (Inr a)" "r = Pending \<longleftrightarrow> r1 = Pending"
    by (auto simp: map_err_unfold split: poll.splits sum.splits)
  with m that show thesis by blast
qed

lemma ensures_erase:
  assumes "ensures (\<lambda>r c'. case r of Ready (Inl _) \<Rightarrow> \<forall>e. Q (Ready (Inl e)) c' | Ready (Inr a) \<Rightarrow> Q (Ready (Inr a)) c'
      | Pending \<Rightarrow> Q Pending c') (erase m) c"
  shows "ensures Q m c"
proof (rule ensuresI)
  fix dl w r c' w' assume m: "m dl c w = (r, c', w')"
  have erased: "erase m dl c w = (case r of Ready (Inl _) \<Rightarrow> Ready (Inl ()) | Ready (Inr a) \<Rightarrow> Ready (Inr a)
      | Pending \<Rightarrow> Pending, c', w')"
    using m by (auto simp: map_err_unfold split: poll.split sum.split)
  from ensuresD [OF assms erased] show "Q r c'"
    by (auto split: poll.splits sum.splits)
qed

lemma runs_erase:
  assumes "runs sent got (\<lambda>r c' l'. case r of Inr a \<Rightarrow> Q (Inr a) c' l' | Inl _ \<Rightarrow> \<forall>e. Q (Inl e) c' l') (erase m) c l"
  shows "runs sent got Q m c l"
  by (rule runs_lift [OF assms, where g = "\<lambda>dl w. dl"])
     (auto simp: map_err_unfold split: prod.splits poll.splits sum.splits)

lemma runs_cs_handle_message:
  assumes "undisturbed N" "cs_keep_alive c" "sh_stream c \<noteq> None"
    and "runs sent got (\<lambda>r d l'. \<forall>c'. d = cs_view c' \<longrightarrow>
        (case r of Inr a \<Rightarrow> Q (Inr a) c' l' | Inl _ \<Rightarrow> \<forall>e. Q (Inl e) c' l'))
      (ct_handle_message N cmd data) (cs_view c) l"
  shows "runs sent got Q (cs_handle_message N cmd data) c l"
proof (rule runs_lift [OF assms(4), where g = "\<lambda>dl w. dl"])
  fix dl w a d' w'
  assume run: "ct_handle_message N cmd data dl (cs_view c) w = (Ready a, d', w')"
    and q: "\<forall>c'. d' = cs_view c' \<longrightarrow>
        (case a of Inr a \<Rightarrow> Q (Inr a) c' (sent w', got w') | Inl _ \<Rightarrow> \<forall>e. Q (Inl e) c' (sent w', got w'))"
  from message_view [OF assms(1-3)] run obtain r' c' where m: "cs_handle_message N cmd data dl c w = (r', c', w')"
    "d' = cs_view c'" "\<forall>b. Ready a = Ready (Inr b) \<longleftrightarrow> r' = Ready (Inr b)" "Ready a = Pending \<longleftrightarrow> r' = Pending"
    by (rule erase_cases)
  from m(4) obtain b where b: "r' = Ready b" by (cases r') auto
  from q m(2) have q': "case a of Inr a \<Rightarrow> Q (Inr a) c' (sent w', got w') | Inl _ \<Rightarrow> \<forall>e. Q (Inl e) c' (sent w', got w')"
    by blast
  have "Q b c' (sent w', got w')"
  proof (cases b)
    case (Inr x)
    with m(3) b have "a = Inr x" by simp
    with q' Inr show ?thesis by simp
  next
    case (Inl e)
    with m(3) b obtain e' where "a = Inl e'" by (cases a) auto
    with q' Inl show ?thesis by simp
  qed
  with m(1) b show "\<exists>b c1 w2. cs_handle_message N cmd data dl c w = (Ready b, c1, w2) \<and> Q b c1 (sent w2, got w2)"
    by blast
qed

subsection \<open>Properties of the TLS client\<close>

text \<open>C16: the TLS client is the plain client, but for connecting. Seen through \<open>cs_view\<close>, a new client,
  every setter, \<open>disconnect\<close>, dropping the client, and the part of \<open>handle_message\<close> under the
  \<open>in_flight\<close> mutex do the same: the same bytes sent and read in the same order under the same
  timeouts, the same buffer, stream and ping state afterwards, also when dropped half way, and the
  same results, where of a message's error only that it is one.\<close>

theorem client_tls_is_client_tl:
  "cs_view (cs_new now address) = ct_new now address \<and>
   ct_set_max_buffer_size alloc limit (cs_view c) = map_prod id cs_view (cs_set_max_buffer_size alloc limit c) \<and>
   ct_set_command_has_answer b (cs_view c) = cs_view (cs_set_command_has_answer b c) \<and>
   ct_set_keep_alive N b dl (cs_view c) w = (case cs_set_keep_alive N b dl c w of (r, c', w') \<Rightarrow> (r, cs_view c', w')) \<and>
   ct_set_timeout_config N cfg dl (cs_view c) w =
     (case cs_set_timeout_config N cfg dl c w of (r, c', w') \<Rightarrow> (r, cs_view c', w')) \<and>
   ct_disconnect N dl (cs_view c) w = (case cs_disconnect N dl c w of (r, c', w') \<Rightarrow> (r, cs_view c', w')) \<and>
   ct_drop N dl (cs_view c) w = (case cs_drop N dl c w of (r, c', w') \<Rightarrow> (r, cs_view c', w')) \<and>
   map_err (\<lambda>_. ()) (with_in_flight (ct_handle_locked N cmd data)) dl (cs_view c) w =
     (case map_err (\<lambda>_. ()) (with_in_flight (cs_handle_locked N cmd data)) dl c w of (r, c', w') \<Rightarrow> (r, cs_view c', w'))"
  by (intro conjI cs_view_new cs_view_set_max_buffer_size cs_view_set_command_has_answer
      lifts_set_keep_alive [THEN liftsD] lifts_set_timeout_config [THEN liftsD]
      lifts_disconnect [THEN liftsD] lifts_drop [THEN liftsD]
      lifts_with_in_flight [OF lifts_handle_locked, THEN liftsD, folded erase_with_in_flight])

end
