(* ===== verification/At_Most_Once.thy ===== *)
theory At_Most_Once
  imports Client_View
begin

section \<open>A message is sent at most once\<close>

text \<open>
  A client never repeats a request on its own. \<open>delivers log t m\<close>: whatever the network does and however
  it ends, \<open>m\<close> writes a first part of \<open>t\<close>, in order and nothing else, and all of it when it succeeds. The
  log is that of the bytes one task writes, each with the stream it goes to.
\<close>

type_synonym 'h write_log = "('h \<times> byte) list"

abbreviation on_stream :: "'h \<Rightarrow> byte list \<Rightarrow> 'h write_log" where
  "on_stream h bs \<equiv> map (Pair h) bs"

definition delivers :: "('w \<Rightarrow> 'h write_log) \<Rightarrow> 'h write_log \<Rightarrow> ('c, 'w, 'e + 'a) act \<Rightarrow> bool" where
  "delivers log t m \<longleftrightarrow> (\<forall>dl c w r c' w'. m dl c w = (r, c', w') \<longrightarrow>
     (\<exists>p. log w' = log w @ p \<and> prefix p t \<and> ((\<exists>a. r = Ready (Inr a)) \<longrightarrow> p = t)))"

abbreviation silent :: "('w \<Rightarrow> 'h write_log) \<Rightarrow> ('c, 'w, 'a) act \<Rightarrow> bool" where
  "silent log \<equiv> moves (\<lambda>w w'. log w' = log w)"

lemma silent_growth: "growth (\<lambda>w w'. log w' = log w)"
  by (simp add: growth_def)

text \<open>
  The laws of the environment: writing adds to the log what went out, and nothing else writes. Other
  tasks have logs of their own.
\<close>

definition logs_writes :: "('w \<Rightarrow> 'h write_log) \<Rightarrow> ('h, 'k, 'w, 'y) tls_client_net_scheme \<Rightarrow> bool" where
  "logs_writes log N \<longleftrightarrow>
     (\<forall>h bs dl w r w'. net_write_all N h bs dl w = (r, w') \<longrightarrow>
        (\<exists>p. log w' = log w @ on_stream h p \<and> prefix p bs \<and> (r = Ready (Inr ()) \<longrightarrow> p = bs))) \<and>
     (\<forall>h n. fut_moves (\<lambda>w w'. log w' = log w) (net_read N h n)) \<and>
     (\<forall>h. fut_moves (\<lambda>w w'. log w' = log w) (net_flush N h)) \<and>
     (\<forall>d. fut_moves (\<lambda>w w'. log w' = log w) (net_sleep N d)) \<and>
     (\<forall>a. fut_moves (\<lambda>w w'. log w' = log w) (cn_tcp_connect N a)) \<and>
     (\<forall>k d h. fut_moves (\<lambda>w w'. log w' = log w) (cn_tls_connect N k d h)) \<and>
     (\<forall>h w. log (net_close N h w) = log w) \<and>
     (\<forall>h b w. log (cn_set_keepalive N h b w) = log w) \<and>
     (\<forall>h ka w. log (cn_set_tcp_keepalive N h ka w) = log w) \<and>
     (\<forall>w. log (snd (tn_spawn N w)) = log w) \<and>
     (\<forall>k w. log (tn_abort N k w) = log w) \<and>
     silent log (tn_others N)"

lemma logs_writesD:
  assumes "logs_writes log N"
  shows "net_write_all N h bs dl w = (r, w') \<Longrightarrow>
      \<exists>p. log w' = log w @ on_stream h p \<and> prefix p bs \<and> (r = Ready (Inr ()) \<longrightarrow> p = bs)"
    and "fut_moves (\<lambda>w w'. log w' = log w) (net_read N h n)" "fut_moves (\<lambda>w w'. log w' = log w) (net_flush N h)"
    and "fut_moves (\<lambda>w w'. log w' = log w) (net_sleep N d)"
    and "fut_moves (\<lambda>w w'. log w' = log w) (cn_tcp_connect N a)"
    and "fut_moves (\<lambda>w w'. log w' = log w) (cn_tls_connect N k name h)"
    and "log (net_close N h w) = log w" "log (cn_set_keepalive N h b w) = log w"
    and "log (cn_set_tcp_keepalive N h ka w) = log w" "log (snd (tn_spawn N w)) = log w"
    and "log (tn_abort N i w) = log w" "silent log (tn_others N)"
  using assms unfolding logs_writes_def by (elim conjE; metis)+

subsection \<open>Rules\<close>

named_theorems deliver_rules

lemma deliversI:
  "(\<And>dl c w r c' w'. m dl c w = (r, c', w') \<Longrightarrow>
      \<exists>p. log w' = log w @ p \<and> prefix p t \<and> ((\<exists>a. r = Ready (Inr a)) \<longrightarrow> p = t)) \<Longrightarrow> delivers log t m"
  unfolding delivers_def by blast

lemma deliversD:
  "delivers log t m \<Longrightarrow> m dl c w = (r, c', w') \<Longrightarrow>
     \<exists>p. log w' = log w @ p \<and> prefix p t \<and> ((\<exists>a. r = Ready (Inr a)) \<longrightarrow> p = t)"
  unfolding delivers_def by blast

lemma delivers_silent [deliver_rules]: "silent log m \<Longrightarrow> delivers log [] m"
  by (auto simp: delivers_def moves_def)

lemma delivers_fails [deliver_rules]: "delivers log t (ret (Inl e))"
  by (auto simp: delivers_def act_simps)

lemma delivers_await_try:
  assumes "delivers log t m" "\<And>a. delivers log u (k a)"
  shows "delivers log (t @ u) (await_try m k)"
proof (rule deliversI)
  fix dl c w r c' w' assume run: "await_try m k dl c w = (r, c', w')"
  obtain r1 c1 w1 where m: "m dl c w = (r1, c1, w1)" by (cases "m dl c w")
  from deliversD [OF assms(1) m] obtain p where
    p: "log w1 = log w @ p" "prefix p t" "(\<exists>a. r1 = Ready (Inr a)) \<longrightarrow> p = t" by blast
  show "\<exists>p. log w' = log w @ p \<and> prefix p (t @ u) \<and> ((\<exists>a. r = Ready (Inr a)) \<longrightarrow> p = t @ u)"
  proof (cases "\<exists>a. r1 = Ready (Inr a)")
    case True
    then obtain a where a: "r1 = Ready (Inr a)" ..
    with run m have "k a dl c1 w1 = (r, c', w')" by (simp add: act_simps)
    from deliversD [OF assms(2) this] obtain q where
      "log w' = log w1 @ q" "prefix q u" "(\<exists>a. r = Ready (Inr a)) \<longrightarrow> q = u" by blast
    with p(1,3) a show ?thesis by (intro exI [of _ "t @ q"]) auto
  next
    case False
    with run m have "w' = w1" "\<And>a. r \<noteq> Ready (Inr a)" by (auto simp: act_simps split: poll.splits sum.splits)
    with p show ?thesis by (intro exI [of _ p]) (auto simp: prefix_def)
  qed
qed

lemma delivers_after [deliver_rules]:
  assumes "silent log m" "\<And>a. delivers log t (k a)"
  shows "delivers log t (await m k)"
proof (rule deliversI)
  fix dl c w r c' w' assume run: "await m k dl c w = (r, c', w')"
  obtain r1 c1 w1 where m: "m dl c w = (r1, c1, w1)" by (cases "m dl c w")
  from movesD [OF assms(1) m] have w1: "log w1 = log w" .
  show "\<exists>p. log w' = log w @ p \<and> prefix p t \<and> ((\<exists>a. r = Ready (Inr a)) \<longrightarrow> p = t)"
  proof (cases r1)
    case (Ready a)
    with run m have "k a dl c1 w1 = (r, c', w')" by (simp add: act_simps)
    from deliversD [OF assms(2) this] w1 show ?thesis by simp
  next
    case Pending
    with run m w1 show ?thesis by (auto simp: act_simps)
  qed
qed

lemma delivers_self [deliver_rules]:
  "(\<And>c. delivers log t (k c)) \<Longrightarrow> delivers log t (with_self k)"
  "delivers log t m \<Longrightarrow> delivers log t (set_self f m)"
  "delivers log t m \<Longrightarrow> delivers log t (borrow get put m)"
  unfolding delivers_def by (auto simp: act_simps split: prod.splits)

lemma delivers_map_err [deliver_rules]: "delivers log t m \<Longrightarrow> delivers log t (map_err f m)"
  unfolding delivers_def by (fastforce simp: act_simps split: prod.splits poll.splits sum.splits)

lemma delivers_timed [deliver_rules]: "delivers log t m \<Longrightarrow> delivers log t (timed N d m conv el)"
  unfolding delivers_def by (fastforce simp: timed_unfold Let_def split: prod.splits poll.splits sum.splits if_splits)

lemma delivers_write [deliver_rules]:
  assumes "logs_writes log N"
  shows "delivers log (on_stream h bs) (io (net_write_all N h bs))"
proof (rule deliversI)
  fix dl c w r c' w' assume "io (net_write_all N h bs) dl c w = (r, c', w')"
  then have "net_write_all N h bs dl w = (r, w')" by (simp add: act_simps split: prod.splits)
  from logs_writesD(1) [OF assms this] obtain p where
    p: "log w' = log w @ on_stream h p" "prefix p bs" "r = Ready (Inr ()) \<longrightarrow> p = bs" by blast
  then show "\<exists>p. log w' = log w @ p \<and> prefix p (on_stream h bs) \<and> ((\<exists>a. r = Ready (Inr a)) \<longrightarrow> p = on_stream h bs)"
    by (intro exI [of _ "on_stream h p"]) (auto simp: map_mono_prefix)
qed

lemma delivers_fresh:
  assumes "\<And>b. vdata b = [] \<Longrightarrow> delivers log t (k b)"
  shows "delivers log t (set_self vec_clear (with_self k))"
proof (rule deliversI)
  fix dl c w r c' w' assume "set_self vec_clear (with_self k) dl c w = (r, c', w')"
  then have "k (vec_clear c) dl (vec_clear c) w = (r, c', w')" by (simp add: act_simps)
  then show "\<exists>p. log w' = log w @ p \<and> prefix p t \<and> ((\<exists>a. r = Ready (Inr a)) \<longrightarrow> p = t)"
    by (rule deliversD [OF assms, rotated]) (simp add: vec_clear_def)
qed

text \<open>Joining the bytes of two steps.\<close>

lemma delivers_then:
  "delivers log t m \<Longrightarrow> (\<And>a. delivers log [] (k a)) \<Longrightarrow> delivers log t (await_try m k)"
  "delivers log [] m \<Longrightarrow> (\<And>a. delivers log t (k a)) \<Longrightarrow> delivers log t (await_try m k)"
  using delivers_await_try [of log t m "[]" k] delivers_await_try [of log "[]" m t k] by simp_all

subsection \<open>What does not write\<close>

lemma silent_effect: "(\<And>c w. log (snd (f c w)) = log w) \<Longrightarrow> silent log (effect f)"
  by (auto simp: moves_def effect_def split: prod.splits) (metis snd_conv)

lemma silent_shared [deliver_rules]:
  assumes "logs_writes log N"
  shows "silent log (wait_lock N)" "silent log (put_stream N new)" "silent log (stop_ping_task N)"
    "silent log (touch_activity N)" "silent log (start_ping_task N)"
proof -
  note env = logs_writesD [OF assms]
  show "silent log (wait_lock N)"
    unfolding wait_lock_def by (rule moves_borrow) (rule env(12))
  show "silent log (put_stream N new)"
    unfolding put_stream_def by (rule silent_effect) (simp add: env(7) split: option.split)
  show "silent log (stop_ping_task N)"
    unfolding stop_ping_task_def
    by (rule moves_set_self, rule silent_effect) (simp add: env(11) split: option.split)
  show "silent log (touch_activity N)"
    unfolding touch_activity_def by (rule silent_effect) simp
  show "silent log (start_ping_task N)"
    unfolding start_ping_task_def case_prod_unfold
    by (auto intro!: moves_with_self moves_set_self silent_effect moves_ret silent_growth simp: env(10))
qed

lemmas silent_rules = silent_growth moves_await moves_await_try moves_with_self moves_set_self moves_ret moves_if
  moves_timeout moves_timed moves_map_err moves_io silent_shared silent_effect

lemma silent_connect:
  assumes "logs_writes log N"
  shows "silent log (ct_connect N)" "silent log (cs_connect N)"
proof -
  have "silent log (ct_connect_loop N tries)" for tries
    using assms
  proof (induction N tries rule: ct_connect_loop.induct)
    case (1 N tries)
    note env = logs_writesD [OF "1.prems"]
    have plain: "silent log (ct_connected N stream)" for stream
      unfolding ct_connected_def ct_configure_socket_def
      by (intro silent_rules "1.prems") (simp add: env(8,9) split: option.split)
    show ?case
      by (subst ct_connect_loop.simps)
        (use "1.IH" "1.prems" in \<open>auto intro!: silent_rules plain env "1.prems" split: sum.split\<close>)
  qed
  then show "silent log (ct_connect N)"
    unfolding ct_connect_def by (intro silent_rules)
  have "silent log (cs_connect_loop N k tries)" for k tries
    using assms
  proof (induction N k tries rule: cs_connect_loop.induct)
    case (1 N k tries)
    note env = logs_writesD [OF "1.prems"]
    have secure: "silent log (cs_connected N k stream)" for stream
      unfolding cs_connected_def cs_configure_socket_def
      by (intro silent_rules "1.prems" env) (simp add: env(8,9) split: option.split)
    show ?case
      by (subst cs_connect_loop.simps)
        (use "1.IH" "1.prems" in \<open>auto intro!: silent_rules secure env "1.prems" split: sum.split\<close>)
  qed
  then show "silent log (cs_connect N)"
    unfolding cs_connect_def by (auto intro!: silent_rules split: sum.split)
qed

subsection \<open>What a message writes\<close>

text \<open>The shape of a frame that is sent: write it, flush, clear the buffer.\<close>

lemma delivers_frame:
  assumes "logs_writes log N"
  shows "delivers log (on_stream h bs) (await_try (timed N tmo (io (net_write_all N h bs)) conv el)
    (\<lambda>_. await_try (map_err conv (io (net_flush N h))) (\<lambda>_. set_self f (ret (Inr ())))))"
proof (rule delivers_then(1))
  note grows = silent_growth [of log]
  show "delivers log (on_stream h bs) (timed N tmo (io (net_write_all N h bs)) conv el)"
    by (rule delivers_timed, rule delivers_write [OF assms])
  have flush: "silent log (map_err conv (io (net_flush N h)))"
    by (rule moves_map_err [OF grows], rule moves_io, rule logs_writesD(3) [OF assms])
  have clear: "silent log (set_self f (ret (Inr ())))"
    by (rule moves_set_self, rule moves_ret [OF grows])
  show "delivers log [] (await_try (map_err conv (io (net_flush N h))) (\<lambda>_. set_self f (ret (Inr ()))))"
    by (rule delivers_silent, rule moves_await_try [OF grows flush clear])
qed

lemma delivers_encoded:
  assumes "logs_writes log N" "\<And>b buf. vdata b = [] \<Longrightarrow> enc b = Inr buf \<Longrightarrow> vdata buf = bs"
  shows "delivers log (on_stream h bs) (set_self vec_clear (with_self (\<lambda>b. case enc b of
      Inl e \<Rightarrow> ret (Inl (g e))
    | Inr buf \<Rightarrow> set_self (\<lambda>_. buf) (await_try (timed N tmo (io (net_write_all N h (vdata buf))) conv el)
        (\<lambda>_. await_try (map_err conv (io (net_flush N h))) (\<lambda>_. set_self f (ret (Inr ()))))))))"
proof (rule delivers_fresh)
  fix b :: vec assume b: "vdata b = []"
  show "delivers log (on_stream h bs) (case enc b of
      Inl e \<Rightarrow> ret (Inl (g e))
    | Inr buf \<Rightarrow> set_self (\<lambda>_. buf) (await_try (timed N tmo (io (net_write_all N h (vdata buf))) conv el)
        (\<lambda>_. await_try (map_err conv (io (net_flush N h))) (\<lambda>_. set_self f (ret (Inr ()))))))"
  proof (cases "enc b")
    case (Inr buf)
    show ?thesis
      unfolding Inr sum.case assms(2) [OF b Inr] by (rule delivers_self(2), rule delivers_frame [OF assms(1)])
  qed (simp add: delivers_fails)
qed

lemma delivers_headers:
  assumes "logs_writes log N"
  shows "delivers log (on_stream h (request_bytes cmd n)) (ct_send_request_header N h cmd n tmo)"
    and "delivers log (on_stream h [status]) (ct_send_response_header N h status 0 tmo)"
    and "delivers log (on_stream h (request_bytes cmd n)) (cs_send_request_header N h cmd n tmo)"
    and "delivers log (on_stream h [status]) (cs_send_response_header N h status 0 tmo)"
proof -
  have request: "vdata b = [] \<Longrightarrow> request_encode (request_header_new cmd n) b = Inr buf \<Longrightarrow> vdata buf = request_bytes cmd n" for b buf
    using request_encode_data by (simp add: request_header_new_def)
  have response: "vdata b = [] \<Longrightarrow> response_encode (response_header_new status 0) b True = Inr buf \<Longrightarrow> vdata buf = [status]" for b buf
    using response_encode_data by (fastforce simp: response_header_new_def)
  show "delivers log (on_stream h (request_bytes cmd n)) (ct_send_request_header N h cmd n tmo)"
    "delivers log (on_stream h (request_bytes cmd n)) (cs_send_request_header N h cmd n tmo)"
    unfolding ct_send_request_header_def cs_send_request_header_def
    by (rule delivers_encoded [OF assms], erule (1) request)+
  show "delivers log (on_stream h [status]) (ct_send_response_header N h status 0 tmo)"
    "delivers log (on_stream h [status]) (cs_send_response_header N h status 0 tmo)"
    unfolding ct_send_response_header_def cs_send_response_header_def Let_def
    by (rule delivers_encoded [OF assms], erule response, simp)+
qed

lemma silent_headers:
  assumes "logs_writes log N"
  shows "silent log (ct_receive_response_header N h d a tmo limit)"
    and "silent log (cs_receive_response_header N h d a tmo limit)"
proof -
  note env = logs_writesD [OF assms]
  show "silent log (ct_receive_response_header N h d a tmo limit)"
    unfolding ct_receive_response_header_def Let_def
    by (auto intro!: silent_rules moves_reads env split: sum.split)
  show "silent log (cs_receive_response_header N h d a tmo limit)"
    unfolding cs_receive_response_header_def Let_def
    by (auto intro!: silent_rules moves_reads env split: sum.split)
qed

abbreviation exchange_bytes :: "u32 \<Rightarrow> byte list \<Rightarrow> byte list" where
  "exchange_bytes cmd data \<equiv> request_bytes cmd (usize_as_u32 (length data)) @ data @ [1]"

lemma delivers_exchange:
  assumes "logs_writes log N"
  shows "delivers log (on_stream h (exchange_bytes cmd data)) (ct_exchange N h cmd data cfg a limit)"
    and "delivers log (on_stream h (exchange_bytes cmd data)) (cs_exchange N h cmd data cfg a limit)"
proof -
  note env = logs_writesD [OF assms] and frame = delivers_frame [OF assms, where h = h]
    and headers = delivers_headers [OF assms] and reads = silent_headers [OF assms]
  let ?hdr = "request_bytes cmd (usize_as_u32 (length data))"
  have split: "on_stream h (exchange_bytes cmd data) = on_stream h (?hdr @ data) @ on_stream h [1]" by simp
  have send: "delivers log (on_stream h (?hdr @ data)) (ct_send_message N h cmd data cfg a limit)"
    unfolding ct_send_message_def map_append
    by (rule delivers_await_try [OF headers(1) delivers_then(2)])
      (auto intro!: delivers_silent reads delivers_fails frame)
  have receive: "delivers log (on_stream h [1]) (ct_receive_message N h cfg a limit)"
    unfolding ct_receive_message_def Let_def
    by (rule delivers_then(2), rule delivers_silent [OF reads(1)], rule delivers_then(1) [OF headers(2)])
      (auto intro!: delivers_silent delivers_fails silent_rules moves_reads env)
  show "delivers log (on_stream h (exchange_bytes cmd data)) (ct_exchange N h cmd data cfg a limit)"
    unfolding ct_exchange_def split by (rule delivers_await_try [OF send receive])
  have tls_send: "delivers log (on_stream h (?hdr @ data)) (cs_send_message N h cmd data cfg a limit)"
    unfolding cs_send_message_def map_append
    by (rule delivers_await_try [OF headers(3) delivers_then(2)])
      (auto intro!: delivers_silent reads delivers_fails frame)
  have tls_receive: "delivers log (on_stream h [1]) (cs_receive_message N h cfg a limit)"
    unfolding cs_receive_message_def Let_def
    by (rule delivers_then(2), rule delivers_silent [OF reads(2)], rule delivers_then(1) [OF headers(4)])
      (auto intro!: delivers_silent delivers_fails silent_rules moves_reads env)
  show "delivers log (on_stream h (exchange_bytes cmd data)) (cs_exchange N h cmd data cfg a limit)"
    unfolding cs_exchange_def split
    by (rule delivers_await_try [OF delivers_map_err [OF tls_send]], rule delivers_then(1),
      rule delivers_map_err [OF tls_receive], rule delivers_silent, rule moves_ret, rule silent_growth)
qed

text \<open>The same with the stream left open: all the bytes go to one stream.\<close>

definition sends_once :: "('w \<Rightarrow> 'h write_log) \<Rightarrow> byte list \<Rightarrow> ('c, 'w, 'e + 'a) act \<Rightarrow> bool" where
  "sends_once log bs m \<longleftrightarrow> (\<forall>dl c w r c' w'. m dl c w = (r, c', w') \<longrightarrow>
     (\<exists>h p. log w' = log w @ on_stream h p \<and> prefix p bs \<and> ((\<exists>a. r = Ready (Inr a)) \<longrightarrow> p = bs)))"

lemma sends_onceI:
  "(\<And>dl c w r c' w'. m dl c w = (r, c', w') \<Longrightarrow>
      \<exists>h p. log w' = log w @ on_stream h p \<and> prefix p bs \<and> ((\<exists>a. r = Ready (Inr a)) \<longrightarrow> p = bs)) \<Longrightarrow> sends_once log bs m"
  unfolding sends_once_def by blast

lemma sends_onceD:
  "sends_once log bs m \<Longrightarrow> m dl c w = (r, c', w') \<Longrightarrow>
     \<exists>h p. log w' = log w @ on_stream h p \<and> prefix p bs \<and> ((\<exists>a. r = Ready (Inr a)) \<longrightarrow> p = bs)"
  unfolding sends_once_def by blast

lemma sends_once_delivers:
  assumes "delivers log (on_stream h bs) m"
  shows "sends_once log bs m"
proof (rule sends_onceI)
  fix dl c w r c' w' assume "m dl c w = (r, c', w')"
  from deliversD [OF assms this] obtain p where
    p: "log w' = log w @ p" "prefix p (on_stream h bs)" "(\<exists>a. r = Ready (Inr a)) \<longrightarrow> p = on_stream h bs" by blast
  from p(2) have "p = on_stream h (take (length p) bs)"
    by (metis prefix_def append_eq_conv_conj take_map)
  moreover have "prefix (take (length p) bs) bs" by (rule take_is_prefix)
  ultimately show "\<exists>h p. log w' = log w @ on_stream h p \<and> prefix p bs \<and> ((\<exists>a. r = Ready (Inr a)) \<longrightarrow> p = bs)"
    using p(1,3) by (intro exI [of _ h] exI [of _ "take (length p) bs"]) auto
qed

lemma sends_once_silent:
  assumes "silent log m" "\<And>a. sends_once log bs (k a)"
  shows "sends_once log bs (await m k)"
proof (rule sends_onceI)
  fix dl c w r c' w' assume run: "await m k dl c w = (r, c', w')"
  obtain r1 c1 w1 where m: "m dl c w = (r1, c1, w1)" by (cases "m dl c w")
  from movesD [OF assms(1) m] have w1: "log w1 = log w" .
  show "\<exists>h p. log w' = log w @ on_stream h p \<and> prefix p bs \<and> ((\<exists>a. r = Ready (Inr a)) \<longrightarrow> p = bs)"
  proof (cases r1)
    case (Ready a)
    with run m have "k a dl c1 w1 = (r, c', w')" by (simp add: act_simps)
    from sends_onceD [OF assms(2) this] w1 show ?thesis by simp
  next
    case Pending
    with run m w1 show ?thesis by (auto simp: act_simps)
  qed
qed

lemma sends_once_fails: "sends_once log bs (ret (Inl e))"
  by (rule sends_onceI) (auto simp: act_simps)

lemma sends_once_try:
  assumes "silent log m" "\<And>a. sends_once log bs (k a)"
  shows "sends_once log bs (await_try m k)"
  unfolding await_try_def
  by (rule sends_once_silent [OF assms(1)]) (auto intro: sends_once_fails assms(2) split: sum.split)

lemma sends_once_self: "(\<And>c. sends_once log bs (k c)) \<Longrightarrow> sends_once log bs (with_self k)"
  unfolding sends_once_def by (simp add: act_simps)

lemma sends_once_in_flight: "sends_once log bs m \<Longrightarrow> sends_once log bs (with_in_flight m)"
  unfolding sends_once_def with_in_flight_def by (auto split: prod.splits)

text \<open>Tidying up after the exchange, in silence and without changing its result.\<close>

lemma sends_once_then:
  assumes "sends_once log bs m" "\<And>r. silent log (k r)"
    and "\<And>dl r c w a c' w'. k r dl c w = (Ready a, c', w') \<Longrightarrow> a = r"
  shows "sends_once log bs (await m k)"
proof (rule sends_onceI)
  fix dl c w r c' w' assume run: "await m k dl c w = (r, c', w')"
  obtain r1 c1 w1 where m: "m dl c w = (r1, c1, w1)" by (cases "m dl c w")
  from sends_onceD [OF assms(1) m] obtain h p where
    p: "log w1 = log w @ on_stream h p" "prefix p bs" "(\<exists>a. r1 = Ready (Inr a)) \<longrightarrow> p = bs" by blast
  show "\<exists>h p. log w' = log w @ on_stream h p \<and> prefix p bs \<and> ((\<exists>a. r = Ready (Inr a)) \<longrightarrow> p = bs)"
  proof (cases r1)
    case (Ready a)
    with run m have k: "k a dl c1 w1 = (r, c', w')" by (simp add: act_simps)
    from movesD [OF assms(2) k] have "log w' = log w1" .
    moreover have "\<forall>b. r = Ready b \<longrightarrow> b = a" using assms(3) k by blast
    ultimately show ?thesis using p Ready by auto
  next
    case Pending
    with run m p show ?thesis by (auto simp: act_simps)
  qed
qed

lemma handed_on_silent:
  assumes "logs_writes log N"
  shows "silent log (case r of Inl e \<Rightarrow> await (put_stream N None) (\<lambda>_. await (stop_ping_task N) (\<lambda>_. ret r))
    | Inr _ \<Rightarrow> await (touch_activity N) (\<lambda>_. ret r))"
  by (cases r) (auto intro!: silent_rules assms)

lemma handed_on_result:
  "(case r of Inl e \<Rightarrow> await (put_stream N None) (\<lambda>_. await (stop_ping_task N) (\<lambda>_. ret r))
    | Inr _ \<Rightarrow> await (touch_activity N) (\<lambda>_. ret r)) dl c w = (Ready a, c', w') \<Longrightarrow> a = r"
  by (cases r) (auto simp: act_simps split: prod.splits poll.splits)

lemma sends_once_handle_locked:
  assumes "logs_writes log N"
  shows "sends_once log (exchange_bytes cmd data) (ct_handle_locked N cmd data)"
    and "sends_once log (exchange_bytes cmd data) (cs_handle_locked N cmd data)"
proof -
  note exchange = delivers_exchange [OF assms, THEN delivers_self(3), THEN sends_once_delivers]
  have some: "sends_once log (exchange_bytes cmd data) (await (ct_on_buffer (ct_exchange N h cmd data cfg a limit))
      (\<lambda>r. case r of Inl e \<Rightarrow> await (put_stream N None) (\<lambda>_. await (stop_ping_task N) (\<lambda>_. ret r))
         | Inr _ \<Rightarrow> await (touch_activity N) (\<lambda>_. ret r)))" for h cfg a limit
    by (rule sends_once_then [OF exchange(1) handed_on_silent [OF assms] handed_on_result])
  show "sends_once log (exchange_bytes cmd data) (ct_handle_locked N cmd data)"
    unfolding ct_handle_locked_def
    by (rule sends_once_silent [OF silent_shared(1) [OF assms] sends_once_self])
       (auto split: option.split intro: some sends_once_fails)
  have tls: "sends_once log (exchange_bytes cmd data) (await (cs_on_buffer (cs_exchange N h cmd data cfg a limit))
      (\<lambda>r. case r of Inl e \<Rightarrow> await (put_stream N None) (\<lambda>_. await (stop_ping_task N) (\<lambda>_. ret r))
         | Inr _ \<Rightarrow> await (touch_activity N) (\<lambda>_. ret r)))" for h cfg a limit
    by (rule sends_once_then [OF exchange(2) handed_on_silent [OF assms] handed_on_result])
  show "sends_once log (exchange_bytes cmd data) (cs_handle_locked N cmd data)"
    unfolding cs_handle_locked_def
    by (rule sends_once_silent [OF silent_shared(1) [OF assms] sends_once_self])
       (auto split: option.split intro: tls sends_once_fails)
qed

lemma sends_once_message:
  assumes "logs_writes log N"
  shows "sends_once log (exchange_bytes cmd data) (ct_handle_message N cmd data)"
    and "sends_once log (exchange_bytes cmd data) (cs_handle_message N cmd data)"
proof -
  note connect = silent_connect [OF assms] and locked = sends_once_handle_locked [OF assms, THEN sends_once_in_flight]
  show "sends_once log (exchange_bytes cmd data) (ct_handle_message N cmd data)"
    unfolding ct_handle_message_def
    by (rule sends_once_self, rule sends_once_try)
       (auto intro!: connect(1) silent_rules assms sends_once_silent [OF silent_shared(1) [OF assms]] locked(1))
  show "sends_once log (exchange_bytes cmd data) (cs_handle_message N cmd data)"
    unfolding cs_handle_message_def
    by (rule sends_once_self, rule sends_once_try)
       (auto intro!: connect(2) silent_rules assms sends_once_silent [OF silent_shared(1) [OF assms]] locked(2))
qed

subsection \<open>Properties\<close>

text \<open>C5: a message is sent at most once. On any network, and however the call ends, with a result, an
  error, a timeout, or dropped half way, a message of either client writes a first part of one
  exchange, the request header, the payload and the acknowledgement of the response, in this order,
  to one stream, and nothing else: there is no retry that could make the server execute the request
  twice. A call that succeeds has written all of it.\<close>

theorem message_sent_at_most_once:
  assumes "logs_writes log N"
  shows "(case ct_handle_message N cmd data dl c w of (r, c', w') \<Rightarrow>
      \<exists>h p. log w' = log w @ on_stream h p \<and> prefix p (exchange_bytes cmd data) \<and>
        ((\<exists>out. r = Ready (Inr out)) \<longrightarrow> p = exchange_bytes cmd data)) \<and>
    (case cs_handle_message N cmd data dl' d v of (r, d', v') \<Rightarrow>
      \<exists>h p. log v' = log v @ on_stream h p \<and> prefix p (exchange_bytes cmd data) \<and>
        ((\<exists>out. r = Ready (Inr out)) \<longrightarrow> p = exchange_bytes cmd data))"
proof -
  obtain r c' w' r' d' v' where runs: "ct_handle_message N cmd data dl c w = (r, c', w')"
    "cs_handle_message N cmd data dl' d v = (r', d', v')" by (metis prod_cases3)
  with sends_once_message [OF assms, of cmd data, THEN sends_onceD] show ?thesis by simp
qed

text \<open>A peer that closes every connection at once.\<close>

definition closing_peer :: "(unit, unit, pipe) tls_client_net" where
  "closing_peer = pipe_tls_client\<lparr>cn_tls_connect := \<lambda>k d h dl w. (Ready (Inr h), w)\<rparr>"

lemma closing_peer_logs: "logs_writes (\<lambda>w. on_stream () (pw_sent w)) closing_peer"
proof -
  have same: "pw_sent (wait_until dl w) = pw_sent w" for dl w by (cases dl) simp_all
  show ?thesis
    by (auto simp: logs_writes_def closing_peer_def pipe_tls_client_def fut_moves_def moves_def act_simps pipe_read_def
        pipe_sleep_def Let_def same split: if_splits)
qed

theorem message_sent_at_most_once_witness:
  "(case ct_handle_message closing_peer 5 [1, 2] None (ct_new 0 ''a'') pipe_start of (r, c', w') \<Rightarrow>
      prefix (pw_sent w') [0, 0, 0, 5, 0, 0, 0, 2, 1, 2, 1]) \<and>
   (case cs_handle_message closing_peer 5 [1, 2] None (cs_new 0 ''a'') pipe_start of (r, c', w') \<Rightarrow>
      prefix (pw_sent w') [0, 0, 0, 5, 0, 0, 0, 2, 1, 2, 1])"
proof -
  have "inj (Pair ())" by (simp add: inj_def)
  then show ?thesis
    using message_sent_at_most_once [OF closing_peer_logs, where cmd = 5 and data = "[1, 2]" and dl = None
        and c = "ct_new 0 ''a''" and w = pipe_start and dl' = None and d = "cs_new 0 ''a''" and v = pipe_start]
    by (auto simp: pipe_start_def request_bytes_def to_be_bytes_def dest: map_injective)
qed

end
