(* ===== verification/Interleaving.thy ===== *)
theory Interleaving
  imports Ping
begin

section \<open>The client and its ping tasks, interleaved\<close>

text \<open>
  \<open>handle_message\<close> and the loop of the ping task (\<open>client_tl.rs\<close>, \<open>client_tls.rs\<close>, \<open>ping.rs\<close>) as
  processes over the mutexes they share, one step for each stretch of code between two points where
  a process waits. The operations of an exchange are counted: a message is six operations on the stream
  (header, acknowledgement, payload, response header, acknowledgement, payload), or five when the
  answer is empty, a ping two. The ghost log holds the operations on the stream the client has at present.

  Aborting a task does not wait for it. The client gives up the handle of an aborted task and may spawn
  the next one; the runtime drops the old one, with the guards it holds, some time later. On a
  runtime with one thread an aborted task makes no step any more. On one with several threads it may
  be running at that moment, and goes on to the next point at which it has to wait; every wait but
  its sleep may be over at once.
\<close>

datatype owner = Client | Pinger nat

text \<open>
  Where the client is: looking whether there is a stream (under its mutex), connecting, having
  stored a new stream, waiting for \<open>in_flight\<close>, waiting for the stream, exchanging, closing. The
  flags tell a \<open>connect\<close> inside \<open>handle_message\<close> from one the caller made.
\<close>

datatype client_at = CIdle | CLook | CConnect bool | CStored bool | CFlight | CStream | CExchange nat | CClose
datatype ping_at = PSleep | PAwake | PStream | PExchange nat | PDead

record interleaving =
  il_in_flight :: "owner option"
  il_lock :: "owner option"
  il_open :: bool
  il_stop :: bool
  il_client :: client_at
  il_handle :: "nat option"
  il_tasks :: "nat \<Rightarrow> ping_at"
  il_spawned :: nat
  il_log :: "(owner \<times> nat) list"

fun operations :: "owner \<Rightarrow> nat" where
  "operations Client = 6"
| "operations (Pinger i) = 2"

text \<open>A mutex guard is dropped with the future that holds it.\<close>

definition release :: "owner \<Rightarrow> interleaving \<Rightarrow> interleaving" where
  "release p s = s\<lparr>il_in_flight := (if il_in_flight s = Some p then None else il_in_flight s),
                   il_lock := (if il_lock s = Some p then None else il_lock s)\<rparr>"

text \<open>\<open>stop_ping_task\<close>: set the flag, take the handle and abort the task, without waiting for it.\<close>

definition stop_ping :: "interleaving \<Rightarrow> interleaving" where
  "stop_ping s = s\<lparr>il_stop := True, il_handle := None\<rparr>"

definition drop_stream :: "interleaving \<Rightarrow> interleaving" where
  "drop_stream s = s\<lparr>il_open := False, il_log := []\<rparr>"

definition put_task :: "nat \<Rightarrow> ping_at \<Rightarrow> interleaving \<Rightarrow> interleaving" where
  "put_task i p s = s\<lparr>il_tasks := (il_tasks s)(i := p)\<rparr>"

text \<open>\<open>start_ping_task\<close>: reset the flag, spawn a task and keep its handle.\<close>

definition start_ping :: "interleaving \<Rightarrow> interleaving" where
  "start_ping s = (put_task (il_spawned s) PSleep s)\<lparr>il_stop := False, il_handle := Some (il_spawned s),
                                                     il_spawned := Suc (il_spawned s)\<rparr>"

text \<open>
  What the application may do beyond sending messages and disconnecting: drop a future of
  \<open>handle_message\<close> before it is done, or call \<open>connect\<close> while there is a stream; and whether its
  runtime runs tasks on several threads.
\<close>

record usage =
  us_cancels :: bool
  us_reconnects :: bool
  us_parallel :: bool

inductive client_step :: "usage \<Rightarrow> interleaving \<Rightarrow> interleaving \<Rightarrow> bool" for U where
  look: "il_client s = CIdle \<Longrightarrow> il_lock s = None \<Longrightarrow>
    client_step U s (s\<lparr>il_client := CLook, il_lock := Some Client\<rparr>)"
| reuse: "il_client s = CLook \<Longrightarrow> il_open s \<Longrightarrow>
    client_step U s (s\<lparr>il_client := CFlight, il_lock := None\<rparr>)"
| missing: "il_client s = CLook \<Longrightarrow> \<not> il_open s \<Longrightarrow>
    client_step U s (s\<lparr>il_client := CConnect True, il_lock := None\<rparr>)"
| reconnect: "il_client s = CIdle \<Longrightarrow> us_reconnects U \<or> \<not> il_open s \<Longrightarrow>
    client_step U s (s\<lparr>il_client := CConnect False\<rparr>)"
| connect_fails: "il_client s = CConnect b \<Longrightarrow> client_step U s (s\<lparr>il_client := CIdle\<rparr>)"
| store: "il_client s = CConnect b \<Longrightarrow> il_lock s = None \<Longrightarrow>
    client_step U s (s\<lparr>il_client := CStored b, il_open := True, il_log := []\<rparr>)"
| restart: "il_client s = CStored b \<Longrightarrow>
    client_step U s ((start_ping (stop_ping s))\<lparr>il_client := (if b then CFlight else CIdle)\<rparr>)"
| flight: "il_client s = CFlight \<Longrightarrow> il_in_flight s = None \<Longrightarrow>
    client_step U s (s\<lparr>il_client := CStream, il_in_flight := Some Client\<rparr>)"
| stream: "il_client s = CStream \<Longrightarrow> il_lock s = None \<Longrightarrow> il_open s \<Longrightarrow>
    client_step U s (s\<lparr>il_client := CExchange 0, il_lock := Some Client\<rparr>)"
| gone: "il_client s = CStream \<Longrightarrow> il_lock s = None \<Longrightarrow> \<not> il_open s \<Longrightarrow>
    client_step U s ((release Client s)\<lparr>il_client := CIdle\<rparr>)"
| io: "il_client s = CExchange k \<Longrightarrow> k < operations Client \<Longrightarrow>
    client_step U s (s\<lparr>il_client := CExchange (Suc k), il_log := il_log s @ [(Client, k)]\<rparr>)"
| answered: "il_client s = CExchange k \<Longrightarrow> k = operations Client \<or> Suc k = operations Client \<Longrightarrow>
    client_step U s ((release Client s)\<lparr>il_client := CIdle\<rparr>)"
| failed: "il_client s = CExchange k \<Longrightarrow>
    client_step U s (release Client (stop_ping (drop_stream s))\<lparr>il_client := CIdle\<rparr>)"
| disconnect: "il_client s = CIdle \<Longrightarrow> client_step U s ((stop_ping s)\<lparr>il_client := CClose\<rparr>)"
| closed: "il_client s = CClose \<Longrightarrow> il_lock s = None \<Longrightarrow>
    client_step U s ((drop_stream s)\<lparr>il_client := CIdle\<rparr>)"
| cancel: "us_cancels U \<Longrightarrow> client_step U s ((release Client s)\<lparr>il_client := CIdle\<rparr>)"

inductive ping_step :: "nat \<Rightarrow> interleaving \<Rightarrow> interleaving \<Rightarrow> bool" for i where
  wake: "il_tasks s i = PSleep \<Longrightarrow> \<not> il_stop s \<Longrightarrow> ping_step i s (put_task i PAwake s)"
| stopped: "il_tasks s i = PSleep \<Longrightarrow> il_stop s \<Longrightarrow> ping_step i s (put_task i PDead s)"
| skip: "il_tasks s i = PAwake \<Longrightarrow> ping_step i s (put_task i PSleep s)"
| claim: "il_tasks s i = PAwake \<Longrightarrow> il_in_flight s = None \<Longrightarrow>
    ping_step i s ((put_task i PStream s)\<lparr>il_in_flight := Some (Pinger i)\<rparr>)"
| start: "il_tasks s i = PStream \<Longrightarrow> il_lock s = None \<Longrightarrow> il_open s \<Longrightarrow>
    ping_step i s ((put_task i (PExchange 0) s)\<lparr>il_lock := Some (Pinger i)\<rparr>)"
| no_stream: "il_tasks s i = PStream \<Longrightarrow> il_lock s = None \<Longrightarrow> \<not> il_open s \<Longrightarrow>
    ping_step i s ((release (Pinger i) (put_task i PDead s))\<lparr>il_stop := True\<rparr>)"
| ping_io: "il_tasks s i = PExchange k \<Longrightarrow> k < operations (Pinger i) \<Longrightarrow>
    ping_step i s ((put_task i (PExchange (Suc k)) s)\<lparr>il_log := il_log s @ [(Pinger i, k)]\<rparr>)"
| pong: "il_tasks s i = PExchange (operations (Pinger i)) \<Longrightarrow>
    ping_step i s (release (Pinger i) (put_task i PSleep s))"
| ping_failed: "il_tasks s i = PExchange k \<Longrightarrow>
    ping_step i s ((release (Pinger i) (drop_stream (put_task i PDead s)))\<lparr>il_stop := True\<rparr>)"

text \<open>
  When a task may step: the one whose handle the client holds, but on a single thread not while the
  client runs from storing a stream to restarting the task; an aborted one only on another thread, and
  not past its sleep. An aborted task is dropped at any time.
\<close>

definition may_run :: "usage \<Rightarrow> nat \<Rightarrow> interleaving \<Rightarrow> bool" where
  "may_run U i s \<longleftrightarrow>
     (if il_handle s = Some i then us_parallel U \<or> (\<forall>b. il_client s \<noteq> CStored b)
      else us_parallel U \<and> il_tasks s i \<noteq> PSleep)"

definition drop_task :: "nat \<Rightarrow> interleaving \<Rightarrow> interleaving" where
  "drop_task i s = release (Pinger i) (put_task i PDead s)"

definition task_step :: "usage \<Rightarrow> nat \<Rightarrow> interleaving \<Rightarrow> interleaving \<Rightarrow> bool" where
  "task_step U i s s' \<longleftrightarrow> may_run U i s \<and> ping_step i s s' \<or> il_handle s \<noteq> Some i \<and> s' = drop_task i s"

definition il_step :: "usage \<Rightarrow> interleaving \<Rightarrow> interleaving \<Rightarrow> bool" where
  "il_step U s s' \<longleftrightarrow> client_step U s s' \<or> (\<exists>i. task_step U i s s')"

definition il_start :: interleaving where
  "il_start = \<lparr>il_in_flight = None, il_lock = None, il_open = False, il_stop = False,
               il_client = CIdle, il_handle = None, il_tasks = (\<lambda>i. PDead), il_spawned = 0, il_log = []\<rparr>"

inductive il_reach :: "usage \<Rightarrow> interleaving \<Rightarrow> bool" for U where
  init: "il_reach U il_start"
| step: "il_reach U s \<Longrightarrow> il_step U s s' \<Longrightarrow> il_reach U s'"

subsection \<open>The invariant\<close>

text \<open>Each mutex is held exactly where the code holds it, whatever the application does.\<close>

fun pinging_now :: "ping_at \<Rightarrow> bool" where
  "pinging_now (PExchange k) = True"
| "pinging_now _ = False"

fun holds_lock :: "interleaving \<Rightarrow> owner \<Rightarrow> bool" where
  "holds_lock s Client = (case il_client s of CLook \<Rightarrow> True | CExchange k \<Rightarrow> True | _ \<Rightarrow> False)"
| "holds_lock s (Pinger i) = pinging_now (il_tasks s i)"

fun holds_flight :: "interleaving \<Rightarrow> owner \<Rightarrow> bool" where
  "holds_flight s Client = (case il_client s of CStream \<Rightarrow> True | CExchange k \<Rightarrow> True | _ \<Rightarrow> False)"
| "holds_flight s (Pinger i) = (il_tasks s i = PStream \<or> pinging_now (il_tasks s i))"

text \<open>How far an exchange is that needs the stream.\<close>

fun progress :: "interleaving \<Rightarrow> owner \<Rightarrow> nat option" where
  "progress s Client = (case il_client s of CExchange k \<Rightarrow> Some k | _ \<Rightarrow> None)"
| "progress s (Pinger i) = (case il_tasks s i of PExchange k \<Rightarrow> Some k | _ \<Rightarrow> None)"

definition mutex :: "'p option \<Rightarrow> ('p \<Rightarrow> bool) \<Rightarrow> bool" where
  "mutex h holds \<longleftrightarrow> (\<forall>p. h = Some p \<longleftrightarrow> holds p)"

definition locks_ok :: "interleaving \<Rightarrow> bool" where
  "locks_ok s \<longleftrightarrow> mutex (il_lock s) (holds_lock s) \<and> mutex (il_in_flight s) (holds_flight s) \<and>
     (\<forall>p k. progress s p = Some k \<longrightarrow> il_open s \<and> k \<le> operations p) \<and>
     (\<forall>i. il_spawned s \<le> i \<longrightarrow> il_tasks s i = PDead)"

lemma pinging_now_iff: "pinging_now p \<longleftrightarrow> (\<exists>k. p = PExchange k)"
  by (cases p) simp_all

text \<open>A step of one process keeps a mutex in order if it leaves it alone, takes it free, or lets it go.\<close>

lemma mutex_step:
  assumes "mutex h f" "\<And>q. q \<noteq> p \<Longrightarrow> f' q = f q"
    and "h' = h \<and> f' p = f p \<or> h' = Some p \<and> f' p \<and> h = None \<or> h' = (if h = Some p then None else h) \<and> \<not> f' p"
  shows "mutex h' f'"
  using assms unfolding mutex_def by (metis option.distinct(1) option.inject)

lemma mutexD: "mutex h f \<Longrightarrow> f p \<Longrightarrow> h = Some p" "mutex h f \<Longrightarrow> h = Some p \<Longrightarrow> f p"
  by (auto simp: mutex_def)

lemma release_lock: "il_lock (release p s) = (if il_lock s = Some p then None else il_lock s)"
  "il_in_flight (release p s) = (if il_in_flight s = Some p then None else il_in_flight s)"
  by (simp_all add: release_def)

lemmas il_defs = release_def stop_ping_def drop_stream_def put_task_def start_ping_def drop_task_def

lemma release_simps [simp]:
  "il_log (release p s) = il_log s" "il_open (release p s) = il_open s" "il_stop (release p s) = il_stop s"
  "il_client (release p s) = il_client s" "il_tasks (release p s) = il_tasks s" "il_handle (release p s) = il_handle s"
  "il_spawned (release p s) = il_spawned s"
  by (simp_all add: release_def)

lemma stop_ping_simps [simp]:
  "il_log (stop_ping s) = il_log s" "il_open (stop_ping s) = il_open s" "il_stop (stop_ping s) = True"
  "il_client (stop_ping s) = il_client s" "il_tasks (stop_ping s) = il_tasks s" "il_handle (stop_ping s) = None"
  "il_lock (stop_ping s) = il_lock s" "il_in_flight (stop_ping s) = il_in_flight s"
  "il_spawned (stop_ping s) = il_spawned s"
  by (simp_all add: stop_ping_def)

lemma drop_stream_simps [simp]:
  "il_log (drop_stream s) = []" "il_open (drop_stream s) = False" "il_stop (drop_stream s) = il_stop s"
  "il_client (drop_stream s) = il_client s" "il_tasks (drop_stream s) = il_tasks s" "il_handle (drop_stream s) = il_handle s"
  "il_lock (drop_stream s) = il_lock s" "il_in_flight (drop_stream s) = il_in_flight s"
  "il_spawned (drop_stream s) = il_spawned s"
  by (simp_all add: drop_stream_def)

lemma put_task_simps [simp]:
  "il_log (put_task i p s) = il_log s" "il_open (put_task i p s) = il_open s" "il_stop (put_task i p s) = il_stop s"
  "il_client (put_task i p s) = il_client s" "il_tasks (put_task i p s) = (il_tasks s)(i := p)"
  "il_handle (put_task i p s) = il_handle s" "il_lock (put_task i p s) = il_lock s"
  "il_in_flight (put_task i p s) = il_in_flight s" "il_spawned (put_task i p s) = il_spawned s"
  by (simp_all add: put_task_def)

lemma start_ping_simps [simp]:
  "il_log (start_ping s) = il_log s" "il_open (start_ping s) = il_open s" "il_stop (start_ping s) = False"
  "il_client (start_ping s) = il_client s" "il_tasks (start_ping s) = (il_tasks s)(il_spawned s := PSleep)"
  "il_handle (start_ping s) = Some (il_spawned s)" "il_lock (start_ping s) = il_lock s"
  "il_in_flight (start_ping s) = il_in_flight s" "il_spawned (start_ping s) = Suc (il_spawned s)"
  by (simp_all add: start_ping_def)

lemma drop_task_simps [simp]:
  "il_log (drop_task i s) = il_log s" "il_open (drop_task i s) = il_open s" "il_stop (drop_task i s) = il_stop s"
  "il_client (drop_task i s) = il_client s" "il_tasks (drop_task i s) = (il_tasks s)(i := PDead)"
  "il_handle (drop_task i s) = il_handle s" "il_spawned (drop_task i s) = il_spawned s"
  by (simp_all add: drop_task_def)

text \<open>What a step leaves alone: the other processes.\<close>

lemma client_step_others:
  assumes "client_step U s s'" "\<forall>i. il_spawned s \<le> i \<longrightarrow> il_tasks s i = PDead" "q \<noteq> Client"
  shows "holds_lock s' q = holds_lock s q \<and> holds_flight s' q = holds_flight s q \<and> progress s' q = progress s q"
  using assms by (induction rule: client_step.induct) (cases q; simp)+

lemma ping_step_others:
  assumes "ping_step i s s'" "q \<noteq> Pinger i"
  shows "holds_lock s' q = holds_lock s q \<and> holds_flight s' q = holds_flight s q \<and> progress s' q = progress s q"
  using assms by (induction rule: ping_step.induct) (cases q; simp)+

text \<open>What it does with the mutexes.\<close>

definition moves_mutex :: "'p \<Rightarrow> 'p option \<Rightarrow> bool \<Rightarrow> 'p option \<Rightarrow> bool \<Rightarrow> bool" where
  "moves_mutex p h b h' b' \<longleftrightarrow> h' = h \<and> b' = b \<or> h' = Some p \<and> b' \<and> h = None \<or> h' = (if h = Some p then None else h) \<and> \<not> b'"

lemma client_step_mutexes:
  assumes "client_step U s s'" "holds_lock s Client \<longrightarrow> il_lock s = Some Client" "holds_flight s Client \<longrightarrow> il_in_flight s = Some Client"
  shows "moves_mutex Client (il_lock s) (holds_lock s Client) (il_lock s') (holds_lock s' Client) \<and>
    moves_mutex Client (il_in_flight s) (holds_flight s Client) (il_in_flight s') (holds_flight s' Client)"
  using assms by (induction rule: client_step.induct) (auto simp: moves_mutex_def release_lock)

lemma ping_step_mutexes:
  assumes "ping_step i s s'" "holds_lock s (Pinger i) \<longrightarrow> il_lock s = Some (Pinger i)"
    "holds_flight s (Pinger i) \<longrightarrow> il_in_flight s = Some (Pinger i)"
  shows "moves_mutex (Pinger i) (il_lock s) (holds_lock s (Pinger i)) (il_lock s') (holds_lock s' (Pinger i)) \<and>
    moves_mutex (Pinger i) (il_in_flight s) (holds_flight s (Pinger i)) (il_in_flight s') (holds_flight s' (Pinger i))"
  using assms by (induction rule: ping_step.induct) (auto simp: moves_mutex_def release_lock)

lemma locks_ok_by:
  assumes "locks_ok s"
    and "\<And>q. q \<noteq> p \<Longrightarrow> holds_lock s' q = holds_lock s q \<and> holds_flight s' q = holds_flight s q \<and> progress s' q = progress s q"
    and "moves_mutex p (il_lock s) (holds_lock s p) (il_lock s') (holds_lock s' p) \<and>
      moves_mutex p (il_in_flight s) (holds_flight s p) (il_in_flight s') (holds_flight s' p)"
    and "\<And>k. progress s' p = Some k \<Longrightarrow> il_open s' \<and> k \<le> operations p"
    and "il_open s \<Longrightarrow> \<not> il_open s' \<Longrightarrow> \<forall>q. q \<noteq> p \<longrightarrow> progress s q = None"
    and "\<And>i. il_spawned s' \<le> i \<Longrightarrow> il_tasks s' i = PDead"
  shows "locks_ok s'"
  unfolding locks_ok_def
proof (intro conjI allI impI)
  note ok = assms(1) [unfolded locks_ok_def]
  show "mutex (il_lock s') (holds_lock s')"
    by (rule mutex_step [where p = p]) (use ok assms(2,3) in \<open>auto simp: moves_mutex_def\<close>)
  show "mutex (il_in_flight s') (holds_flight s')"
    by (rule mutex_step [where p = p]) (use ok assms(2,3) in \<open>auto simp: moves_mutex_def\<close>)
  show "il_open s'" "k \<le> operations q" if "progress s' q = Some k" for q k
    using that assms(2,4,5) ok by (cases "q = p"; fastforce)+
qed (rule assms(6))

text \<open>Whoever is in the middle of an exchange holds the lock, so there is only one.\<close>

lemma progress_locked: "locks_ok s \<Longrightarrow> progress s p = Some k \<Longrightarrow> il_lock s = Some p"
  by (cases p) (auto simp: locks_ok_def dest!: mutexD(1) [of _ _ p] split: client_at.splits ping_at.splits)

lemma exchanging:
  assumes "locks_ok s"
  shows "il_tasks s i = PExchange k \<Longrightarrow>
      il_lock s = Some (Pinger i) \<and> il_in_flight s = Some (Pinger i) \<and> il_open s \<and> k \<le> operations (Pinger i)"
    and "il_client s = CExchange k \<Longrightarrow>
      il_lock s = Some Client \<and> il_in_flight s = Some Client \<and> il_open s \<and> k \<le> operations Client"
proof -
  note ok = assms [unfolded locks_ok_def]
  from ok have "\<forall>p k. progress s p = Some k \<longrightarrow> il_open s \<and> k \<le> operations p" "mutex (il_in_flight s) (holds_flight s)"
    by simp_all
  then have all: "progress s p = Some k \<Longrightarrow> il_open s \<and> k \<le> operations p" "holds_flight s p \<Longrightarrow> il_in_flight s = Some p" for p
    by (simp_all add: mutexD(1))
  show "il_tasks s i = PExchange k \<Longrightarrow>
      il_lock s = Some (Pinger i) \<and> il_in_flight s = Some (Pinger i) \<and> il_open s \<and> k \<le> operations (Pinger i)"
    using progress_locked [OF assms, of "Pinger i" k] all [of "Pinger i"] by simp
  show "il_client s = CExchange k \<Longrightarrow>
      il_lock s = Some Client \<and> il_in_flight s = Some Client \<and> il_open s \<and> k \<le> operations Client"
    using progress_locked [OF assms, of Client k] all [of Client] by simp
qed

lemma closing_step:
  "client_step U s s' \<Longrightarrow> il_open s \<Longrightarrow> \<not> il_open s' \<Longrightarrow> il_lock s = None \<or> progress s Client \<noteq> None"
  by (induction rule: client_step.induct) auto

lemma locks_ok_client:
  assumes step: "client_step U s s'" and "locks_ok s"
  shows "locks_ok s'"
proof (rule locks_ok_by [OF assms(2), where p = Client])
  note ok = assms(2) [unfolded locks_ok_def]
  show "holds_lock s' q = holds_lock s q \<and> holds_flight s' q = holds_flight s q \<and> progress s' q = progress s q" if "q \<noteq> Client" for q
    using client_step_others [OF step _ that] ok by blast
  show "moves_mutex Client (il_lock s) (holds_lock s Client) (il_lock s') (holds_lock s' Client) \<and>
      moves_mutex Client (il_in_flight s) (holds_flight s Client) (il_in_flight s') (holds_flight s' Client)"
    by (rule client_step_mutexes [OF step]) (use ok mutexD(1) in \<open>metis+\<close>)
  show "il_open s' \<and> k \<le> operations Client" if "progress s' Client = Some k" for k
  proof -
    have "\<forall>k. progress s Client = Some k \<longrightarrow> il_open s" using ok by blast
    with step that show ?thesis by (induction rule: client_step.induct) (auto split: if_splits)
  qed
  show "\<forall>q. q \<noteq> Client \<longrightarrow> progress s q = None" if "il_open s" "\<not> il_open s'"
    using closing_step [OF step that] progress_locked [OF assms(2)] by (metis option.distinct(1) option.inject not_Some_eq)
  show "il_tasks s' i = PDead" if "il_spawned s' \<le> i" for i
    using step ok that by (induction rule: client_step.induct) simp_all
qed

lemma locks_ok_ping:
  assumes step: "ping_step i s s'" and "locks_ok s"
  shows "locks_ok s'"
proof (rule locks_ok_by [OF assms(2) ping_step_others [OF step]])
  note ok = assms(2) [unfolded locks_ok_def]
  show "moves_mutex (Pinger i) (il_lock s) (holds_lock s (Pinger i)) (il_lock s') (holds_lock s' (Pinger i)) \<and>
      moves_mutex (Pinger i) (il_in_flight s) (holds_flight s (Pinger i)) (il_in_flight s') (holds_flight s' (Pinger i))"
    by (rule ping_step_mutexes [OF step]) (use ok mutexD(1) in \<open>metis+\<close>)
  show "il_open s' \<and> k \<le> operations (Pinger i)" if "progress s' (Pinger i) = Some k" for k
  proof -
    have "\<forall>k. progress s (Pinger i) = Some k \<longrightarrow> il_open s" using ok by blast
    with step that show ?thesis by (induction rule: ping_step.induct) auto
  qed
  show "\<forall>q. q \<noteq> Pinger i \<longrightarrow> progress s q = None" if "il_open s" "\<not> il_open s'"
  proof -
    from step that have "progress s (Pinger i) \<noteq> None" by (induction rule: ping_step.induct) auto
    with progress_locked [OF assms(2)] show ?thesis by (metis option.inject not_Some_eq)
  qed
  show "il_tasks s' j = PDead" if "il_spawned s' \<le> j" for j
    using step ok that by (induction rule: ping_step.induct) auto
qed

lemma locks_ok_drop:
  assumes "locks_ok s"
  shows "locks_ok (drop_task i s)"
proof (rule locks_ok_by [OF assms, where p = "Pinger i"])
  note ok = assms [unfolded locks_ok_def]
  show "holds_lock (drop_task i s) q = holds_lock s q \<and> holds_flight (drop_task i s) q = holds_flight s q \<and>
      progress (drop_task i s) q = progress s q" if "q \<noteq> Pinger i" for q
    using that by (cases q) simp_all
qed (use assms in \<open>auto simp: locks_ok_def moves_mutex_def drop_task_def release_lock\<close>)

lemma reach_locks_ok: "il_reach U s \<Longrightarrow> locks_ok s"
proof (induction rule: il_reach.induct)
  case init
  have "\<not> holds_lock il_start p \<and> \<not> holds_flight il_start p \<and> progress il_start p = None" for p
    by (cases p) (simp_all add: il_start_def)
  then show ?case by (simp add: locks_ok_def mutex_def) (simp add: il_start_def)
next
  case (step s s')
  then show ?case unfolding il_step_def task_step_def by (blast intro: locks_ok_client locks_ok_ping locks_ok_drop)
qed


text \<open>What an exchange of a process has done so far on the stream, and the exchanges as a whole.\<close>

definition exchange :: "owner \<times> nat \<Rightarrow> (owner \<times> nat) list" where
  "exchange = (\<lambda>(p, n). map (Pair p) [0..<n])"

definition going_on :: "interleaving \<Rightarrow> (owner \<times> nat) list" where
  "going_on s = (case il_lock s of None \<Rightarrow> [] | Some p \<Rightarrow>
     (case progress s p of None \<Rightarrow> [] | Some k \<Rightarrow> exchange (p, k)))"

definition finished :: "owner \<times> nat \<Rightarrow> bool" where
  "finished = (\<lambda>(p, n). n = operations p \<or> p = Client \<and> Suc n = operations p)"

lemma going_on_progress:
  assumes "locks_ok s"
  shows "progress s p = Some k \<Longrightarrow> going_on s = exchange (p, k)" and "(\<And>p. progress s p = None) \<Longrightarrow> going_on s = []"
  using progress_locked [OF assms, of p k] by (auto simp: going_on_def split: option.split)

lemma exchange_Suc: "exchange (p, Suc k) = exchange (p, k) @ [(p, k)]"
  by (simp add: exchange_def)

lemma exchange_0 [simp]: "exchange (p, 0) = []"
  by (simp add: exchange_def)

text \<open>
  An application that lets its futures finish and connects only when there is no stream, on a runtime
  of one thread. Its task is over, or aborted, whenever there is no stream or the client is about to
  store or to close one; an aborted task that is still in the middle of an exchange is in the way of a
  client that closes the stream, and of nobody else.
\<close>

definition patient :: usage where
  "patient = \<lparr>us_cancels = False, us_reconnects = False, us_parallel = False\<rparr>"

lemma patient_simps [simp]: "\<not> us_cancels patient" "\<not> us_reconnects patient" "\<not> us_parallel patient"
  by (simp_all add: patient_def)

definition task_over :: "interleaving \<Rightarrow> bool" where
  "task_over s \<longleftrightarrow> (case il_handle s of None \<Rightarrow> True | Some i \<Rightarrow> il_tasks s i = PDead)"

definition settled :: "interleaving \<Rightarrow> bool" where
  "settled s \<longleftrightarrow>
     (\<not> il_open s \<or> (\<exists>b. il_client s = CConnect b) \<or> (\<exists>b. il_client s = CStored b) \<or> il_client s = CClose \<longrightarrow> task_over s) \<and>
     ((\<exists>b. il_client s = CConnect b) \<longrightarrow> \<not> il_open s) \<and> ((\<exists>b. il_client s = CStored b) \<longrightarrow> il_open s) \<and>
     (il_client s \<noteq> CClose \<longrightarrow> (\<forall>i. pinging_now (il_tasks s i) \<longrightarrow> il_handle s = Some i))"

lemma settled_client:
  assumes "client_step patient s s'" "locks_ok s" "settled s"
  shows "settled s'"
proof -
  have "\<forall>i. pinging_now (il_tasks s i) \<longrightarrow> il_lock s = Some (Pinger i) \<and> il_open s"
    "\<forall>k. il_client s = CExchange k \<longrightarrow> il_lock s = Some Client \<and> il_open s"
    using exchanging [OF assms(2)] by (auto simp: pinging_now_iff)
  with assms(1,3) show ?thesis
    by (induction rule: client_step.induct, simp_all add: settled_def)
       (auto simp: task_over_def split: option.splits)
qed

lemma settled_ping:
  assumes "ping_step i s s'" "il_handle s = Some i" "\<forall>b. il_client s \<noteq> CStored b" "locks_ok s" "settled s"
  shows "settled s'"
proof -
  have "\<forall>j. pinging_now (il_tasks s j) \<longrightarrow> il_lock s = Some (Pinger j)"
    using exchanging(1) [OF assms(4)] by (auto simp: pinging_now_iff)
  with assms(1-3,5) show ?thesis
    by (induction rule: ping_step.induct, simp_all add: settled_def)
       (auto simp: task_over_def)
qed

lemma settled_drop: "settled s \<Longrightarrow> il_handle s \<noteq> Some i \<Longrightarrow> settled (drop_task i s)"
  by (auto simp: settled_def task_over_def split: option.splits)

lemma reach_patient: "il_reach patient s \<Longrightarrow> locks_ok s \<and> settled s"
proof (induction rule: il_reach.induct)
  case init
  then show ?case using reach_locks_ok [OF il_reach.init] by (simp add: settled_def task_over_def il_start_def)
next
  case (step s s')
  then show ?case
    unfolding il_step_def task_step_def may_run_def
    by (auto split: if_splits
        intro: locks_ok_client locks_ok_ping locks_ok_drop settled_client settled_ping settled_drop)
qed


subsection \<open>Runs\<close>

text \<open>Steps of either process, to follow a run.\<close>

lemma reach_client: "il_reach U s \<Longrightarrow> client_step U s s' \<Longrightarrow> s' = t \<Longrightarrow> il_reach U t"
  by (auto simp: il_step_def intro: il_reach.step)

lemma reach_task: "il_reach U s \<Longrightarrow> ping_step i s s' \<Longrightarrow> may_run U i s \<Longrightarrow> s' = t \<Longrightarrow> il_reach U t"
  unfolding il_step_def task_step_def using il_reach.step il_step_def task_step_def by blast

lemma reach_drop: "il_reach U s \<Longrightarrow> il_handle s \<noteq> Some i \<Longrightarrow> drop_task i s = t \<Longrightarrow> il_reach U t"
  unfolding il_step_def task_step_def using il_reach.step il_step_def task_step_def by blast

text \<open>An open stream and the task \<open>n\<close>, all earlier ones being over.\<close>

abbreviation il_at ::
  "nat \<Rightarrow> owner option \<Rightarrow> owner option \<Rightarrow> client_at \<Rightarrow> ping_at \<Rightarrow> (owner \<times> nat) list \<Rightarrow> interleaving" where
  "il_at n fl lk c p lg \<equiv>
     \<lparr>il_in_flight = fl, il_lock = lk, il_open = True, il_stop = False, il_client = c, il_handle = Some n,
      il_tasks = (\<lambda>i. PDead)(n := p), il_spawned = Suc n, il_log = lg\<rparr>"

text \<open>A client that has connected for the first time, with its ping task started.\<close>

lemma reach_connected: "il_reach U (il_at 0 None None CIdle PSleep [])"
proof -
  have "il_reach U (il_start\<lparr>il_client := CConnect False\<rparr>)"
    by (rule reach_client [OF il_reach.init client_step.reconnect]) (simp_all add: il_start_def)
  then have "il_reach U (il_start\<lparr>il_client := CStored False, il_open := True\<rparr>)"
    by (rule reach_client [OF _ client_step.store [where b = False]]) (simp_all add: il_start_def)
  then show ?thesis
    by (rule reach_client [OF _ client_step.restart [where b = False]]) (simp_all add: il_start_def il_defs)
qed

text \<open>A call that finds the stream free and makes the first operation of its exchange.\<close>

lemma reach_exchange:
  assumes "il_reach U (il_at n None None CFlight PSleep lg)"
  shows "il_reach U (il_at n (Some Client) (Some Client) (CExchange 1) PSleep (lg @ [(Client, 0)]))"
proof -
  from assms have "il_reach U (il_at n (Some Client) None CStream PSleep lg)"
    by (rule reach_client [OF _ client_step.flight]) simp_all
  then have "il_reach U (il_at n (Some Client) (Some Client) (CExchange 0) PSleep lg)"
    by (rule reach_client [OF _ client_step.stream]) simp_all
  then show ?thesis
    by (rule reach_client [OF _ client_step.io [where k = 0]]) simp_all
qed

lemma reach_call:
  assumes "il_reach U (il_at n None None CIdle p lg)"
  shows "il_reach U (il_at n None None CFlight p lg)"
proof -
  from assms have "il_reach U (il_at n None (Some Client) CLook p lg)"
    by (rule reach_client [OF _ client_step.look]) simp_all
  then show ?thesis by (rule reach_client [OF _ client_step.reuse]) simp_all
qed

lemmas reach_message = reach_exchange [OF reach_call]

text \<open>A task that starts a ping and makes its first operation.\<close>

lemma reach_claim:
  assumes "il_reach U (il_at n None None CIdle PSleep lg)"
  shows "il_reach U (il_at n (Some (Pinger n)) None CIdle PStream lg)"
proof -
  from assms have "il_reach U (il_at n None None CIdle PAwake lg)"
    by (rule reach_task [OF _ ping_step.wake [where i = n]]) (simp_all add: put_task_def may_run_def)
  then show ?thesis
    by (rule reach_task [OF _ ping_step.claim [where i = n]]) (simp_all add: put_task_def may_run_def)
qed

subsection \<open>Waiting\<close>

text \<open>How many steps a ping task is away from releasing \<open>in_flight\<close>.\<close>

fun ping_left :: "ping_at \<Rightarrow> nat" where
  "ping_left (PExchange k) = 3 - k"
| "ping_left PStream = 4"
| "ping_left _ = 0"

lemma mutex_free: "mutex h holds \<Longrightarrow> (\<And>p. \<not> holds p) \<Longrightarrow> h = None"
  by (cases h) (auto simp: mutex_def)

lemma client_waits:
  assumes "locks_ok s" "\<nexists>s'. client_step patient s s'"
  shows "\<exists>i. il_in_flight s = Some (Pinger i)"
proof (rule ccontr)
  assume "\<nexists>i. il_in_flight s = Some (Pinger i)"
  moreover have "mutex (il_lock s) (holds_lock s)" "mutex (il_in_flight s) (holds_flight s)"
    using assms(1) by (simp_all add: locks_ok_def)
  ultimately have free: "\<not> holds_flight s (Pinger i)" "\<not> holds_lock s (Pinger i)" for i
    using mutexD(1) by (metis, metis holds_flight.simps(2) holds_lock.simps(2))
  have none: "\<not> holds_lock s Client \<Longrightarrow> il_lock s = None" "\<not> holds_flight s Client \<Longrightarrow> il_in_flight s = None"
    using mutex_free [of "il_lock s" "holds_lock s"] mutex_free [of "il_in_flight s" "holds_flight s"] free assms(1)
    by (metis locks_ok_def owner.exhaust)+
  have "\<exists>s'. client_step patient s s'"
  proof (cases "il_client s")
    case CIdle
    then show ?thesis by (blast intro: client_step.disconnect)
  next
    case CLook
    then show ?thesis by (cases "il_open s") (blast intro: client_step.reuse client_step.missing)+
  next
    case CConnect
    then show ?thesis by (blast intro: client_step.connect_fails)
  next
    case CStored
    then show ?thesis by (blast intro: client_step.restart)
  next
    case CFlight
    with none show ?thesis by (auto intro: client_step.flight)
  next
    case CStream
    with none show ?thesis by (cases "il_open s") (auto intro: client_step.stream client_step.gone)
  next
    case CExchange
    then show ?thesis by (blast intro: client_step.failed)
  next
    case CClose
    with none show ?thesis by (auto intro: client_step.closed)
  qed
  with assms(2) show False ..
qed

lemma pinger_releases:
  assumes "locks_ok s" "il_in_flight s = Some (Pinger i)" "task_step U i s s'"
  shows "il_in_flight s' = None \<or> ping_left (il_tasks s' i) < ping_left (il_tasks s i)"
proof -
  have "holds_flight s (Pinger i)" "\<forall>k. il_tasks s i = PExchange k \<longrightarrow> k \<le> 2"
    using assms(1,2) exchanging(1) [OF assms(1), of i] by (auto simp: locks_ok_def dest: mutexD(2))
  moreover have "?thesis" if "ping_step i s s'"
    using that calculation assms(2) by (cases rule: ping_step.cases) (auto simp: release_lock)
  ultimately show ?thesis
    using assms(2,3) by (auto simp: task_step_def drop_task_def release_lock)
qed


subsection \<open>Properties of the interleaving\<close>

text \<open>One exchange at a time. However a client and its ping tasks interleave, and whatever the
  application cancels or reconnects, no two of them are ever both in the middle of an
  exchange; and each holds the mutexes it needs while it is.\<close>

theorem one_exchange_at_a_time:
  assumes "il_reach U s"
  shows "(\<forall>p q k j. progress s p = Some k \<and> progress s q = Some j \<longrightarrow> p = q) \<and>
    (\<forall>k. il_client s = CExchange k \<longrightarrow> il_in_flight s = Some Client \<and> il_lock s = Some Client \<and> il_open s) \<and>
    (\<forall>i k. il_tasks s i = PExchange k \<longrightarrow> il_in_flight s = Some (Pinger i) \<and> il_lock s = Some (Pinger i) \<and> il_open s)"
  using progress_locked [OF reach_locks_ok [OF assms]] exchanging [OF reach_locks_ok [OF assms]]
  by (metis option.inject)

theorem one_exchange_at_a_time_witness:
  "il_in_flight (il_at 0 (Some Client) (Some Client) (CExchange 1) PSleep [(Client, 0)]) = Some Client"
  using one_exchange_at_a_time [OF reach_message [OF reach_connected]] by simp

text \<open>
  The steps that are bound to come: all but those of a task in its write. The mutexes it needs are
  free, its read has a timeout, and the runtime drops it once it is aborted; its write has no timeout.
\<close>

definition sure_step :: "usage \<Rightarrow> nat \<Rightarrow> interleaving \<Rightarrow> interleaving \<Rightarrow> bool" where
  "sure_step U i s s' \<longleftrightarrow> task_step U i s s' \<and> \<not> (il_handle s = Some i \<and> il_tasks s i = PExchange 0)"

lemma waited_task:
  assumes "locks_ok s" "il_in_flight s = Some (Pinger i)" "\<nexists>s'. client_step patient s s'"
  shows "il_handle s = Some i \<and> il_tasks s i = PExchange 0 \<or> (\<exists>s'. sure_step U i s s')"
proof (cases "il_handle s = Some i")
  case False
  then show ?thesis by (auto simp: sure_step_def task_step_def)
next
  case True
  from assms(3) have "\<forall>b. il_client s \<noteq> CStored b" by (blast intro: client_step.restart)
  then have run: "may_run U i s" using True by (simp add: may_run_def)
  have "holds_flight s (Pinger i)" using assms(1,2) by (auto simp: locks_ok_def dest: mutexD(2))
  then consider "il_tasks s i = PStream" | "il_tasks s i = PExchange 0" | k where "il_tasks s i = PExchange (Suc k)"
    by (auto simp: pinging_now_iff) (metis not0_implies_Suc)
  then show ?thesis
  proof cases
    case 1
    have "\<not> holds_lock s p" for p
    proof (cases p)
      case Client
      have "\<not> holds_lock s Client"
        using assms(3) by (cases "il_client s"; cases "il_open s")
          (auto intro: client_step.reuse client_step.missing client_step.failed)
      with Client show ?thesis by simp
    next
      case (Pinger j)
      then show ?thesis
        using exchanging(1) [OF assms(1), of j] assms(2) 1 by (auto simp: pinging_now_iff)
    qed
    then have "il_lock s = None" using assms(1) by (auto simp: locks_ok_def intro: mutex_free)
    then have "\<exists>s'. ping_step i s s'" using 1 by (cases "il_open s") (blast intro: ping_step.start ping_step.no_stream)+
    with run 1 show ?thesis by (auto simp: sure_step_def task_step_def)
  next
    case 3
    then have "\<exists>s'. ping_step i s s'" by (blast intro: ping_step.ping_failed)
    with run 3 show ?thesis by (auto simp: sure_step_def task_step_def)
  qed (use True in simp)
qed

text \<open>C22: what a client can wait for. A client in the middle of a call can go on, or it waits for a ping task
  that holds \<open>in_flight\<close>. Every step of that task releases the mutex or brings it closer to that, and a
  step is bound to come, the runtime dropping an aborted task, unless the task is in its write, the
  one wait without a timeout. The exception is real: a patient client can get to wait for the write of a
  ping, having no step of its own while the peer does not take the ping's bytes.\<close>

theorem client_waits_for_ping_write:
  "(\<forall>s. il_reach U s \<longrightarrow> (\<exists>s'. client_step patient s s') \<or>
      (\<exists>i. il_in_flight s = Some (Pinger i) \<and>
         (\<forall>s'. task_step U i s s' \<longrightarrow> il_in_flight s' = None \<or> ping_left (il_tasks s' i) < ping_left (il_tasks s i)) \<and>
         ((\<exists>s'. sure_step U i s s') \<or> il_handle s = Some i \<and> il_tasks s i = PExchange 0))) \<and>
   (\<exists>s. il_reach patient s \<and> il_client s = CFlight \<and> (\<nexists>s'. client_step patient s s') \<and>
      il_in_flight s = Some (Pinger 0) \<and> (\<nexists>s'. sure_step patient 0 s s'))"
proof (intro conjI allI impI)
  fix s assume "il_reach U s"
  note locks = reach_locks_ok [OF this]
  show "(\<exists>s'. client_step patient s s') \<or>
      (\<exists>i. il_in_flight s = Some (Pinger i) \<and>
         (\<forall>s'. task_step U i s s' \<longrightarrow> il_in_flight s' = None \<or> ping_left (il_tasks s' i) < ping_left (il_tasks s i)) \<and>
         ((\<exists>s'. sure_step U i s s') \<or> il_handle s = Some i \<and> il_tasks s i = PExchange 0))"
  proof (cases "\<exists>s'. client_step patient s s'")
    case stuck: False
    from client_waits [OF locks stuck] obtain i where flight: "il_in_flight s = Some (Pinger i)" by blast
    with waited_task [OF locks flight stuck, of U] pinger_releases [OF locks flight]
    show ?thesis by blast
  qed simp
next
  let ?s = "il_at 0 (Some (Pinger 0)) (Some (Pinger 0)) CFlight (PExchange 0) []"
  from reach_claim [OF reach_connected]
  have "il_reach patient (il_at 0 (Some (Pinger 0)) (Some Client) CLook PStream [])"
    by (rule reach_client [OF _ client_step.look]) simp_all
  then have "il_reach patient (il_at 0 (Some (Pinger 0)) None CFlight PStream [])"
    by (rule reach_client [OF _ client_step.reuse]) simp_all
  then have "il_reach patient ?s"
    by (rule reach_task [OF _ ping_step.start [where i = 0]]) (simp_all add: put_task_def may_run_def)
  moreover have "\<nexists>s'. client_step patient ?s s'" by (auto elim: client_step.cases)
  ultimately show "\<exists>s. il_reach patient s \<and> il_client s = CFlight \<and> (\<nexists>s'. client_step patient s s') \<and>
      il_in_flight s = Some (Pinger 0) \<and> (\<nexists>s'. sure_step patient 0 s s')"
    by (intro exI [of _ ?s]) (simp add: sure_step_def)
qed

theorem client_waits_for_ping_write_witness:
  "\<exists>s'. client_step patient (il_at 0 None None CIdle PSleep []) s'"
  using client_waits_for_ping_write [of patient] reach_connected [of patient] by fastforce

text \<open>C23: dropping the future of a call is not safe. The stream of a call that was cancelled in the middle
  of its exchange is still there, and the next call begins its own exchange behind the unfinished one.\<close>

theorem cancelled_call_corrupts_stream:
  "\<exists>s. il_reach \<lparr>us_cancels = True, us_reconnects = False, us_parallel = False\<rparr> s \<and>
     il_client s = CExchange 1 \<and> il_log s = [(Client, 0), (Client, 0)]"
proof -
  let ?U = "\<lparr>us_cancels = True, us_reconnects = False, us_parallel = False\<rparr>"
  from reach_message [OF reach_connected]
  have "il_reach ?U (il_at 0 None None CIdle PSleep [(Client, 0)])"
    by (rule reach_client [OF _ client_step.cancel]) (simp_all add: il_defs)
  from reach_message [OF this] show ?thesis by force
qed

text \<open>C24: connecting again while there is a stream is not safe either. Between the moment the new stream
  is stored and the moment the old ping task is aborted, that task can, on another thread, begin a ping
  on the new stream; the abort leaves it unfinished, and the first message follows behind it.\<close>

theorem reconnecting_corrupts_stream:
  "\<exists>s. il_reach \<lparr>us_cancels = False, us_reconnects = True, us_parallel = True\<rparr> s \<and>
     il_client s = CExchange 1 \<and> il_log s = [(Pinger 0, 0), (Client, 0)]"
proof -
  let ?U = "\<lparr>us_cancels = False, us_reconnects = True, us_parallel = True\<rparr>"
  from reach_claim [OF reach_connected]
  have "il_reach ?U (il_at 0 (Some (Pinger 0)) None (CConnect False) PStream [])"
    by (rule reach_client [OF _ client_step.reconnect]) simp_all
  then have "il_reach ?U (il_at 0 (Some (Pinger 0)) None (CStored False) PStream [])"
    by (rule reach_client [OF _ client_step.store [where b = False]]) simp_all
  then have "il_reach ?U (il_at 0 (Some (Pinger 0)) (Some (Pinger 0)) (CStored False) (PExchange 0) [])"
    by (rule reach_task [OF _ ping_step.start [where i = 0]]) (simp_all add: put_task_def may_run_def)
  then have "il_reach ?U (il_at 0 (Some (Pinger 0)) (Some (Pinger 0)) (CStored False) (PExchange 1) [(Pinger 0, 0)])"
    by (rule reach_task [OF _ ping_step.ping_io [where i = 0 and k = 0]]) (simp_all add: put_task_def may_run_def)
  then have "il_reach ?U ((il_at 1 (Some (Pinger 0)) (Some (Pinger 0)) CIdle PSleep [(Pinger 0, 0)])
      \<lparr>il_tasks := (\<lambda>i. PDead)(0 := PExchange 1, 1 := PSleep)\<rparr>)"
    by (rule reach_client [OF _ client_step.restart [where b = False]]) (simp_all add: il_defs)
  then have "il_reach ?U (il_at 1 None None CIdle PSleep [(Pinger 0, 0)])"
    by (rule reach_drop [where i = 0]) (simp_all add: il_defs fun_eq_iff)
  from reach_message [OF this] show ?thesis by force
qed

text \<open>C25: on a runtime of several threads not even a patient application is safe. An abort does not wait: a
  task that was past its check of the stop flag when the client aborted it, after a failed exchange,
  and takes the free mutexes only then, can begin a ping on the stream of the next call; it is
  dropped while it waits for the answer, and the message follows behind its ping.\<close>

theorem aborted_task_corrupts_stream:
  "\<exists>s. il_reach \<lparr>us_cancels = False, us_reconnects = False, us_parallel = True\<rparr> s \<and>
     il_client s = CExchange 1 \<and> il_log s = [(Pinger 0, 0), (Client, 0)]"
proof -
  let ?U = "\<lparr>us_cancels = False, us_reconnects = False, us_parallel = True\<rparr>"
  let ?on = "\<lambda>fl lk c p q lg. (il_at 1 fl lk c q lg)\<lparr>il_tasks := (\<lambda>i. PDead)(0 := p, 1 := q)\<rparr>"
  let ?off = "\<lambda>fl c p. (il_at 0 fl None c p [])\<lparr>il_open := False, il_stop := True, il_handle := None\<rparr>"
  from reach_message [OF reach_connected]
  have "il_reach ?U (il_at 0 (Some Client) (Some Client) (CExchange 1) PAwake [(Client, 0)])"
    by (rule reach_task [OF _ ping_step.wake [where i = 0]]) (simp_all add: put_task_def may_run_def)
  then have "il_reach ?U (?off None CIdle PAwake)"
    by (rule reach_client [OF _ client_step.failed]) (simp_all add: il_defs)
  then have "il_reach ?U (?off (Some (Pinger 0)) CIdle PStream)"
    by (rule reach_task [OF _ ping_step.claim [where i = 0]]) (simp_all add: put_task_def may_run_def)
  then have "il_reach ?U (?off (Some (Pinger 0)) CLook PStream\<lparr>il_lock := Some Client\<rparr>)"
    by (rule reach_client [OF _ client_step.look]) simp_all
  then have "il_reach ?U (?off (Some (Pinger 0)) (CConnect True) PStream)"
    by (rule reach_client [OF _ client_step.missing]) simp_all
  then have "il_reach ?U (?off (Some (Pinger 0)) (CStored True) PStream\<lparr>il_open := True\<rparr>)"
    by (rule reach_client [OF _ client_step.store [where b = True]]) simp_all
  then have "il_reach ?U (?on (Some (Pinger 0)) None CFlight PStream PSleep [])"
    by (rule reach_client [OF _ client_step.restart [where b = True]]) (simp_all add: il_defs)
  then have "il_reach ?U (?on (Some (Pinger 0)) (Some (Pinger 0)) CFlight (PExchange 0) PSleep [])"
    by (rule reach_task [OF _ ping_step.start [where i = 0]]) (simp_all add: put_task_def may_run_def fun_eq_iff)
  then have "il_reach ?U (?on (Some (Pinger 0)) (Some (Pinger 0)) CFlight (PExchange 1) PSleep [(Pinger 0, 0)])"
    by (rule reach_task [OF _ ping_step.ping_io [where i = 0 and k = 0]]) (simp_all add: put_task_def may_run_def fun_eq_iff)
  then have "il_reach ?U (il_at 1 None None CFlight PSleep [(Pinger 0, 0)])"
    by (rule reach_drop [where i = 0]) (simp_all add: il_defs fun_eq_iff)
  from reach_exchange [OF this] show ?thesis by force
qed

end
