(* ===== verification/Atomic_Exchanges.thy ===== *)
theory Atomic_Exchanges
  imports Interleaving
begin

section \<open>Exchanges are atomic\<close>

text \<open>
  What the mutexes of the client are for, as a machine without them: a stream is there or not, and a
  message or a ping is one step on it, the whole exchange at once. The client and its ping task,
  interleaved operation by operation, simulate it: every step they make is such a step, or none. An
  exchange takes effect when its process leaves it; one that fails, or is cut off by closing the
  stream, is lost with the stream. An exchange is given by its process and its number of operations.
\<close>

record atomic =
  at_open :: bool
  at_exchanges :: "(owner \<times> nat) list"

definition lost :: atomic where
  "lost = \<lparr>at_open = False, at_exchanges = []\<rparr>"

inductive atomic_step :: "atomic \<Rightarrow> atomic \<Rightarrow> bool" where
  connect: "\<not> at_open a \<Longrightarrow> atomic_step a \<lparr>at_open = True, at_exchanges = []\<rparr>"
| exchange: "at_open a \<Longrightarrow> finished x \<Longrightarrow> atomic_step a (a\<lparr>at_exchanges := at_exchanges a @ [x]\<rparr>)"
| lose: "at_open a \<Longrightarrow> atomic_step a lost"

definition atomic_view :: "interleaving \<Rightarrow> atomic \<Rightarrow> bool" where
  "atomic_view s a \<longleftrightarrow>
     (if il_open s \<and> il_client s \<noteq> CClose
      then at_open a \<and> il_log s = concat (map exchange (at_exchanges a)) @ going_on s
      else a = lost)"

abbreviation simulated :: "interleaving \<Rightarrow> atomic \<Rightarrow> bool" where
  "simulated s' a \<equiv> \<exists>a'. (a' = a \<or> atomic_step a a') \<and> atomic_view s' a'"

lemma going_on_cong:
  assumes "locks_ok s" "locks_ok s'" "\<And>p. progress s' p = progress s p"
  shows "going_on s' = going_on s"
proof (cases "\<exists>p k. progress s p = Some k")
  case True
  then obtain p k where "progress s p = Some k" by blast
  with assms show ?thesis by (metis going_on_progress(1))
next
  case False
  then have "progress s p = None" for p by auto
  with assms show ?thesis by (metis going_on_progress(2))
qed

lemma going_on_one:
  assumes "locks_ok s" "progress s p = Some k"
  shows "going_on s = exchange (p, k)" "q \<noteq> p \<Longrightarrow> progress s q = None"
  using going_on_progress(1) [OF assms] progress_locked [OF assms(1)] assms(2)
  by (auto, metis not_Some_eq option.inject)

subsection \<open>The kinds of step\<close>

lemma simulated_same:
  assumes "atomic_view s a" "il_open s' = il_open s" "il_client s = CClose \<longleftrightarrow> il_client s' = CClose"
    and "il_log s' = il_log s" "il_open s \<Longrightarrow> going_on s' = going_on s"
  shows "simulated s' a"
  using assms by (auto simp: atomic_view_def)

lemma simulated_grows:
  assumes "atomic_view s a" "il_open s' = il_open s" "il_client s = CClose \<longleftrightarrow> il_client s' = CClose"
    and "il_log s' = il_log s @ [x]" "going_on s' = going_on s @ [x]"
  shows "simulated s' a"
  using assms by (auto simp: atomic_view_def)

lemma simulated_ends:
  assumes "atomic_view s a" "il_open s" "il_open s'" "il_client s \<noteq> CClose" "il_client s' \<noteq> CClose"
    and "il_log s' = il_log s" "going_on s = exchange x" "finished x" "going_on s' = []"
  shows "simulated s' a"
  using assms by (auto simp: atomic_view_def intro!: exI [of _ "a\<lparr>at_exchanges := at_exchanges a @ [x]\<rparr>"] atomic_step.exchange)

lemma simulated_lost:
  assumes "atomic_view s a" "\<not> il_open s' \<or> il_client s' = CClose"
  shows "simulated s' a"
  using assms by (auto simp: atomic_view_def intro!: exI [of _ lost] atomic_step.lose split: if_splits)

lemma simulated_connect:
  assumes "atomic_view s a" "\<not> il_open s" "il_open s'" "il_client s' \<noteq> CClose" "il_log s' = []" "going_on s' = []"
  shows "simulated s' a"
  using assms
  by (auto simp: atomic_view_def lost_def intro!: exI [of _ "\<lparr>at_open = True, at_exchanges = []\<rparr>"] atomic_step.connect)

subsection \<open>The simulation\<close>

lemma client_simulates:
  assumes step: "client_step patient s s'" and ok: "locks_ok s" "settled s" "atomic_view s a"
  shows "simulated s' a"
proof -
  have ok': "locks_ok s'" by (rule locks_ok_client [OF step ok(1)])
  have fresh: "\<forall>i. il_spawned s \<le> i \<longrightarrow> il_tasks s i = PDead" using ok(1) by (simp add: locks_ok_def)
  have others: "progress s' q = progress s q" if "q \<noteq> Client" for q
    using client_step_others [OF step fresh that] by simp
  have same: "simulated s' a" if "il_open s' = il_open s" "il_client s = CClose \<longleftrightarrow> il_client s' = CClose"
    "il_log s' = il_log s" "progress s' Client = progress s Client"
  proof (rule simulated_same [OF ok(3) that(1-3)])
    show "going_on s' = going_on s" by (rule going_on_cong [OF ok(1) ok']) (use others that(4) in metis)
  qed
  have quiet: "going_on s' = []" if "progress s Client = Some k" "progress s' Client = None" for k
  proof (rule going_on_progress(2) [OF ok'])
    show "progress s' p = None" for p
      using going_on_one(2) [OF ok(1) that(1), of p] others [of p] that(2) by (cases "p = Client") simp_all
  qed
  from step show ?thesis
  proof (cases rule: client_step.cases)
    case (store b)
    then have "\<not> il_open s" using ok(2) by (auto simp: settled_def)
    moreover have "progress s p = None" for p
      using store(3) progress_locked [OF ok(1), of p] by (cases "progress s p") auto
    then have "progress s' p = None" for p
      using others [of p] store(1) by (cases "p = Client") simp_all
    then have "going_on s' = []" by (rule going_on_progress(2) [OF ok'])
    ultimately show ?thesis using store by (intro simulated_connect [OF ok(3)]) simp_all
  next
    case (io k)
    then have "going_on s = exchange (Client, k)" "going_on s' = exchange (Client, Suc k)"
      using going_on_progress(1) [OF ok(1), of Client k] going_on_progress(1) [OF ok', of Client "Suc k"] by simp_all
    with io show ?thesis by (intro simulated_grows [OF ok(3), where x = "(Client, k)"]) (simp_all add: exchange_Suc)
  next
    case (answered k)
    then have "going_on s = exchange (Client, k)" "going_on s' = []" "il_open s"
      using going_on_progress(1) [OF ok(1), of Client k] quiet [of k] exchanging(2) [OF ok(1)] by simp_all
    with answered show ?thesis
      by (intro simulated_ends [OF ok(3), where x = "(Client, k)"]) (auto simp: finished_def)
  next
    case (failed k)
    then show ?thesis by (intro simulated_lost [OF ok(3)]) simp
  next
    case disconnect
    then show ?thesis by (intro simulated_lost [OF ok(3)]) simp
  next
    case closed
    then show ?thesis by (intro simulated_lost [OF ok(3)]) simp
  next
    case stream
    then have "going_on s = []" "going_on s' = []"
      using going_on_progress(1) [OF ok', of Client 0] by (simp_all add: going_on_def)
    with stream show ?thesis by (intro simulated_same [OF ok(3)]) simp_all
  next
    case cancel
    then show ?thesis by simp
  qed (rule same; simp)+
qed

lemma ping_simulates:
  assumes step: "ping_step i s s'" and ok: "locks_ok s" "settled s" "il_handle s = Some i" "atomic_view s a"
  shows "simulated s' a"
proof -
  have ok': "locks_ok s'" by (rule locks_ok_ping [OF step ok(1)])
  have others: "progress s' q = progress s q" if "q \<noteq> Pinger i" for q
    using ping_step_others [OF step that] by simp
  have same: "simulated s' a" if "il_open s' = il_open s" "il_client s = CClose \<longleftrightarrow> il_client s' = CClose"
    "il_log s' = il_log s" "progress s' (Pinger i) = progress s (Pinger i)"
  proof (rule simulated_same [OF ok(4) that(1-3)])
    show "going_on s' = going_on s" by (rule going_on_cong [OF ok(1) ok']) (use others that(4) in metis)
  qed
  from step show ?thesis
  proof (cases rule: ping_step.cases)
    case (ping_io k)
    then have "going_on s = exchange (Pinger i, k)" "going_on s' = exchange (Pinger i, Suc k)"
      using going_on_progress(1) [OF ok(1), of "Pinger i" k] going_on_progress(1) [OF ok', of "Pinger i" "Suc k"] by simp_all
    with ping_io show ?thesis by (intro simulated_grows [OF ok(4), where x = "(Pinger i, k)"]) (simp_all add: exchange_Suc)
  next
    case pong
    have p: "progress s (Pinger i) = Some 2" "progress s' (Pinger i) = None" using pong by simp_all
    have "progress s' q = None" for q
      using going_on_one(2) [OF ok(1) p(1), of q] others [of q] p(2) by (cases "q = Pinger i") simp_all
    then have "going_on s' = []" by (rule going_on_progress(2) [OF ok'])
    moreover have "il_open s" "il_client s \<noteq> CClose"
      using pong exchanging(1) [OF ok(1), of i] ok(2,3) by (auto simp: settled_def task_over_def)
    ultimately show ?thesis
      using pong going_on_progress(1) [OF ok(1) p(1)]
      by (intro simulated_ends [OF ok(4), where x = "(Pinger i, 2)"]) (auto simp: finished_def)
  next
    case start
    then have "going_on s = []" "going_on s' = []"
      using going_on_progress(1) [OF ok', of "Pinger i" 0] by (simp_all add: going_on_def)
    with start show ?thesis by (intro simulated_same [OF ok(4)]) simp_all
  next
    case (ping_failed k)
    then show ?thesis by (intro simulated_lost [OF ok(4)]) simp
  qed (rule same; simp)+
qed

text \<open>Dropping an aborted task is not seen: if it was in an exchange, the client is closing the stream.\<close>

lemma drop_simulates:
  assumes "locks_ok s" "settled s" "il_handle s \<noteq> Some i" "atomic_view s a"
  shows "simulated (drop_task i s) a"
proof (cases "il_client s = CClose")
  case True
  then show ?thesis by (intro simulated_lost [OF assms(4)]) simp
next
  case False
  then have "\<not> pinging_now (il_tasks s i)" using assms(2,3) by (auto simp: settled_def)
  then have "progress (drop_task i s) p = progress s p" for p
    by (cases p) (auto simp: pinging_now_iff split: ping_at.split)
  with going_on_cong [OF assms(1) locks_ok_drop [OF assms(1)]] show ?thesis
    by (intro simulated_same [OF assms(4)]) simp_all
qed

lemma step_simulates:
  assumes "locks_ok s \<and> settled s" "il_step patient s s'" "atomic_view s a"
  shows "simulated s' a"
  using assms client_simulates ping_simulates drop_simulates
  unfolding il_step_def task_step_def may_run_def by (auto split: if_splits)

text \<open>C21: the client and its ping tasks refine the machine of whole exchanges, on a runtime of one thread. For
  an application that lets its calls finish and connects only without a stream, each step of the client, of
  its ping task, or of the runtime dropping an aborted one, from a state they can reach, is a step of
  that machine, a connection, one whole exchange or the loss of the stream, or is not seen by it; and the
  operations on the stream are at any time the exchanges of that machine, one after another, and
  the beginning of at most one more. On several threads this is not so: \<open>aborted_task_corrupts_stream\<close>.\<close>

theorem interleaving_refines_atomic:
  assumes "il_reach patient s" "atomic_view s a" "il_step patient s s'"
  shows "\<exists>a'. (a' = a \<or> atomic_step a a') \<and> atomic_view s' a'"
  by (rule step_simulates [OF reach_patient [OF assms(1)] assms(3,2)])

text \<open>A connected client whose task wakes up.\<close>

theorem interleaving_refines_atomic_witness:
  "\<exists>a'. (a' = \<lparr>at_open = True, at_exchanges = []\<rparr> \<or> atomic_step \<lparr>at_open = True, at_exchanges = []\<rparr> a') \<and>
     atomic_view (il_at 0 None None CIdle PAwake []) a'"
proof (rule interleaving_refines_atomic [OF reach_connected])
  show "atomic_view (il_at 0 None None CIdle PSleep []) \<lparr>at_open = True, at_exchanges = []\<rparr>"
    by (simp add: atomic_view_def going_on_def)
  have "ping_step 0 (il_at 0 None None CIdle PSleep []) (put_task 0 PAwake (il_at 0 None None CIdle PSleep []))"
    by (rule ping_step.wake) simp_all
  then show "il_step patient (il_at 0 None None CIdle PSleep []) (il_at 0 None None CIdle PAwake [])"
    by (auto simp: il_step_def task_step_def may_run_def put_task_def)
qed

text \<open>So whatever they do in turns, the machine can do, and exchanges do not mix on the wire.\<close>

inductive atomic_reach :: "atomic \<Rightarrow> bool" where
  "atomic_reach lost"
| "atomic_reach a \<Longrightarrow> atomic_step a a' \<Longrightarrow> atomic_reach a'"

lemma reach_refines_atomic: "il_reach patient s \<Longrightarrow> \<exists>a. atomic_reach a \<and> atomic_view s a"
proof (induction rule: il_reach.induct)
  case init
  then show ?case by (auto simp: atomic_view_def il_start_def intro: atomic_reach.intros)
next
  case (step s s')
  then obtain a where a: "atomic_reach a" "atomic_view s a" by blast
  then have "simulated s' a" by (intro step_simulates [OF reach_patient [OF step(1)] step(2)])
  with a(1) show ?case by (auto intro: atomic_reach.intros)
qed

lemma atomic_reach_finished: "atomic_reach a \<Longrightarrow> \<forall>x \<in> set (at_exchanges a). finished x"
proof (induction rule: atomic_reach.induct)
  case (2 a a')
  from 2(2,3) show ?case by (induction rule: atomic_step.induct) (auto simp: lost_def)
qed (simp add: lost_def)

theorem exchanges_do_not_mix:
  assumes "il_reach patient s" "il_client s \<noteq> CClose" "il_open s"
  shows "\<exists>xs. il_log s = concat (map exchange xs) @ going_on s \<and> (\<forall>x \<in> set xs. finished x)"
  using reach_refines_atomic [OF assms(1)] atomic_reach_finished assms(2,3) by (fastforce simp: atomic_view_def)

end
