(* ===== verification/Transport.thy ===== *)
theory Transport
  imports Pipe Headers
begin

section \<open>The transport interface (transport.rs)\<close>

text \<open>
  The trait the server framework works over is a record of its four operations. Its contract is
  stated twice. The locale \<open>transport\<close> says what holds over any network: pings never come out of
  \<open>read_command\<close>, sizes respect the limit, a payload has exactly the size asked for. The locale
  \<open>wire_transport\<close> extends it with the frames exchanged over a reliable connection.
\<close>

record ('c, 'w) transport =
  tr_read_command :: "('c, 'w, error + (u32 \<times> u32) option) act"
  tr_receive_data :: "u32 \<Rightarrow> ('c, 'w, error + byte list) act"
  tr_send_response :: "byte \<Rightarrow> byte list option \<Rightarrow> ('c, 'w, error + unit) act"
  tr_shutdown :: "('c, 'w, error + unit) act"

text \<open>\<open>result.map(|opt| opt.map(|(cmd, sz)| (cmd, sz as u32)))\<close>, and the widening of a size.\<close>

definition narrow_size :: "('c, 'w, error + (u32 \<times> usize) option) act \<Rightarrow>
    ('c, 'w, error + (u32 \<times> u32) option) act" where
  "narrow_size m = await_try m (\<lambda>opt. ret (Inr (map_option (\<lambda>(cmd, sz). (cmd, usize_as_u32 sz)) opt)))"

text \<open>A transport that moves the world only along a preorder.\<close>

definition transport_moves :: "('w \<Rightarrow> 'w \<Rightarrow> bool) \<Rightarrow> ('c, 'w) transport \<Rightarrow> bool" where
  "transport_moves R T \<longleftrightarrow> growth R \<and>
     moves R (tr_read_command T) \<and> (\<forall>n. moves R (tr_receive_data T n)) \<and>
     (\<forall>status data. moves R (tr_send_response T status data)) \<and> moves R (tr_shutdown T)"

lemma moves_narrow_size [keep_rules]: "growth R \<Longrightarrow> moves R m \<Longrightarrow> moves R (narrow_size m)"
  unfolding narrow_size_def by (rule keep_rules | assumption)+

lemma gains_narrow_size:
  assumes "gains R m c"
  shows "gains R (narrow_size m) c"
  using assms unfolding narrow_size_def
  by (fastforce simp: gains_def act_simps split: prod.splits poll.splits sum.splits)

locale transport =
  fixes T :: "('c, 'w) transport" and ok :: "'c \<Rightarrow> bool" and limit :: "'c \<Rightarrow> nat"
  assumes read_command: "ok c \<Longrightarrow> ensures (\<lambda>r c'. ok c' \<and> limit c' = limit c \<and>
      (\<forall>cmd n. r = Ready (Inr (Some (cmd, n))) \<longrightarrow> cmd \<noteq> 0 \<and> unat n \<le> limit c)) (tr_read_command T) c"
    and receive_data: "ok c \<Longrightarrow> ensures (\<lambda>r c'. ok c' \<and> limit c' = limit c \<and>
      (\<forall>bs. r = Ready (Inr bs) \<longrightarrow> length bs = unat n \<and> unat n \<le> limit c)) (tr_receive_data T n) c"
    and send_response: "ok c \<Longrightarrow>
      ensures (\<lambda>r c'. ok c' \<and> limit c' = limit c) (tr_send_response T status data) c"
    and shutdown: "ok c \<Longrightarrow> ensures (\<lambda>r c'. ok c' \<and> limit c' = limit c) (tr_shutdown T) c"

locale wire_transport =
  reliable_conn N h peer sent got + transport T ok limit
  for N :: "('h, 'w, 'z) net_scheme" and h :: 'h and peer :: "byte list \<Rightarrow> byte list"
    and sent got :: "'w \<Rightarrow> byte list"
    and T :: "('c, 'w) transport" and ok :: "'c \<Rightarrow> bool" and limit :: "'c \<Rightarrow> nat" +
  fixes idle :: "'c \<Rightarrow> 'c"
  assumes idle_ok: "ok (idle c) = ok c" "limit (idle c) = limit c" "idle (idle c) = idle c"
    and wire_read: "ok c \<Longrightarrow> drop (length G) (peer S) = request_bytes cmd n @ rest \<Longrightarrow>
      unat n \<le> limit c \<Longrightarrow> cmd \<noteq> 0 \<Longrightarrow>
      Q (Inr (Some (cmd, n))) (idle c) (S @ [1], G @ request_bytes cmd n) \<Longrightarrow>
      runs sent got Q (tr_read_command T) c (S, G)"
    and wire_ping: "ok c \<Longrightarrow> drop (length G) (peer S) = request_bytes 0 0 @ rest \<Longrightarrow>
      Q (Inr None) (idle c) (S @ [1], G @ request_bytes 0 0) \<Longrightarrow>
      runs sent got Q (tr_read_command T) c (S, G)"
    and wire_receive: "ok c \<Longrightarrow> drop (length G) (peer S) = bs @ rest \<Longrightarrow>
      length bs \<le> limit c \<Longrightarrow> unat n = length bs \<Longrightarrow>
      P (Inr bs) (idle c) (S, G @ bs) \<Longrightarrow> runs sent got P (tr_receive_data T n) c (S, G)"
    and wire_send: "ok c \<Longrightarrow>
      drop (length G) (peer (S @ response_bytes status (usize_as_u32 (length bs)))) = 1 # rest \<Longrightarrow>
      R (Inr ()) (idle c) (S @ response_bytes status (usize_as_u32 (length bs)) @ bs, G @ [1]) \<Longrightarrow>
      runs sent got R (tr_send_response T status (Some bs)) c (S, G)"

lemma ensures_narrow_size [wp_rules]:
  assumes "ensures (\<lambda>r c1. case r of
        Ready (Inr opt) \<Rightarrow> Q (Ready (Inr (map_option (\<lambda>(cmd, sz). (cmd, usize_as_u32 sz)) opt))) c1
      | Ready (Inl e) \<Rightarrow> Q (Ready (Inl e)) c1 | Pending \<Rightarrow> Q Pending c1) m c"
  shows "ensures Q (narrow_size m) c"
  unfolding narrow_size_def
  by (rule ensures_await_try, rule ensures_mono [OF assms])
     (auto split: poll.splits sum.splits intro: ensures_ret)

lemma runs_narrow_size [exec_rules]:
  assumes "runs sent got (\<lambda>r c' l'. case r of
        Inr opt \<Rightarrow> Q (Inr (map_option (\<lambda>(cmd, sz). (cmd, usize_as_u32 sz)) opt)) c' l'
      | Inl e \<Rightarrow> Q (Inl e) c' l') m c l"
  shows "runs sent got Q (narrow_size m) c l"
  unfolding narrow_size_def
  by (rule runs_await_try, rule runs_mono [OF assms]) (auto split: sum.splits intro: runs_ret)

subsection \<open>A transport inside another\<close>

text \<open>
  When the four operations of \<open>T'\<close> do on a state \<open>c\<close> what those of \<open>T\<close> do on \<open>f c\<close>, the contract of
  \<open>T\<close> is that of \<open>T'\<close>.
\<close>

definition transport_lifts :: "('c \<Rightarrow> 'd) \<Rightarrow> ('c, 'w) transport \<Rightarrow> ('d, 'w) transport \<Rightarrow> bool" where
  "transport_lifts f T' T \<longleftrightarrow>
     lifts f (tr_read_command T') (tr_read_command T) \<and>
     (\<forall>n. lifts f (tr_receive_data T' n) (tr_receive_data T n)) \<and>
     (\<forall>status data. lifts f (tr_send_response T' status data) (tr_send_response T status data)) \<and>
     lifts f (tr_shutdown T') (tr_shutdown T)"

lemma lifts_narrow_size [lift_rules]: "lifts f m m' \<Longrightarrow> lifts f (narrow_size m) (narrow_size m')"
  unfolding narrow_size_def by (intro lift_rules)

lemma transport_moves_lifted: "transport_lifts f T' T \<Longrightarrow> transport_moves R T \<Longrightarrow> transport_moves R T'"
  unfolding transport_lifts_def transport_moves_def by (blast intro: lifts_moves)

lemma transport_lifted:
  assumes "transport T ok limit" and "transport_lifts f T' T"
  shows "transport T' (\<lambda>c. ok (f c)) (\<lambda>c. limit (f c))"
proof
  note law = transport.read_command [OF assms(1)] transport.receive_data [OF assms(1)]
    transport.send_response [OF assms(1)] transport.shutdown [OF assms(1)]
  have l: "lifts f (tr_read_command T') (tr_read_command T)"
    "lifts f (tr_receive_data T' n) (tr_receive_data T n)"
    "lifts f (tr_send_response T' status data) (tr_send_response T status data)"
    "lifts f (tr_shutdown T') (tr_shutdown T)" for n status data
    using assms(2) unfolding transport_lifts_def by blast+
  fix c assume ok: "ok (f c)"
  show "ensures (\<lambda>r c'. ok (f c') \<and> limit (f c') = limit (f c) \<and>
      (\<forall>cmd n. r = Ready (Inr (Some (cmd, n))) \<longrightarrow> cmd \<noteq> 0 \<and> unat n \<le> limit (f c))) (tr_read_command T') c"
    by (rule lifts_ensures [OF l(1) law(1) [OF ok]]) simp
  show "ensures (\<lambda>r c'. ok (f c') \<and> limit (f c') = limit (f c) \<and>
      (\<forall>bs. r = Ready (Inr bs) \<longrightarrow> length bs = unat n \<and> unat n \<le> limit (f c))) (tr_receive_data T' n) c" for n
    by (rule lifts_ensures [OF l(2) law(2) [OF ok]]) simp
  show "ensures (\<lambda>r c'. ok (f c') \<and> limit (f c') = limit (f c)) (tr_send_response T' status data) c"
    for status data
    by (rule lifts_ensures [OF l(3) law(3) [OF ok]]) simp
  show "ensures (\<lambda>r c'. ok (f c') \<and> limit (f c') = limit (f c)) (tr_shutdown T') c"
    by (rule lifts_ensures [OF l(4) law(4) [OF ok]]) simp
qed

lemma wire_transport_lifted:
  fixes f :: "'c \<Rightarrow> 'd"
  assumes "wire_transport N h peer sent got T ok limit idle" and "transport_lifts f T' T"
    and "inj f" and idle: "\<And>c. f (idle' c) = idle (f c)"
  shows "wire_transport N h peer sent got T' (\<lambda>c. ok (f c)) (\<lambda>c. limit (f c)) idle'"
proof -
  note w = assms(1)
  note t = transport_lifted [OF wire_transport.axioms(2) [OF w] assms(2)]
  note l = assms(2) [unfolded transport_lifts_def]
  have lr: "lifts f (tr_read_command T') (tr_read_command T)"
    "lifts f (tr_receive_data T' n) (tr_receive_data T n)"
    "lifts f (tr_send_response T' status data) (tr_send_response T status data)" for n status data
    using l by blast+
  show ?thesis
  proof (intro wire_transport.intro wire_transport_axioms.intro)
    fix c :: 'c and G S rest assume ok: "ok (f c)"
    show "runs sent got Q (tr_read_command T') c (S, G)"
      if "drop (length G) (peer S) = request_bytes cmd n @ rest" "unat n \<le> limit (f c)"
        "cmd \<noteq> 0" "Q (Inr (Some (cmd, n))) (idle' c) (S @ [1], G @ request_bytes cmd n)" for cmd n Q
      by (rule runs_lifts [OF lr(1) assms(3) wire_transport.wire_read [OF w ok that(1-3)]])
         (use that(4) idle in metis)
    show "runs sent got Q (tr_read_command T') c (S, G)"
      if "drop (length G) (peer S) = request_bytes 0 0 @ rest"
        "Q (Inr None) (idle' c) (S @ [1], G @ request_bytes 0 0)" for Q
      by (rule runs_lifts [OF lr(1) assms(3) wire_transport.wire_ping [OF w ok that(1)]])
         (use that(2) idle in metis)
    show "runs sent got P (tr_receive_data T' n) c (S, G)"
      if "drop (length G) (peer S) = bs @ rest" "length bs \<le> limit (f c)"
        "unat n = length bs" "P (Inr bs) (idle' c) (S, G @ bs)" for bs n P
      by (rule runs_lifts [OF lr(2) assms(3) wire_transport.wire_receive [OF w ok that(1-3)]])
         (use that(4) idle in metis)
    show "runs sent got R (tr_send_response T' status (Some bs)) c (S, G)"
      if "drop (length G) (peer (S @ response_bytes status (usize_as_u32 (length bs)))) = 1 # rest"
        "R (Inr ()) (idle' c) (S @ response_bytes status (usize_as_u32 (length bs)) @ bs, G @ [1])"
      for status bs R
      by (rule runs_lifts [OF lr(3) assms(3) wire_transport.wire_send [OF w ok that(1)]])
         (use that(2) idle in metis)
  next
    have i: "idle (idle (f c)) = idle (f c)" for c by (rule wire_transport.idle_ok(3) [OF w])
    show "idle' (idle' c) = idle' c" for c
      using i [of c] assms(3) idle by (metis injD)
  qed (simp_all add: idle wire_transport.idle_ok [OF w] wire_transport.axioms(1) [OF w] t)
qed

end
