(* ===== verification/Server_TL.thy ===== *)
theory Server_TL
  imports Transport Protocol_Structs Timeout_Config
begin

section \<open>The plain TCP server side of a connection (server_tl.rs)\<close>

text \<open>
  \<open>ServerTL\<close>: reading a command header (answering keep-alive pings itself and acknowledging
  everything else), receiving the payload, and sending a response in two steps with the client's
  acknowledgement in between. The record has the struct's fields; reader and writer are the two
  halves of one stream.
\<close>

record 'h server_tl =
  st_reader :: 'h
  st_writer :: 'h
  st_buffer :: vec
  st_max_buffer_size :: usize
  st_timeout_config :: timeout_config

definition st_new :: "'h \<Rightarrow> 'h \<Rightarrow> 'h server_tl" where
  "st_new reader writer =
     \<lparr>st_reader = reader, st_writer = writer,
      st_buffer = vec_with_capacity DEFAULT_MAX_BUFFER_SIZE,
      st_max_buffer_size = DEFAULT_MAX_BUFFER_SIZE,
      st_timeout_config = default_timeout_config\<rparr>"

text \<open>
  \<open>set_max_buffer_size\<close>: the limit is committed only when the room for it could be reserved. The
  error text carries the limit; the allocator is a parameter.
\<close>

definition st_set_max_buffer_size ::
  "(nat \<Rightarrow> bool) \<Rightarrow> usize \<Rightarrow> 'h server_tl \<Rightarrow> (error + unit) \<times> 'h server_tl" where
  "st_set_max_buffer_size alloc max_buffer_size s =
     (let limit = (if max_buffer_size > 0 then max_buffer_size else DEFAULT_MAX_BUFFER_SIZE);
          additional = limit - vec_len (st_buffer s)
      in case vec_try_reserve alloc additional (st_buffer s) of
           Inl e \<Rightarrow> (Inl (Config (Fmt ''max_buffer_size {limit} cannot be reserved on this system: {e}'' [limit])), s)
         | Inr buf \<Rightarrow> (Inr (), s\<lparr>st_buffer := buf, st_max_buffer_size := limit\<rparr>))"

definition st_set_timeout_config :: "timeout_config \<Rightarrow> 'h server_tl \<Rightarrow> 'h server_tl" where
  "st_set_timeout_config cfg s = s\<lparr>st_timeout_config := cfg\<rparr>"

abbreviation st_on_buffer :: "(vec, 'w, 'a) act \<Rightarrow> ('h server_tl, 'w, 'a) act" where
  "st_on_buffer \<equiv> borrow st_buffer (\<lambda>b s. s\<lparr>st_buffer := b\<rparr>)"

abbreviation st_set_buffer ::
  "(vec \<Rightarrow> vec) \<Rightarrow> ('h server_tl, 'w, 'a) act \<Rightarrow> ('h server_tl, 'w, 'a) act" where
  "st_set_buffer f \<equiv> set_self (\<lambda>s. s\<lparr>st_buffer := f (st_buffer s)\<rparr>)"

definition st_send_response_header ::
  "('h, 'w, 'z) net_scheme \<Rightarrow> byte \<Rightarrow> u32 \<Rightarrow> bool \<Rightarrow> duration \<Rightarrow>
     ('h server_tl, 'w, error + unit) act" where
  "st_send_response_header N status data_size is_default tmo =
     st_set_buffer vec_clear (with_self (\<lambda>s.
       case response_encode (response_header_new status data_size) (st_buffer s) is_default of
         Inl e \<Rightarrow> ret (Inl e)
       | Inr buf \<Rightarrow> st_set_buffer (\<lambda>_. buf) (
           await_try
             (timed N tmo (io (net_write_all N (st_writer s) (vdata buf))) error_from_io
                (error_from_str (lit ''Sending response header timeout'')))
             (\<lambda>_. await_try (map_err error_from_io (io (net_flush N (st_writer s))))
             (\<lambda>_. st_set_buffer vec_clear (ret (Inr ())))))))"

definition st_receive_response_header ::
  "('h, 'w, 'z) net_scheme \<Rightarrow> bool \<Rightarrow> ('h server_tl, 'w, error + response_header) act" where
  "st_receive_response_header N is_default =
     st_set_buffer (vec_resize (response_encoded_len is_default True) 0) (with_self (\<lambda>s.
       await_try
         (timed N (tc_read_header (st_timeout_config s))
            (st_on_buffer (read_exact N (st_reader s))) error_from_io
            (error_from_str (lit ''Timeout waiting for response header'')))
         (\<lambda>_. with_self (\<lambda>s.
            case response_decode (vdata (st_buffer s)) is_default (st_max_buffer_size s) of
              Inl e \<Rightarrow> ret (Inl e)
            | Inr (res_header, _) \<Rightarrow> st_set_buffer vec_clear (ret (Inr res_header))))))"

definition st_read_command ::
  "('h, 'w, 'z) net_scheme \<Rightarrow> ('h server_tl, 'w, error + (u32 \<times> usize) option) act" where
  "st_read_command N =
     st_set_buffer (vec_resize request_encoded_len 0) (with_self (\<lambda>s.
       let cfg = st_timeout_config s in
       await_try
         (timed N (tc_read_header cfg)
            (st_on_buffer (read_exact_or_closed N (st_reader s))) id
            (error_from_str (lit ''Timeout waiting for request header'')))
         (\<lambda>_. with_self (\<lambda>s.
            case request_decode (vdata (st_buffer s)) (st_max_buffer_size s) of
              Inl e \<Rightarrow> ret (Inl e)
            | Inr (req_header, _) \<Rightarrow> st_set_buffer vec_clear (
                let data_size = unat (rq_data_size req_header) in
                if rq_command req_header = command_as_u32 Ping then
                  (if data_size \<noteq> 0 then
                     await_try (st_send_response_header N 7 0 True (tc_ping_write cfg))
                       (\<lambda>_. ret (Inl (Protocol (lit ''Ping must have data_size=0''))))
                   else
                     await_try (st_send_response_header N 1 0 True (tc_ping_write cfg))
                       (\<lambda>_. ret (Inr None)))
                else if data_size > st_max_buffer_size s then
                  await_try (st_send_response_header N 7 0 True (tc_write cfg))
                    (\<lambda>_. ret (Inl (error_from_str
                       (lit ''Data size exceeds maximum allowed buffer size''))))
                else
                  await_try (st_send_response_header N 1 0 True (tc_write cfg))
                    (\<lambda>_. ret (Inr (Some (rq_command req_header, data_size)))))))))"

text \<open>A peer that leaves before the first payload byte has still left inside a frame.\<close>

definition payload_read_error :: "usize \<Rightarrow> error \<Rightarrow> error" where
  "payload_read_error buf_size e =
     (case e of ConnectionClosed \<Rightarrow> ConnectionClosedMidFrame 0 buf_size | _ \<Rightarrow> e)"

definition st_receive_data ::
  "('h, 'w, 'z) net_scheme \<Rightarrow> usize \<Rightarrow> ('h server_tl, 'w, error + byte list) act" where
  "st_receive_data N buf_size = with_self (\<lambda>s.
     if buf_size > st_max_buffer_size s then ret (Inl (error_from_str (lit ''Invalid data size'')))
     else
       st_set_buffer (vec_resize buf_size 0) (
         await_try
           (timed N (tc_read_data (st_timeout_config s))
              (st_on_buffer (read_exact_or_closed N (st_reader s))) (payload_read_error buf_size)
              (error_from_str (lit ''Timeout waiting for data'')))
           (\<lambda>_. with_self (\<lambda>s.
              let res = vdata (st_buffer s) in
              st_set_buffer vec_clear (ret (Inr res))))))"

definition st_send_data ::
  "('h, 'w, 'z) net_scheme \<Rightarrow> byte \<Rightarrow> byte list option \<Rightarrow> ('h server_tl, 'w, error + unit) act" where
  "st_send_data N status buf = with_self (\<lambda>s.
     let cfg = st_timeout_config s;
         data_size = (case buf of Some b \<Rightarrow> length b | None \<Rightarrow> 0);
         is_default = (buf = None);
         finish = await_try (map_err error_from_io (io (net_flush N (st_writer s))))
                    (\<lambda>_. st_set_buffer vec_clear (ret (Inr ())))
     in
     await_try (st_send_response_header N status (usize_as_u32 data_size) is_default (tc_write cfg))
     (\<lambda>_. await_try (st_receive_response_header N True)
     (\<lambda>res_header.
        if rs_status res_header \<noteq> 1 then
          ret (Inl (error_from_str (lit ''Receiving response status is not OK'')))
        else
          (case buf of
             Some b \<Rightarrow>
               await_try
                 (timed N (tc_write cfg) (io (net_write_all N (st_writer s) b)) error_from_io
                    (error_from_str (lit ''Timeout sending data'')))
                 (\<lambda>_. finish)
           | None \<Rightarrow> finish))))"

definition st_shutdown :: "('h, 'w, 'z) net_scheme \<Rightarrow> ('h server_tl, 'w, error + unit) act" where
  "st_shutdown N = with_self (\<lambda>s. map_err error_from_io (io (net_flush N (st_writer s))))"

subsection \<open>The invariant and what every operation keeps of the connection\<close>

text \<open>
  The buffer has room for a header and for a payload of the committed limit. Every operation keeps
  the handles, the limit, the timeouts and the capacity, so the buffer never grows after the limit
  was set, however the operation ends.
\<close>

definition st_wf :: "'h server_tl \<Rightarrow> bool" where
  "st_wf s \<longleftrightarrow> 8 \<le> vcap (st_buffer s) \<and> st_max_buffer_size s \<le> vcap (st_buffer s)"

definition st_frame :: "'h server_tl \<Rightarrow> 'h server_tl \<Rightarrow> bool" where
  "st_frame s s' \<longleftrightarrow>
     st_reader s' = st_reader s \<and> st_writer s' = st_writer s \<and>
     st_max_buffer_size s' = st_max_buffer_size s \<and> st_timeout_config s' = st_timeout_config s \<and>
     vcap (st_buffer s') = vcap (st_buffer s)"

text \<open>A sound connection over the two given handles.\<close>

definition st_on :: "'h \<Rightarrow> 'h \<Rightarrow> 'h server_tl \<Rightarrow> bool" where
  "st_on r v s \<longleftrightarrow> st_wf s \<and> st_reader s = r \<and> st_writer s = v"

text \<open>The connection between two operations: the buffer is empty.\<close>

definition st_idle :: "'h server_tl \<Rightarrow> 'h server_tl" where
  "st_idle s = s\<lparr>st_buffer := Vec [] (vcap (st_buffer s))\<rparr>"

lemma st_idle_simps [simp]:
  "st_reader (st_idle s) = st_reader s" "st_writer (st_idle s) = st_writer s"
  "st_max_buffer_size (st_idle s) = st_max_buffer_size s"
  "st_timeout_config (st_idle s) = st_timeout_config s"
  "st_idle (st_idle s) = st_idle s" "st_wf (st_idle s) = st_wf s"
  "vcap (st_buffer (st_idle s)) = vcap (st_buffer s)"
  by (simp_all add: st_idle_def st_wf_def)

lemma st_frame_wf: "st_frame s s' \<Longrightarrow> st_wf s' = st_wf s"
  by (simp add: st_wf_def st_frame_def)

lemma st_frame_on: "st_frame s s' \<Longrightarrow> st_on r v s' = st_on r v s"
  by (auto simp: st_on_def st_wf_def st_frame_def)

lemma st_frame_trans: "st_frame s s1 \<Longrightarrow> st_frame s1 s2 \<Longrightarrow> st_frame s s2"
  by (simp add: st_frame_def)

lemma st_new_wf: "st_wf (st_new r v)"
  by (simp add: st_wf_def st_new_def vec_with_capacity_def DEFAULT_MAX_BUFFER_SIZE_def)

lemmas st_wp = st_frame_def st_wf_def vec_simps header_sizes Let_def

lemma ensures_st_send_response_header:
  assumes "st_wf s"
  shows "ensures (\<lambda>r s'. st_frame s s' \<and> (r = Ready (Inr ()) \<longrightarrow> vdata (st_buffer s') = []))
    (st_send_response_header N status ds d tmo) s"
  using assms unfolding st_send_response_header_def
  by - (rule wp_rules | auto simp: st_wp split: poll.split sum.split)+

lemma ensures_st_receive_response_header:
  assumes "st_wf s"
  shows "ensures (\<lambda>r s'. st_frame s s') (st_receive_response_header N d) s"
  using assms unfolding st_receive_response_header_def
  by - (rule wp_rules | auto simp: st_wp split: poll.split sum.split)+

lemma ensures_st_read_command:
  assumes "st_wf s"
  shows "ensures (\<lambda>r s'. st_frame s s' \<and>
      (\<forall>cmd n. r = Ready (Inr (Some (cmd, n))) \<longrightarrow> cmd \<noteq> 0 \<and> n \<le> st_max_buffer_size s \<and> n < 2 ^ 32))
    (st_read_command N) s"
  using assms unfolding st_read_command_def
  by - (rule wp_rules | auto simp: st_wp split: poll.split sum.split
      intro!: ensures_mono [OF ensures_st_send_response_header])+

lemma ensures_st_receive_data:
  assumes "st_wf s"
  shows "ensures (\<lambda>r s'. st_frame s s' \<and>
      (\<forall>bs. r = Ready (Inr bs) \<longrightarrow> length bs = n \<and> n \<le> st_max_buffer_size s))
    (st_receive_data N n) s"
  using assms unfolding st_receive_data_def
  by - (rule wp_rules | auto simp: st_wp vec_len_def [symmetric] split: poll.split sum.split)+

lemma ensures_st_send_data:
  assumes "st_wf s"
  shows "ensures (\<lambda>r s'. st_frame s s') (st_send_data N status buf) s"
  using assms unfolding st_send_data_def
  by - (rule wp_rules | auto simp: st_wp split: poll.split sum.split option.split
      intro!: ensures_mono [OF ensures_st_send_response_header]
              ensures_mono [OF ensures_st_receive_response_header])+

lemma ensures_st_shutdown: "ensures (\<lambda>r s'. s' = s) (st_shutdown N) s"
  unfolding st_shutdown_def by (rule wp_rules | auto split: poll.split sum.split)+

text \<open>The operations move the world only through the network.\<close>

lemma moves_st [keep_rules]:
  assumes "net_moves R N"
  shows "moves R (st_send_response_header N status ds d tmo)"
    and "moves R (st_receive_response_header N d)"
  unfolding st_send_response_header_def st_receive_response_header_def
  by (rule keep_rules assms net_movesD [OF assms] | auto split: sum.split prod.split)+

lemma moves_st_ops [keep_rules]:
  assumes "net_moves R N"
  shows "moves R (st_read_command N)" and "moves R (st_receive_data N n)"
    and "moves R (st_send_data N status buf)" and "moves R (st_shutdown N)"
  unfolding st_read_command_def st_receive_data_def st_send_data_def st_shutdown_def
  by (rule keep_rules assms net_movesD [OF assms] | auto simp: Let_def split: sum.split prod.split option.split)+

context byte_source
begin

lemma gains_st_read_command:
  assumes "st_wf s" "st_reader s = h" "net_moves (\<lambda>w w'. length (got w) \<le> length (got w')) N"
  shows "gains (\<lambda>w w'. length (got w) + 8 \<le> length (got w')) (st_read_command N) s"
  unfolding st_read_command_def Let_def
proof (rule gains_set_self, rule gains_with_self,
    rule gains_await_try [where R' = "\<lambda>w w'. length (got w) \<le> length (got w')"],
    rule gains_timed, rule gains_borrow)
  let ?s = "s\<lparr>st_buffer := vec_resize request_encoded_len 0 (st_buffer s)\<rparr>"
  have len: "vec_len (st_buffer ?s) = 8" by (simp add: vec_simps header_sizes)
  show "gains (\<lambda>w w'. length (got w) + 8 \<le> length (got w'))
      (read_exact_or_closed N (st_reader ?s)) (st_buffer ?s)"
    using gains_read_exact_or_closed [of "st_buffer ?s"] assms(2)
    unfolding len by (auto simp: gains_def)
qed (rule keep_rules assms net_movesD [OF assms(3)] | auto split: sum.split prod.split)+

end

subsection \<open>The operations on a reliable connection\<close>

lemmas st_exec = st_wf_def st_idle_def vec_simps vec_clear_def header_sizes Let_def
  request_decode_bytes [where rest = "[]", simplified] response_decode_default

text \<open>The response header of \<open>send_data\<close>, one byte without an answer and five with one.\<close>

fun sent_header :: "byte \<Rightarrow> byte list option \<Rightarrow> byte list" where
  "sent_header status None = [status]"
| "sent_header status (Some bs) = response_bytes status (usize_as_u32 (length bs))"

context reliable_conn
begin

lemma runs_st_send_response_header:
  assumes "st_wf s" "st_writer s = h"
    and "Q (Inr ()) (st_idle s) (S @ (if d then [status] else response_bytes status ds), G)"
  shows "runs sent got Q (st_send_response_header N status ds d tmo) s (S, G)"
  using assms unfolding st_send_response_header_def
  by - (cases d; (rule exec_rules | simp add: st_exec)+)

lemma runs_st_receive_response_header:
  assumes "st_wf s" "st_reader s = h" "drop (length G) (peer S) = b # rest"
    and "Q (Inr \<lparr>rs_status = b, rs_data_size = 0\<rparr>) (st_idle s) (S, G @ [b])"
  shows "runs sent got Q (st_receive_response_header N True) s (S, G)"
  using assms unfolding st_receive_response_header_def
  by - (rule exec_rules | simp add: st_exec)+

lemma runs_st_read_command:
  assumes "st_wf s" "st_reader s = h" "st_writer s = h"
    "drop (length G) (peer S) = request_bytes c n @ rest" "unat n \<le> st_max_buffer_size s" "c \<noteq> 0"
    and "Q (Inr (Some (c, unat n))) (st_idle s) (S @ [1], G @ request_bytes c n)"
  shows "runs sent got Q (st_read_command N) s (S, G)"
  using assms unfolding st_read_command_def
  by - (rule exec_rules | simp add: st_exec | rule runs_st_send_response_header)+

lemma runs_st_read_command_ping:
  assumes "st_wf s" "st_reader s = h" "st_writer s = h"
    "drop (length G) (peer S) = request_bytes 0 0 @ rest"
    and "Q (Inr None) (st_idle s) (S @ [1], G @ request_bytes 0 0)"
  shows "runs sent got Q (st_read_command N) s (S, G)"
  using assms unfolding st_read_command_def
  by - (rule exec_rules | simp add: st_exec | rule runs_st_send_response_header)+

text \<open>A request over the limit gets no answer at all: decoding fails before the reply is chosen.\<close>

lemma runs_st_read_command_oversized:
  assumes "st_wf s" "st_reader s = h"
    "drop (length G) (peer S) = request_bytes c n @ rest" "st_max_buffer_size s < unat n"
    and "Q (Inl (BufferOverflow (unat n) (st_max_buffer_size s)))
      (s\<lparr>st_buffer := Vec (request_bytes c n) (vcap (st_buffer s))\<rparr>) (S, G @ request_bytes c n)"
  shows "runs sent got Q (st_read_command N) s (S, G)"
  using assms unfolding st_read_command_def
  by - (rule exec_rules | simp add: st_exec)+

lemma runs_st_read_command_bad_ping:
  assumes "st_wf s" "st_reader s = h" "st_writer s = h"
    "drop (length G) (peer S) = request_bytes 0 n @ rest" "unat n \<le> st_max_buffer_size s" "n \<noteq> 0"
    and "Q (Inl (Protocol (lit ''Ping must have data_size=0''))) (st_idle s)
      (S @ [7], G @ request_bytes 0 n)"
  shows "runs sent got Q (st_read_command N) s (S, G)"
  using assms unfolding st_read_command_def
  by - (rule exec_rules | simp add: st_exec unat_eq_0 | rule runs_st_send_response_header)+

lemma runs_st_receive_data:
  assumes "st_wf s" "st_reader s = h"
    "drop (length G) (peer S) = bs @ rest" "length bs \<le> st_max_buffer_size s" "n = length bs"
    and "Q (Inr bs) (st_idle s) (S, G @ bs)"
  shows "runs sent got Q (st_receive_data N n) s (S, G)"
  using assms unfolding st_receive_data_def
  by - (rule exec_rules | simp add: st_exec)+

lemma runs_st_send_data_ack:
  assumes "st_wf s" "st_reader s = h" "st_writer s = h"
    "drop (length G) (peer (S @ sent_header status buf)) = ack # rest"
    and "Q (if ack = 1 then Inr () else Inl (Msg (lit ''Receiving response status is not OK''))) (st_idle s)
      (S @ sent_header status buf @ (if ack = 1 then case_option [] id buf else []), G @ [ack])"
  shows "runs sent got Q (st_send_data N status buf) s (S, G)"
  using assms unfolding st_send_data_def
  by - (cases buf; cases "ack = 1";
      (rule exec_rules | simp add: st_exec error_from_str_def
       | rule runs_st_send_response_header runs_st_receive_response_header)+)

lemma runs_st_send_data:
  assumes "st_wf s" "st_reader s = h" "st_writer s = h"
    "drop (length G) (peer (S @ response_bytes status (usize_as_u32 (length bs)))) = 1 # rest"
    and "Q (Inr ()) (st_idle s) (S @ response_bytes status (usize_as_u32 (length bs)) @ bs, G @ [1])"
  shows "runs sent got Q (st_send_data N status (Some bs)) s (S, G)"
  using assms unfolding st_send_data_def
  by - (rule exec_rules | simp add: st_exec | rule runs_st_send_response_header runs_st_receive_response_header)+

end

subsection \<open>As a transport\<close>

definition st_transport :: "('h, 'w, 'z) net_scheme \<Rightarrow> ('h server_tl, 'w) transport" where
  "st_transport N =
     \<lparr>tr_read_command = narrow_size (st_read_command N),
      tr_receive_data = (\<lambda>size. st_receive_data N (unat size)),
      tr_send_response = st_send_data N,
      tr_shutdown = st_shutdown N\<rparr>"

interpretation tl: transport "st_transport N" "st_on r v" st_max_buffer_size
  for N :: "('h, 'w, 'z) net_scheme" and r v :: 'h
proof unfold_locales
  fix c :: "'h server_tl" assume on: "st_on r v c"
  then have ok: "st_wf c" by (simp add: st_on_def)
  show "ensures (\<lambda>res c'. st_on r v c' \<and> st_max_buffer_size c' = st_max_buffer_size c \<and>
      (\<forall>cmd n. res = Ready (Inr (Some (cmd, n))) \<longrightarrow> cmd \<noteq> 0 \<and> unat n \<le> st_max_buffer_size c))
    (tr_read_command (st_transport N)) c"
    unfolding st_transport_def transport.select_convs
    by (rule ensures_narrow_size, rule ensures_mono [OF ensures_st_read_command [OF ok]])
       (auto simp: on st_frame_on unat_usize_as_u32_small st_frame_def split: poll.split sum.split)
  show "ensures (\<lambda>res c'. st_on r v c' \<and> st_max_buffer_size c' = st_max_buffer_size c \<and>
      (\<forall>bs. res = Ready (Inr bs) \<longrightarrow> length bs = unat n \<and> unat n \<le> st_max_buffer_size c))
    (tr_receive_data (st_transport N) n) c" for n
    unfolding st_transport_def transport.select_convs
    by (rule ensures_mono [OF ensures_st_receive_data [OF ok]]) (auto simp: on st_frame_on st_frame_def)
  show "ensures (\<lambda>res c'. st_on r v c' \<and> st_max_buffer_size c' = st_max_buffer_size c)
    (tr_send_response (st_transport N) status data) c" for status data
    unfolding st_transport_def transport.select_convs
    by (rule ensures_mono [OF ensures_st_send_data [OF ok]]) (auto simp: on st_frame_on st_frame_def)
  show "ensures (\<lambda>res c'. st_on r v c' \<and> st_max_buffer_size c' = st_max_buffer_size c)
    (tr_shutdown (st_transport N)) c"
    unfolding st_transport_def transport.select_convs
    by (rule ensures_mono [OF ensures_st_shutdown]) (simp add: on)
qed

lemma st_transport_moves [keep_rules]:
  assumes "net_moves R N"
  shows "transport_moves R (st_transport N)"
  using assms unfolding transport_moves_def st_transport_def transport.select_convs
  by (blast intro: keep_rules net_movesD)

sublocale reliable_conn \<subseteq> tl_wire: wire_transport N h peer sent got
    "st_transport N" "st_on h h" st_max_buffer_size st_idle
proof unfold_locales
  fix c :: "'h server_tl" and G S rest
  assume "st_on h h c"
  then have ok: "st_wf c" and here: "st_reader c = h" "st_writer c = h" by (simp_all add: st_on_def)
  note rw = st_transport_def transport.select_convs
  show "runs sent got Q (tr_read_command (st_transport N)) c (S, G)"
    if "drop (length G) (peer S) = request_bytes cmd n @ rest" "unat n \<le> st_max_buffer_size c"
      "cmd \<noteq> 0" "Q (Inr (Some (cmd, n))) (st_idle c) (S @ [1], G @ request_bytes cmd n)" for cmd n Q
    unfolding rw
    by (rule runs_narrow_size, rule runs_st_read_command [OF ok here that(1-3)]) (simp add: that)
  show "runs sent got Q (tr_read_command (st_transport N)) c (S, G)"
    if "drop (length G) (peer S) = request_bytes 0 0 @ rest"
      "Q (Inr None) (st_idle c) (S @ [1], G @ request_bytes 0 0)" for Q
    unfolding rw
    by (rule runs_narrow_size, rule runs_st_read_command_ping [OF ok here that(1)]) (simp add: that)
  show "runs sent got P (tr_receive_data (st_transport N) n) c (S, G)"
    if "drop (length G) (peer S) = bs @ rest" "length bs \<le> st_max_buffer_size c"
      "unat n = length bs" "P (Inr bs) (st_idle c) (S, G @ bs)" for bs n P
    unfolding rw by (rule runs_st_receive_data [OF ok here(1) that(1-3)]) (rule that)
  show "runs sent got R (tr_send_response (st_transport N) status (Some bs)) c (S, G)"
    if "drop (length G) (peer (S @ response_bytes status (usize_as_u32 (length bs)))) = 1 # rest"
      "R (Inr ()) (st_idle c) (S @ response_bytes status (usize_as_u32 (length bs)) @ bs, G @ [1])"
    for status bs R
    unfolding rw by (rule runs_st_send_data [OF ok here that(1)]) (rule that)
qed (simp_all add: st_on_def)

subsection \<open>Properties of the plain server side\<close>

text \<open>\<open>set_max_buffer_size\<close> commits a limit only with the room for it. On success the limit is
  the one asked for (the default, for 0), the buffer has at least that capacity, never less than
  before, and its contents are untouched; on failure the error is a configuration error and nothing
  at all has changed, and it fails only when the buffer had not enough room already.\<close>

theorem set_max_buffer_size_commits:
  "case st_set_max_buffer_size alloc n s of
     (Inr _, s') \<Rightarrow>
       st_max_buffer_size s' = (if n = 0 then DEFAULT_MAX_BUFFER_SIZE else n) \<and>
       st_max_buffer_size s' \<le> vcap (st_buffer s') \<and> vcap (st_buffer s) \<le> vcap (st_buffer s') \<and>
       vdata (st_buffer s') = vdata (st_buffer s)
   | (Inl e, s') \<Rightarrow>
       s' = s \<and> (\<exists>m. e = Config m) \<and>
       vcap (st_buffer s) < max (vec_len (st_buffer s)) (if n = 0 then DEFAULT_MAX_BUFFER_SIZE else n)"
proof -
  let ?limit = "if n > 0 then n else DEFAULT_MAX_BUFFER_SIZE"
  show ?thesis
  proof (cases "vec_try_reserve alloc (?limit - vec_len (st_buffer s)) (st_buffer s)")
    case (Inl e)
    then show ?thesis
      by (simp add: st_set_max_buffer_size_def) (auto simp: vec_try_reserve_def Let_def split: if_splits)
  next
    case (Inr b)
    with vec_try_reserve_ok [OF Inr] show ?thesis
      by (auto simp: st_set_max_buffer_size_def)
  qed
qed

text \<open>C10: a new server side is sound, and once a limit is committed the buffer of a connection never
  grows. Whatever the network does and however the operation ends, dropped half way included,
  \<open>read_command\<close>, \<open>receive_data\<close>, \<open>send_data\<close> and \<open>shutdown\<close> keep the capacity of the buffer, the
  handles, the limit and the timeouts. A header that \<open>read_command\<close> hands out is not a ping and
  announces no more than the limit and less than 2^32, a payload that \<open>receive_data\<close> hands out has the
  length asked for, within the limit, and between a success of \<open>set_max_buffer_size\<close>, the one operation
  that changes the limit, and the next one the capacity is at least that limit.\<close>

theorem server_buffer_never_grows:
  assumes "st_wf s"
  shows "st_wf (st_new rd wr) \<and>
    ensures (\<lambda>r s'. st_wf s' \<and> st_frame s s' \<and>
        (\<forall>cmd m. r = Ready (Inr (Some (cmd, m))) \<longrightarrow> cmd \<noteq> 0 \<and> m \<le> st_max_buffer_size s \<and> m < 2 ^ 32))
      (st_read_command N) s \<and>
    ensures (\<lambda>r s'. st_wf s' \<and> st_frame s s' \<and>
        (\<forall>bs. r = Ready (Inr bs) \<longrightarrow> length bs = n \<and> n \<le> st_max_buffer_size s))
      (st_receive_data N n) s \<and>
    ensures (\<lambda>r s'. st_wf s' \<and> st_frame s s') (st_send_data N status buf) s \<and>
    ensures (\<lambda>r s'. st_wf s' \<and> st_frame s s') (st_shutdown N) s \<and>
    st_wf (snd (st_set_max_buffer_size alloc k s))"
proof (intro conjI)
  show "st_wf (st_new rd wr)" by (rule st_new_wf)
  show "ensures (\<lambda>r s'. st_wf s' \<and> st_frame s s' \<and>
        (\<forall>cmd m. r = Ready (Inr (Some (cmd, m))) \<longrightarrow> cmd \<noteq> 0 \<and> m \<le> st_max_buffer_size s \<and> m < 2 ^ 32))
      (st_read_command N) s"
    by (rule ensures_mono [OF ensures_st_read_command [OF assms]]) (use assms st_frame_wf in auto)
  show "ensures (\<lambda>r s'. st_wf s' \<and> st_frame s s' \<and>
        (\<forall>bs. r = Ready (Inr bs) \<longrightarrow> length bs = n \<and> n \<le> st_max_buffer_size s))
      (st_receive_data N n) s"
    by (rule ensures_mono [OF ensures_st_receive_data [OF assms]]) (use assms st_frame_wf in auto)
  show "ensures (\<lambda>r s'. st_wf s' \<and> st_frame s s') (st_send_data N status buf) s"
    by (rule ensures_mono [OF ensures_st_send_data [OF assms]]) (use assms st_frame_wf in auto)
  show "ensures (\<lambda>r s'. st_wf s' \<and> st_frame s s') (st_shutdown N) s"
    by (rule ensures_mono [OF ensures_st_shutdown]) (use assms in \<open>auto simp: st_frame_def\<close>)
  show "st_wf (snd (st_set_max_buffer_size alloc k s))"
    using assms set_max_buffer_size_commits [where alloc = alloc and n = k and s = s]
    by (auto simp: st_wf_def split: prod.splits sum.splits)
qed

theorem server_buffer_never_grows_witness:
  "ensures (\<lambda>r s'. st_wf s' \<and> st_frame (st_new () ()) s' \<and>
      (\<forall>cmd m. r = Ready (Inr (Some (cmd, m))) \<longrightarrow> cmd \<noteq> 0 \<and> m \<le> st_max_buffer_size (st_new () ()) \<and> m < 2 ^ 32))
     (st_read_command (pipe_net 0 (\<lambda>_. request_bytes 5 0) (\<lambda>_. False))) (st_new () ())"
  using server_buffer_never_grows [OF st_new_wf, of "()" "()" "()" "()"
      "pipe_net 0 (\<lambda>_. request_bytes 5 0) (\<lambda>_. False)"] by blast

text \<open>What \<open>read_command\<close> is to do with a request header, and what it is to answer.\<close>

definition read_command_outcome ::
  "usize \<Rightarrow> u32 \<Rightarrow> u32 \<Rightarrow> (error + (u32 \<times> usize) option) \<times> byte list" where
  "read_command_outcome limit c n =
     (if limit < unat n then (Inl (BufferOverflow (unat n) limit), [])
      else if c \<noteq> 0 then (Inr (Some (c, unat n)), [1])
      else if n = 0 then (Inr None, [1])
      else (Inl (Protocol (lit ''Ping must have data_size=0'')), [7]))"

text \<open>C13: on a reliable connection \<open>read_command\<close> takes exactly one header off the stream and does
  what its table says: a command is acknowledged with 1 and handed out, a ping is answered with 1
  and reported as nothing, a ping that announces a payload is answered with 7 and is a protocol
  error. A size over the limit is an error without any answer: the reply with status 7 that the
  code has for this case is never reached, because decoding refuses the header first.\<close>

theorem read_command_on_the_wire:
  assumes "reliable_conn N h peer sent got" and "st_on h h s"
    and "drop (length (got w)) (peer (sent w)) = request_bytes c n @ rest"
  shows "\<exists>s' w'. st_read_command N dl s w = (Ready (fst (read_command_outcome (st_max_buffer_size s) c n)), s', w') \<and>
    sent w' = sent w @ snd (read_command_outcome (st_max_buffer_size s) c n) \<and>
    got w' = got w @ request_bytes c n \<and> st_on h h s'"
proof -
  note on = assms(2) [unfolded st_on_def]
  let ?o = "read_command_outcome (st_max_buffer_size s) c n"
  have "runs sent got (\<lambda>r s' l'. r = fst ?o \<and> l' = (sent w @ snd ?o, got w @ request_bytes c n) \<and> st_on h h s')
      (st_read_command N) s (sent w, got w)"
  proof -
    consider (large) "st_max_buffer_size s < unat n"
      | (command) "unat n \<le> st_max_buffer_size s" "c \<noteq> 0"
      | (ping) "c = 0" "n = 0" | (bad_ping) "unat n \<le> st_max_buffer_size s" "c = 0" "n \<noteq> 0"
      by force
    then show ?thesis
    proof cases
      case large
      then show ?thesis
        by (intro reliable_conn.runs_st_read_command_oversized [OF assms(1)])
           (use on assms(3) in \<open>auto simp: read_command_outcome_def st_on_def st_wf_def\<close>)
    next
      case command
      then show ?thesis
        by (intro reliable_conn.runs_st_read_command [OF assms(1)])
           (use on assms(3) in \<open>auto simp: read_command_outcome_def st_on_def\<close>)
    next
      case ping
      then show ?thesis
        by (intro reliable_conn.runs_st_read_command_ping [OF assms(1)])
           (use on assms(3) in \<open>auto simp: read_command_outcome_def st_on_def\<close>)
    next
      case bad_ping
      then show ?thesis
        by (intro reliable_conn.runs_st_read_command_bad_ping [OF assms(1)])
           (use on assms(3) in \<open>auto simp: read_command_outcome_def st_on_def\<close>)
    qed
  qed
  then show ?thesis
    by (rule runsE) auto
qed

lemma st_new_on: "st_on rd wr (st_new rd wr)"
  unfolding st_on_def using st_new_wf [of rd wr] by (simp add: st_new_def)

lemma st_new_limit: "st_max_buffer_size (st_new rd wr) = DEFAULT_MAX_BUFFER_SIZE"
  by (simp add: st_new_def)

theorem read_command_on_the_wire_witness:
  "\<exists>s' w'. st_read_command (pipe_net 0 (\<lambda>_. request_bytes 5 2) (\<lambda>_. False)) None (st_new () ()) pipe_start =
     (Ready (Inr (Some (5, 2))), s', w') \<and> pw_sent w' = [1] \<and> pw_got w' = request_bytes 5 2 \<and> st_on () () s'"
  using read_command_on_the_wire [OF pipe.reliable_conn_axioms [where k = 0 and peer = "\<lambda>_. request_bytes 5 2"
        and closed = "\<lambda>_. False" and h = "()"] st_new_on, of pipe_start 5 2 "[]" None]
  by (simp add: read_command_outcome_def st_new_limit DEFAULT_MAX_BUFFER_SIZE_def)

text \<open>C14: \<open>send_data\<close> writes the response header, waits for the client's acknowledgement, and only
  then writes the payload. On a reliable connection it succeeds exactly when the acknowledgement is
  1; with any other byte the payload is withheld and the call is an error.\<close>

theorem send_data_waits_for_ack:
  assumes "reliable_conn N h peer sent got" and "st_on h h s"
    and "drop (length (got w)) (peer (sent w @ sent_header status buf)) = ack # rest"
  shows "\<exists>s' w'. st_send_data N status buf dl s w =
      (Ready (if ack = 1 then Inr () else Inl (Msg (lit ''Receiving response status is not OK''))), s', w') \<and>
    sent w' = sent w @ sent_header status buf @ (if ack = 1 then case_option [] id buf else []) \<and>
    got w' = got w @ [ack] \<and> st_on h h s'"
proof -
  note on = assms(2) [unfolded st_on_def]
  have "runs sent got (\<lambda>r s' l'.
      r = (if ack = 1 then Inr () else Inl (Msg (lit ''Receiving response status is not OK''))) \<and>
      l' = (sent w @ sent_header status buf @ (if ack = 1 then case_option [] id buf else []), got w @ [ack]) \<and>
      st_on h h s') (st_send_data N status buf) s (sent w, got w)"
    by (rule reliable_conn.runs_st_send_data_ack [OF assms(1)]) (use on assms(3) in \<open>auto simp: st_on_def\<close>)
  then show ?thesis
    by (rule runsE [where dl = dl]) auto
qed

theorem send_data_waits_for_ack_witness:
  "\<exists>s' w'. st_send_data (pipe_net 0 (\<lambda>_. [1]) (\<lambda>_. False)) 1 (Some [7, 8]) None (st_new () ()) pipe_start =
     (Ready (Inr ()), s', w') \<and> pw_sent w' = [1, 0, 0, 0, 2, 7, 8] \<and> pw_got w' = [1]"
  using send_data_waits_for_ack [OF pipe.reliable_conn_axioms [where k = 0 and peer = "\<lambda>_. [1]"
        and closed = "\<lambda>_. False" and h = "()"] st_new_on, where w = pipe_start and status = 1 and buf = "Some [7, 8]"
        and ack = 1 and rest = "[]" and dl = None]
  by (auto simp: response_bytes_def to_be_bytes_def)

text \<open>Over any source of bytes \<open>receive_data\<close> hands out exactly the next \<open>n\<close> bytes of the stream,
  and only when \<open>n\<close> is within the limit. A peer that leaves before or inside the payload is always
  reported as gone in mid-frame, with the number of bytes that had arrived.\<close>

theorem receive_data_exact:
  assumes "byte_source N h got" and "st_reader s = h"
    and "st_receive_data N n dl s w = (r, s', w')"
  shows "\<exists>d. got w' = got w @ d \<and> length d \<le> n \<and>
    (case r of
       Ready (Inr bs) \<Rightarrow> bs = d \<and> length bs = n \<and> n \<le> st_max_buffer_size s
     | Ready (Inl e) \<Rightarrow> e \<noteq> ConnectionClosed \<and>
         (\<forall>k m. e = ConnectionClosedMidFrame k m \<longrightarrow> m = n \<and> k = length d \<and> k < n)
     | Pending \<Rightarrow> True)"
proof (cases "n > st_max_buffer_size s")
  case True
  with assms(3) show ?thesis by (auto simp: st_receive_data_def act_simps error_from_str_def)
next
  case False
  let ?buf = "vec_resize n 0 (st_buffer s)"
  let ?dl = "Some (earlier dl (net_now N w + tc_read_data (st_timeout_config s)))"
  obtain r1 b w1 where read: "read_exact_or_closed N h ?dl ?buf w = (r1, b, w1)"
    by (cases "read_exact_or_closed N h ?dl ?buf w")
  obtain d where d: "got w1 = got w @ d" "length d \<le> n"
    "pred_poll (\<lambda>res. frame_result res n d (vdata b)) r1"
    using byte_source.read_exact_or_closed_result [OF assms(1) read] by (auto simp: vec_simps)
  have len: "vec_len b = n" using read_exact_or_closed_frame [OF read] by (simp add: vec_simps)
  have "w' = w1" using assms(2,3) False read
    by (auto simp: st_receive_data_def act_simps timed_unfold Let_def split: poll.splits sum.splits if_splits)
  with d len assms(2,3) False read show ?thesis
    by (intro exI [of _ d])
       (auto simp: st_receive_data_def act_simps timed_unfold Let_def payload_read_error_def vec_len_def
          error_from_str_def split: poll.splits sum.splits if_splits error.splits)
qed

theorem receive_data_exact_witness:
  "case st_receive_data (pipe_net 0 (\<lambda>_. [9, 8, 7]) (\<lambda>_. True)) 2 None (st_new () ()) pipe_start of
     (r, s', w') \<Rightarrow> \<exists>d. pw_got w' = [] @ d \<and> length d \<le> 2"
  using receive_data_exact [OF pipe_source.byte_source_axioms [where k = 0 and peer = "\<lambda>_. [9, 8, 7]"
        and closed = "\<lambda>_. True" and h = "()"], of "st_new () ()" 2 None pipe_start]
  by (auto simp: st_new_def split: prod.split)

end
