(* ===== verification/Server_TLS.thy ===== *)
theory Server_TLS
  imports Server_TL
begin

section \<open>The TLS server side of a connection (server_tls.rs)\<close>

text \<open>
  \<open>ServerTLS\<close>, the same protocol over one boxed TLS stream instead of the two halves of a socket.
  The crate has the code twice, so the model has it twice, and the comparison is a theorem: seen
  through \<open>ss_view\<close>, every operation does what its plain counterpart does, so the contract of the
  transport carries over.
\<close>

record 'h server_tls =
  ss_tls_stream :: 'h
  ss_buffer :: vec
  ss_max_buffer_size :: usize
  ss_timeout_config :: timeout_config

definition ss_new :: "'h \<Rightarrow> 'h server_tls" where
  "ss_new tls_stream =
     \<lparr>ss_tls_stream = tls_stream, ss_buffer = vec_with_capacity DEFAULT_MAX_BUFFER_SIZE,
      ss_max_buffer_size = DEFAULT_MAX_BUFFER_SIZE, ss_timeout_config = default_timeout_config\<rparr>"

definition ss_set_max_buffer_size ::
  "(nat \<Rightarrow> bool) \<Rightarrow> usize \<Rightarrow> 'h server_tls \<Rightarrow> (error + unit) \<times> 'h server_tls" where
  "ss_set_max_buffer_size alloc max_buffer_size s =
     (let limit = (if max_buffer_size > 0 then max_buffer_size else DEFAULT_MAX_BUFFER_SIZE);
          additional = limit - vec_len (ss_buffer s)
      in case vec_try_reserve alloc additional (ss_buffer s) of
           Inl e \<Rightarrow> (Inl (Config (Fmt ''max_buffer_size {limit} cannot be reserved on this system: {e}'' [limit])), s)
         | Inr buf \<Rightarrow> (Inr (), s\<lparr>ss_buffer := buf, ss_max_buffer_size := limit\<rparr>))"

definition ss_set_timeout_config :: "timeout_config \<Rightarrow> 'h server_tls \<Rightarrow> 'h server_tls" where
  "ss_set_timeout_config cfg s = s\<lparr>ss_timeout_config := cfg\<rparr>"

abbreviation ss_on_buffer :: "(vec, 'w, 'a) act \<Rightarrow> ('h server_tls, 'w, 'a) act" where
  "ss_on_buffer \<equiv> borrow ss_buffer (\<lambda>b s. s\<lparr>ss_buffer := b\<rparr>)"

abbreviation ss_set_buffer ::
  "(vec \<Rightarrow> vec) \<Rightarrow> ('h server_tls, 'w, 'a) act \<Rightarrow> ('h server_tls, 'w, 'a) act" where
  "ss_set_buffer f \<equiv> set_self (\<lambda>s. s\<lparr>ss_buffer := f (ss_buffer s)\<rparr>)"

definition ss_send_response_header ::
  "('h, 'w, 'z) net_scheme \<Rightarrow> byte \<Rightarrow> u32 \<Rightarrow> bool \<Rightarrow> duration \<Rightarrow>
     ('h server_tls, 'w, error + unit) act" where
  "ss_send_response_header N status data_size is_default tmo =
     ss_set_buffer vec_clear (with_self (\<lambda>s.
       case response_encode (response_header_new status data_size) (ss_buffer s) is_default of
         Inl e \<Rightarrow> ret (Inl e)
       | Inr buf \<Rightarrow> ss_set_buffer (\<lambda>_. buf) (
           await_try
             (timed N tmo (io (net_write_all N (ss_tls_stream s) (vdata buf))) error_from_io
                (error_from_str (lit ''Sending response header timeout'')))
             (\<lambda>_. await_try (map_err error_from_io (io (net_flush N (ss_tls_stream s))))
             (\<lambda>_. ss_set_buffer vec_clear (ret (Inr ())))))))"

definition ss_receive_response_header ::
  "('h, 'w, 'z) net_scheme \<Rightarrow> bool \<Rightarrow> ('h server_tls, 'w, error + response_header) act" where
  "ss_receive_response_header N is_default =
     ss_set_buffer (vec_resize (response_encoded_len is_default True) 0) (with_self (\<lambda>s.
       await_try
         (timed N (tc_read_header (ss_timeout_config s))
            (ss_on_buffer (read_exact N (ss_tls_stream s))) error_from_io
            (error_from_str (lit ''Timeout waiting for response header'')))
         (\<lambda>_. with_self (\<lambda>s.
            case response_decode (vdata (ss_buffer s)) is_default (ss_max_buffer_size s) of
              Inl e \<Rightarrow> ret (Inl e)
            | Inr (res_header, _) \<Rightarrow> ss_set_buffer vec_clear (ret (Inr res_header))))))"

definition ss_read_command ::
  "('h, 'w, 'z) net_scheme \<Rightarrow> ('h server_tls, 'w, error + (u32 \<times> usize) option) act" where
  "ss_read_command N =
     ss_set_buffer (vec_resize request_encoded_len 0) (with_self (\<lambda>s.
       let cfg = ss_timeout_config s in
       await_try
         (timed N (tc_read_header cfg)
            (ss_on_buffer (read_exact_or_closed N (ss_tls_stream s))) id
            (error_from_str (lit ''Timeout waiting for request header'')))
         (\<lambda>_. with_self (\<lambda>s.
            case request_decode (vdata (ss_buffer s)) (ss_max_buffer_size s) of
              Inl e \<Rightarrow> ret (Inl e)
            | Inr (req_header, _) \<Rightarrow> ss_set_buffer vec_clear (
                let data_size = unat (rq_data_size req_header) in
                if rq_command req_header = command_as_u32 Ping then
                  (if data_size \<noteq> 0 then
                     await_try (ss_send_response_header N 7 0 True (tc_ping_write cfg))
                       (\<lambda>_. ret (Inl (Protocol (lit ''Ping must have data_size=0''))))
                   else
                     await_try (ss_send_response_header N 1 0 True (tc_ping_write cfg))
                       (\<lambda>_. ret (Inr None)))
                else if data_size > ss_max_buffer_size s then
                  await_try (ss_send_response_header N 7 0 True (tc_write cfg))
                    (\<lambda>_. ret (Inl (error_from_str
                       (lit ''Data size exceeds maximum allowed buffer size''))))
                else
                  await_try (ss_send_response_header N 1 0 True (tc_write cfg))
                    (\<lambda>_. ret (Inr (Some (rq_command req_header, data_size)))))))))"

definition ss_receive_data ::
  "('h, 'w, 'z) net_scheme \<Rightarrow> usize \<Rightarrow> ('h server_tls, 'w, error + byte list) act" where
  "ss_receive_data N buf_size = with_self (\<lambda>s.
     if buf_size > ss_max_buffer_size s then ret (Inl (error_from_str (lit ''Invalid data size'')))
     else
       ss_set_buffer (vec_resize buf_size 0) (
         await_try
           (timed N (tc_read_data (ss_timeout_config s))
              (ss_on_buffer (read_exact_or_closed N (ss_tls_stream s))) (payload_read_error buf_size)
              (error_from_str (lit ''Timeout waiting for data'')))
           (\<lambda>_. with_self (\<lambda>s.
              let res = vdata (ss_buffer s) in
              ss_set_buffer vec_clear (ret (Inr res))))))"

definition ss_send_data ::
  "('h, 'w, 'z) net_scheme \<Rightarrow> byte \<Rightarrow> byte list option \<Rightarrow> ('h server_tls, 'w, error + unit) act" where
  "ss_send_data N status buf = with_self (\<lambda>s.
     let cfg = ss_timeout_config s;
         data_size = (case buf of Some b \<Rightarrow> length b | None \<Rightarrow> 0);
         is_default = (buf = None);
         finish = await_try (map_err error_from_io (io (net_flush N (ss_tls_stream s))))
                    (\<lambda>_. ss_set_buffer vec_clear (ret (Inr ())))
     in
     await_try (ss_send_response_header N status (usize_as_u32 data_size) is_default (tc_write cfg))
     (\<lambda>_. await_try (ss_receive_response_header N True)
     (\<lambda>res_header.
        if rs_status res_header \<noteq> 1 then
          ret (Inl (error_from_str (lit ''Receiving response status is not OK'')))
        else
          (case buf of
             Some b \<Rightarrow>
               await_try
                 (timed N (tc_write cfg) (io (net_write_all N (ss_tls_stream s) b)) error_from_io
                    (error_from_str (lit ''Timeout sending data'')))
                 (\<lambda>_. finish)
           | None \<Rightarrow> finish))))"

definition ss_shutdown :: "('h, 'w, 'z) net_scheme \<Rightarrow> ('h server_tls, 'w, error + unit) act" where
  "ss_shutdown N = with_self (\<lambda>s. map_err error_from_io (io (net_flush N (ss_tls_stream s))))"

definition ss_transport :: "('h, 'w, 'z) net_scheme \<Rightarrow> ('h server_tls, 'w) transport" where
  "ss_transport N =
     \<lparr>tr_read_command = narrow_size (ss_read_command N),
      tr_receive_data = (\<lambda>size. ss_receive_data N (unat size)),
      tr_send_response = ss_send_data N,
      tr_shutdown = ss_shutdown N\<rparr>"

subsection \<open>The same protocol\<close>

definition ss_view :: "'h server_tls \<Rightarrow> 'h server_tl" where
  "ss_view s = \<lparr>st_reader = ss_tls_stream s, st_writer = ss_tls_stream s, st_buffer = ss_buffer s,
     st_max_buffer_size = ss_max_buffer_size s, st_timeout_config = ss_timeout_config s\<rparr>"

definition ss_idle :: "'h server_tls \<Rightarrow> 'h server_tls" where
  "ss_idle s = s\<lparr>ss_buffer := Vec [] (vcap (ss_buffer s))\<rparr>"

lemma ss_view_simps [simp]:
  "st_reader (ss_view s) = ss_tls_stream s" "st_writer (ss_view s) = ss_tls_stream s"
  "st_buffer (ss_view s) = ss_buffer s" "st_max_buffer_size (ss_view s) = ss_max_buffer_size s"
  "st_timeout_config (ss_view s) = ss_timeout_config s"
  "(ss_view s)\<lparr>st_buffer := b\<rparr> = ss_view (s\<lparr>ss_buffer := b\<rparr>)"
  "st_idle (ss_view s) = ss_view (ss_idle s)"
  by (simp_all add: ss_view_def ss_idle_def st_idle_def)

lemma ss_idle_idle [simp]: "ss_idle (ss_idle s) = ss_idle s"
  by (simp add: ss_idle_def)

lemma inj_ss_view: "inj ss_view"
  by (rule injI) (simp add: ss_view_def server_tls.equality)

lemma ss_view_new: "ss_view (ss_new h) = st_new h h"
  by (simp add: ss_view_def ss_new_def st_new_def)

lemma ss_view_set_max_buffer_size:
  "st_set_max_buffer_size alloc n (ss_view s) =
     map_prod id ss_view (ss_set_max_buffer_size alloc n s)"
  by (simp add: st_set_max_buffer_size_def ss_set_max_buffer_size_def Let_def split: sum.split)

lemma ss_view_set_timeout_config:
  "st_set_timeout_config cfg (ss_view s) = ss_view (ss_set_timeout_config cfg s)"
  by (simp add: st_set_timeout_config_def ss_set_timeout_config_def ss_view_def)

lemma lifts_ss_send_response_header [lift_rules]:
  "lifts ss_view (ss_send_response_header N status n d tmo) (st_send_response_header N status n d tmo)"
  unfolding ss_send_response_header_def st_send_response_header_def
  by (rule lift_rules | simp split: sum.split | safe)+

lemma lifts_ss_receive_response_header [lift_rules]:
  "lifts ss_view (ss_receive_response_header N d) (st_receive_response_header N d)"
  unfolding ss_receive_response_header_def st_receive_response_header_def
  by (rule lift_rules | simp split: sum.split | safe)+

lemma lifts_ss_read_command [lift_rules]: "lifts ss_view (ss_read_command N) (st_read_command N)"
  unfolding ss_read_command_def st_read_command_def
  by (rule lift_rules | simp add: Let_def split: sum.split | safe)+

lemma lifts_ss_receive_data [lift_rules]: "lifts ss_view (ss_receive_data N n) (st_receive_data N n)"
  unfolding ss_receive_data_def st_receive_data_def
  by (rule lift_rules | simp add: Let_def | safe)+

lemma lifts_ss_send_data [lift_rules]: "lifts ss_view (ss_send_data N status buf) (st_send_data N status buf)"
  unfolding ss_send_data_def st_send_data_def
  by (rule lift_rules | simp add: Let_def split: option.split | safe)+

lemma lifts_ss_shutdown [lift_rules]: "lifts ss_view (ss_shutdown N) (st_shutdown N)"
  unfolding ss_shutdown_def st_shutdown_def by (rule lift_rules | simp)+

lemma ss_transport_lifts: "transport_lifts ss_view (ss_transport N) (st_transport N)"
  unfolding transport_lifts_def ss_transport_def st_transport_def transport.select_convs
  by (intro conjI allI lift_rules)

lemma ss_transport_moves [keep_rules]: "net_moves R N \<Longrightarrow> transport_moves R (ss_transport N)"
  by (rule transport_moves_lifted [OF ss_transport_lifts st_transport_moves])

interpretation tls: transport "ss_transport N" "\<lambda>c. st_on r v (ss_view c)"
    "\<lambda>c. st_max_buffer_size (ss_view c)"
  for N :: "('h, 'w, 'z) net_scheme" and r v :: 'h
  by (rule transport_lifted [OF tl.transport_axioms ss_transport_lifts])

sublocale reliable_conn \<subseteq> tls_wire: wire_transport N h peer sent got "ss_transport N"
    "\<lambda>c. st_on h h (ss_view c)" "\<lambda>c. st_max_buffer_size (ss_view c)" ss_idle
  by (rule wire_transport_lifted [OF tl_wire.wire_transport_axioms ss_transport_lifts inj_ss_view]) simp

subsection \<open>Properties of the TLS server side\<close>

text \<open>C15: the TLS server side is the plain one over a single stream. Seen through \<open>ss_view\<close>, a new
  connection, the two setters, every operation of the protocol and the shutdown do the same, with
  the same result, on the same bytes, at the same moments, also when they are dropped half way.\<close>

theorem server_tls_is_server_tl:
  "ss_view (ss_new h) = st_new h h \<and>
   st_set_max_buffer_size alloc limit (ss_view s) = map_prod id ss_view (ss_set_max_buffer_size alloc limit s) \<and>
   st_set_timeout_config cfg (ss_view s) = ss_view (ss_set_timeout_config cfg s) \<and>
   st_read_command N dl (ss_view s) w = (case ss_read_command N dl s w of (r, s', w') \<Rightarrow> (r, ss_view s', w')) \<and>
   st_receive_data N n dl (ss_view s) w = (case ss_receive_data N n dl s w of (r, s', w') \<Rightarrow> (r, ss_view s', w')) \<and>
   st_send_data N status buf dl (ss_view s) w =
     (case ss_send_data N status buf dl s w of (r, s', w') \<Rightarrow> (r, ss_view s', w')) \<and>
   st_shutdown N dl (ss_view s) w = (case ss_shutdown N dl s w of (r, s', w') \<Rightarrow> (r, ss_view s', w'))"
  by (intro conjI ss_view_new ss_view_set_max_buffer_size ss_view_set_timeout_config
      lifts_ss_read_command [THEN liftsD] lifts_ss_receive_data [THEN liftsD]
      lifts_ss_send_data [THEN liftsD] lifts_ss_shutdown [THEN liftsD])

end
