(* ===== verification/Protocol_Handler.thy ===== *)
theory Protocol_Handler
  imports Transport Protocol_Structs
begin

section \<open>One request and its response (protocol_handler.rs, protocol_command_handler.rs)\<close>

text \<open>
  \<open>ProtocolHandler\<close> owns a transport and the application's command handler. Both are behind trait
  objects: the transport is the record of operations of \<open>Transport\<close>, the command handler is the
  action \<open>run\<close>, code of the application and so an argument, with a state \<open>'u\<close> of its own.
\<close>

type_synonym ('u, 'w) command_handler =
  "u32 \<Rightarrow> byte list \<Rightarrow> ('u, 'w, error + response_status \<times> byte list) act"

record ('c, 'u) protocol_handler =
  ph_transport :: 'c
  ph_command_handler :: 'u

definition ph_new :: "'c \<Rightarrow> 'u \<Rightarrow> ('c, 'u) protocol_handler" where
  "ph_new tr command_handler = \<lparr>ph_transport = tr, ph_command_handler = command_handler\<rparr>"

abbreviation on_transport :: "('c, 'w, 'a) act \<Rightarrow> (('c, 'u) protocol_handler, 'w, 'a) act" where
  "on_transport \<equiv> borrow ph_transport (\<lambda>t p. p\<lparr>ph_transport := t\<rparr>)"

abbreviation on_command_handler :: "('u, 'w, 'a) act \<Rightarrow> (('c, 'u) protocol_handler, 'w, 'a) act" where
  "on_command_handler \<equiv> borrow ph_command_handler (\<lambda>u p. p\<lparr>ph_command_handler := u\<rparr>)"

text \<open>The match on what the command handler returned.\<close>

definition answer ::
  "('c, 'w) transport \<Rightarrow> error + response_status \<times> byte list \<Rightarrow>
     (('c, 'u) protocol_handler, 'w, error + bool) act" where
  "answer T res =
     (case res of
        Inr (status, response_data) \<Rightarrow>
          await_try (on_transport (tr_send_response T (status_as_u8 status) (Some response_data)))
            (\<lambda>_. if status = Finish then ret (Inr False) else ret (Inr True))
      | Inl _ \<Rightarrow>
          await (on_transport (tr_send_response T (status_as_u8 StatusError) (Some [])))
            (\<lambda>_. ret (Inr True)))"

definition handle_next ::
  "('c, 'w) transport \<Rightarrow> ('u, 'w) command_handler \<Rightarrow>
     (('c, 'u) protocol_handler, 'w, error + bool) act" where
  "handle_next T run =
     await_try (on_transport (tr_read_command T)) (\<lambda>info.
       case info of
         None \<Rightarrow> ret (Inr True)
       | Some (command, data_size) \<Rightarrow>
           await_try (on_transport (tr_receive_data T data_size)) (\<lambda>data.
             await (on_command_handler (run command data)) (answer T)))"

subsection \<open>What the command handler is shown\<close>

text \<open>
  The contract of the transport bounds what reaches the application: never a ping, never a payload
  over the limit. Said without looking into a run: a handler that is only good for such requests
  serves as well as any other.
\<close>

definition only_valid ::
  "nat \<Rightarrow> ('u, 'w) command_handler \<Rightarrow> ('u, 'w) command_handler \<Rightarrow> ('u, 'w) command_handler" where
  "only_valid limit run other =
     (\<lambda>cmd data. if cmd \<noteq> 0 \<and> length data \<le> limit \<and> length data < 2 ^ 32 then run cmd data
                 else other cmd data)"

lemma await_cong:
  assumes "ensures (\<lambda>r c'. \<forall>a. r = Ready a \<longrightarrow> (\<forall>dl w. k a dl c' w = k' a dl c' w)) m c"
  shows "await m k dl c w = await m k' dl c w"
  using ensuresD [OF assms, of dl w]
  by (auto simp: act_simps split: prod.splits poll.splits)

lemma await_try_cong:
  assumes "ensures (\<lambda>r c'. \<forall>a. r = Ready (Inr a) \<longrightarrow> (\<forall>dl w. k a dl c' w = k' a dl c' w)) m c"
  shows "await_try m k dl c w = await_try m k' dl c w"
  using ensuresD [OF assms, of dl w]
  by (auto simp: act_simps split: prod.splits poll.splits sum.splits)

context transport
begin

lemma handle_next_only_valid:
  assumes "ok (ph_transport p)"
  shows "handle_next T run dl p w =
    handle_next T (only_valid (limit (ph_transport p)) run other) dl p w"
  unfolding handle_next_def
  apply (rule await_try_cong, rule ensures_borrow, rule ensures_mono [OF read_command [OF assms]])
  apply (clarsimp split: option.split)
  apply (rule await_try_cong, rule ensures_borrow, simp, rule ensures_mono [OF receive_data])
  apply (auto simp: only_valid_def)
  done

text \<open>The transport stays sound, and the command handler's state is only changed by its own run.\<close>

lemma ensures_answer:
  assumes "ok (ph_transport p)"
  shows "ensures (\<lambda>r p'. ok (ph_transport p') \<and> limit (ph_transport p') = limit (ph_transport p) \<and>
      ph_command_handler p' = ph_command_handler p) (answer T res) p"
  using assms unfolding answer_def
  by (auto split: sum.split poll.split prod.split intro!: wp_rules ensures_mono [OF send_response])

lemma ensures_handle_next:
  assumes "ok (ph_transport p)"
  shows "ensures (\<lambda>r p'. ok (ph_transport p') \<and> limit (ph_transport p') = limit (ph_transport p))
    (handle_next T run) p"
  unfolding handle_next_def
  apply (rule ensures_await_try, rule ensures_borrow, rule ensures_mono [OF read_command [OF assms]])
  apply (clarsimp simp: ensures_ret split: poll.split sum.split option.split)
  apply (rule ensures_await_try, rule ensures_borrow, simp, rule ensures_mono [OF receive_data], simp)
  apply (clarsimp split: poll.split sum.split)
  apply (rule ensures_await, rule ensures_borrow, rule ensures_any)
  apply (auto split: poll.split intro!: ensures_mono [OF ensures_answer])
  done

end

lemma moves_answer [keep_rules]:
  assumes "transport_moves R T"
  shows "moves R (answer T res)"
  using assms unfolding answer_def transport_moves_def
  by (auto split: sum.split intro!: moves_await_try moves_await moves_borrow moves_ret)

lemma moves_serve_request [keep_rules]:
  assumes "transport_moves R T" and "\<And>cmd data. moves R (run cmd data)"
  shows "moves R (await_try (on_transport (tr_receive_data T n))
    (\<lambda>data. await (on_command_handler (run cmd data)) (answer T)))"
  using assms moves_answer [OF assms(1)] unfolding transport_moves_def
  by (auto intro!: moves_await_try moves_await moves_borrow)

lemma moves_handle_next [keep_rules]:
  assumes "transport_moves R T" and "\<And>cmd data. moves R (run cmd data)"
  shows "moves R (handle_next T run)"
proof -
  have "growth R" "moves R (tr_read_command T)" using assms(1) by (simp_all add: transport_moves_def)
  then show ?thesis
    unfolding handle_next_def
    by (auto split: option.split intro!: moves_await_try moves_borrow moves_ret
        moves_serve_request [OF assms, simplified])
qed

lemma gains_handle_next:
  assumes "gains R (tr_read_command T) (ph_transport p)"
    and "transport_moves R' T" and "\<And>cmd data. moves R' (run cmd data)"
    and "\<And>u v w. R u v \<Longrightarrow> R' v w \<Longrightarrow> R u w"
  shows "gains R (handle_next T run) p"
  using assms unfolding handle_next_def answer_def transport_moves_def
  by (intro gains_await_try [where R' = R'] gains_borrow)
     (auto split: option.split sum.split prod.split
      intro!: moves_await_try moves_await moves_borrow moves_ret)

subsection \<open>One exchange on a reliable connection\<close>

text \<open>
  A command handler that neither waits nor touches the network is a function of its state and the
  request; \<open>reply\<close> is what the client is told of its result.
\<close>

definition pure_handler ::
  "('u \<Rightarrow> u32 \<Rightarrow> byte list \<Rightarrow> 'u \<times> (error + response_status \<times> byte list)) \<Rightarrow> ('u, 'w) command_handler" where
  "pure_handler f cmd data = (\<lambda>dl u w. case f u cmd data of (u', r) \<Rightarrow> (Ready r, u', w))"

fun reply :: "error + response_status \<times> byte list \<Rightarrow> response_status \<times> byte list" where
  "reply (Inr sd) = sd"
| "reply (Inl e) = (StatusError, [])"

lemma runs_pure_handler [exec_rules]:
  "(\<And>u' r. f u cmd data = (u', r) \<Longrightarrow> Q r u' l) \<Longrightarrow> runs sent got Q (pure_handler f cmd data) u l"
  by (cases l) (auto simp: runs_def pure_handler_def logs_are_def split: prod.splits)

context wire_transport
begin

lemma runs_answer:
  assumes "ok (ph_transport p)" "reply res = (status, out)"
    and "drop (length G) (peer (S @ response_bytes (status_as_u8 status) (usize_as_u32 (length out)))) = 1 # rest"
    and "Q (Inr (\<forall>d. res \<noteq> Inr (Finish, d))) (p\<lparr>ph_transport := idle (ph_transport p)\<rparr>)
      (S @ response_bytes (status_as_u8 status) (usize_as_u32 (length out)) @ out, G @ [1])"
  shows "runs sent got Q (answer T res) p (S, G)"
proof (cases res)
  case (Inl e)
  with assms show ?thesis
    unfolding answer_def
    by (auto intro!: runs_await runs_borrow wire_send [where bs = "[]", simplified] runs_ret)
next
  case (Inr sd)
  with assms show ?thesis
    unfolding answer_def
    by (cases sd) (auto intro!: runs_await_try runs_borrow wire_send runs_ret)
qed

lemma runs_handle_next:
  assumes "ok (ph_transport p)"
    and "cmd \<noteq> 0" "unat n = length data" "unat n \<le> limit (ph_transport p)"
    and "f (ph_command_handler p) cmd data = (u', res)" "reply res = (status, out)"
    and "drop (length G) (peer S) = request_bytes cmd n @ r1"
    and "drop (length G + 8) (peer (S @ [1])) = data @ r2"
    and "drop (length G + 8 + length data)
      (peer (S @ [1] @ response_bytes (status_as_u8 status) (usize_as_u32 (length out)))) = 1 # r3"
    and "Q (Inr (\<forall>d. res \<noteq> Inr (Finish, d)))
      \<lparr>ph_transport = idle (ph_transport p), ph_command_handler = u'\<rparr>
      (S @ [1] @ response_bytes (status_as_u8 status) (usize_as_u32 (length out)) @ out,
       G @ request_bytes cmd n @ data @ [1])"
  shows "runs sent got Q (handle_next T (pure_handler f)) p (S, G)"
  unfolding handle_next_def
  apply (rule runs_await_try, rule runs_borrow, rule wire_read [OF assms(1,7,4,2)])
  apply simp
  apply (rule runs_await_try, rule runs_borrow)
  apply (rule wire_receive [where bs = data and rest = r2])
  using assms
  apply (simp_all add: idle_ok)
  apply (rule runs_await, rule runs_borrow, rule runs_pure_handler)
  apply simp
  apply (rule runs_answer)
  apply (simp_all add: idle_ok add.assoc)
  apply (cases p, simp)
  done

lemma runs_handle_next_ping:
  assumes "ok (ph_transport p)"
    and "drop (length G) (peer S) = request_bytes 0 0 @ rest"
    and "Q (Inr True) (p\<lparr>ph_transport := idle (ph_transport p)\<rparr>) (S @ [1], G @ request_bytes 0 0)"
  shows "runs sent got Q (handle_next T run) p (S, G)"
  unfolding handle_next_def
  apply (rule runs_await_try, rule runs_borrow, rule wire_ping [OF assms(1,2)])
  using assms(3) apply (simp add: runs_ret)
  done

end

end
