(* ===== verification/Connection_Handler.thy ===== *)
theory Connection_Handler
  imports Server_TLS Protocol_Handler
begin

section \<open>The life of a connection (connection_handler.rs)\<close>

text \<open>
  \<open>ConnectionHandler::run\<close> takes the accepted socket, wraps it into a plain or a TLS transport,
  and serves requests until the session ends, the peer goes away or the server shuts down. The
  boxed transport is a value that is either a \<open>ServerTL\<close> or a \<open>ServerTLS\<close>, with operations that
  dispatch on it.
\<close>

subsection \<open>The boxed transport\<close>

datatype 'h conn = Plain "'h server_tl" | Secure "'h server_tls"

definition on_conn ::
  "('h server_tl, 'w, 'a) act \<Rightarrow> ('h server_tls, 'w, 'a) act \<Rightarrow> ('h conn, 'w, 'a) act" where
  "on_conn m n = (\<lambda>dl c w.
     case c of
       Plain s \<Rightarrow> (case m dl s w of (r, s', w') \<Rightarrow> (r, Plain s', w'))
     | Secure s \<Rightarrow> (case n dl s w of (r, s', w') \<Rightarrow> (r, Secure s', w')))"

definition conn_transport :: "('h, 'w, 'z) net_scheme \<Rightarrow> ('h conn, 'w) transport" where
  "conn_transport N =
     \<lparr>tr_read_command = on_conn (tr_read_command (st_transport N)) (tr_read_command (ss_transport N)),
      tr_receive_data = (\<lambda>n. on_conn (tr_receive_data (st_transport N) n) (tr_receive_data (ss_transport N) n)),
      tr_send_response = (\<lambda>status data. on_conn (tr_send_response (st_transport N) status data)
                                                 (tr_send_response (ss_transport N) status data)),
      tr_shutdown = on_conn (tr_shutdown (st_transport N)) (tr_shutdown (ss_transport N))\<rparr>"

fun conn_view :: "'h conn \<Rightarrow> 'h server_tl" where
  "conn_view (Plain s) = s"
| "conn_view (Secure s) = ss_view s"

fun conn_idle :: "'h conn \<Rightarrow> 'h conn" where
  "conn_idle (Plain s) = Plain (st_idle s)"
| "conn_idle (Secure s) = Secure (ss_idle s)"

fun conn_handle :: "'h conn \<Rightarrow> 'h" where
  "conn_handle (Plain s) = st_reader s"
| "conn_handle (Secure s) = ss_tls_stream s"

lemma conn_view_idle: "conn_view (conn_idle c) = st_idle (conn_view c)"
  by (cases c) simp_all

lemma conn_idle_idle: "conn_idle (conn_idle c) = conn_idle c"
  by (cases c) simp_all

text \<open>Either way it does what the plain transport does on the view.\<close>

lemma lifts_on_conn: "lifts ss_view n m \<Longrightarrow> lifts conn_view (on_conn m n) m"
  unfolding lifts_def on_conn_def by (auto split: conn.split prod.split)

lemma conn_transport_lifts: "transport_lifts conn_view (conn_transport N) (st_transport N)"
  using ss_transport_lifts [of N]
  unfolding transport_lifts_def conn_transport_def transport.select_convs
  by (blast intro: lifts_on_conn)

lemma conn_transport_moves [keep_rules]: "net_moves R N \<Longrightarrow> transport_moves R (conn_transport N)"
  by (rule transport_moves_lifted [OF conn_transport_lifts st_transport_moves])

interpretation boxed: transport "conn_transport N" "\<lambda>c. st_on r v (conn_view c)"
    "\<lambda>c. st_max_buffer_size (conn_view c)"
  for N :: "('h, 'w, 'z) net_scheme" and r v :: 'h
  by (rule transport_lifted [OF tl.transport_axioms conn_transport_lifts])

text \<open>The view forgets which of the two a connection is, so the contract on the wire is shown for each.\<close>

lemma runs_on_conn:
  "runs sent got (\<lambda>a s. Q a (Plain s)) m s l \<Longrightarrow> runs sent got Q (on_conn m n) (Plain s) l"
  "runs sent got (\<lambda>a s. Q a (Secure s)) n t l \<Longrightarrow> runs sent got Q (on_conn m n) (Secure t) l"
  by (auto simp: on_conn_def intro: runs_lift [where g = "\<lambda>dl w. dl"])

sublocale reliable_conn \<subseteq> boxed_wire: wire_transport N h peer sent got "conn_transport N"
    "\<lambda>c. st_on h h (conn_view c)" "\<lambda>c. st_max_buffer_size (conn_view c)" conn_idle
proof unfold_locales
  fix c :: "'h conn" and G S rest
  assume ok: "st_on h h (conn_view c)"
  show "runs sent got Q (tr_read_command (conn_transport N)) c (S, G)"
    if "drop (length G) (peer S) = request_bytes cmd n @ rest"
      "unat n \<le> st_max_buffer_size (conn_view c)" "cmd \<noteq> 0"
      "Q (Inr (Some (cmd, n))) (conn_idle c) (S @ [1], G @ request_bytes cmd n)" for cmd n Q
    using ok that tl_wire.wire_read tls_wire.wire_read
    by (cases c) (auto simp: conn_transport_def intro!: runs_on_conn)
  show "runs sent got Q (tr_read_command (conn_transport N)) c (S, G)"
    if "drop (length G) (peer S) = request_bytes 0 0 @ rest"
      "Q (Inr None) (conn_idle c) (S @ [1], G @ request_bytes 0 0)" for Q
    using ok that tl_wire.wire_ping tls_wire.wire_ping
    by (cases c) (auto simp: conn_transport_def intro!: runs_on_conn)
  show "runs sent got P (tr_receive_data (conn_transport N) n) c (S, G)"
    if "drop (length G) (peer S) = bs @ rest" "length bs \<le> st_max_buffer_size (conn_view c)"
      "unat n = length bs" "P (Inr bs) (conn_idle c) (S, G @ bs)" for bs n P
    using ok that tl_wire.wire_receive tls_wire.wire_receive
    by (cases c) (auto simp: conn_transport_def intro!: runs_on_conn)
  show "runs sent got R (tr_send_response (conn_transport N) status (Some bs)) c (S, G)"
    if "drop (length G) (peer (S @ response_bytes status (usize_as_u32 (length bs)))) = 1 # rest"
      "R (Inr ()) (conn_idle c) (S @ response_bytes status (usize_as_u32 (length bs)) @ bs, G @ [1])"
    for status bs R
    using ok that tl_wire.wire_send tls_wire.wire_send
    by (cases c) (auto simp: conn_transport_def intro!: runs_on_conn)
qed (simp_all add: conn_view_idle conn_idle_idle st_on_def)

context reliable_conn
begin

lemma conn_wire:
  "wire_transport N h peer sent got (conn_transport N)
     (\<lambda>c. st_on h h (conn_view c)) (\<lambda>c. st_max_buffer_size (conn_view c)) conn_idle"
  by (rule boxed_wire.wire_transport_axioms)

end

subsection \<open>Waiting for a request or for the shutdown signal\<close>

text \<open>
  The shutdown signal is a watch channel. A receiver is two operations of the environment:
  \<open>wt_changes w\<close> is the time at which \<open>changed()\<close> will next complete (never, without one), and
  \<open>wt_observe\<close> marks the change as seen and reads the value. The \<open>select!\<close> polls both branches; when
  the signal comes first, the future of the other branch is dropped where it stands.
\<close>

record 'w watch =
  wt_changes :: "'w \<Rightarrow> nat option"
  wt_observe :: "'w \<Rightarrow> bool \<times> 'w"

definition select_changed :: "'w watch \<Rightarrow> ('c, 'w, 'a) act \<Rightarrow> ('c, 'w, bool + 'a) act" where
  "select_changed W m = (\<lambda>dl c w.
     case wt_changes W w of
       None \<Rightarrow> (case m dl c w of
           (Ready a, c', w') \<Rightarrow> (Ready (Inr a), c', w')
         | (Pending, c', w') \<Rightarrow> (Pending, c', w'))
     | Some t \<Rightarrow> (case m (Some (earlier dl t)) c w of
           (Ready a, c', w') \<Rightarrow> (Ready (Inr a), c', w')
         | (Pending, c', w') \<Rightarrow>
             (if outer_first dl t then (Pending, c', w')
              else (case wt_observe W w' of (v, w'') \<Rightarrow> (Ready (Inl v), c', w'')))))"

text \<open>
  The request loop. It may serve for ever, so it carries fuel; \<open>None\<close> is running out of it. The
  errors of a request are logged and end the loop; \<open>run\<close> itself returns \<open>Ok(())\<close>.
\<close>

primrec conn_loop ::
  "'w watch \<Rightarrow> ('c, 'w) transport \<Rightarrow> ('u, 'w) command_handler \<Rightarrow> nat \<Rightarrow>
     (('c, 'u) protocol_handler, 'w, unit option) act" where
  "conn_loop W T run 0 = ret None"
| "conn_loop W T run (Suc fuel) =
     await (select_changed W (handle_next T run)) (\<lambda>r.
       case r of
         Inr (Inr keep_alive) \<Rightarrow> if \<not> keep_alive then ret (Some ()) else conn_loop W T run fuel
       | Inr (Inl e) \<Rightarrow> ret (Some ())
       | Inl signal \<Rightarrow> if signal then ret (Some ()) else conn_loop W T run fuel)"

subsection \<open>Accepting and serving\<close>

text \<open>
  Beside the network the server needs a TLS handshake and an allocator, both parameters. A local
  value of an \<open>async\<close> function is dropped when it returns or is itself dropped; dropping the
  transport closes the socket.
\<close>

record ('h, 'acc, 'w) server_env =
  se_net :: "('h, 'w) net"
  se_tls_accept :: "'acc \<Rightarrow> 'h \<Rightarrow> ('w, tls_error + 'h) fut"
  se_alloc :: "nat \<Rightarrow> bool"
  se_shutdown_rx :: "'w watch"

record ('h, 'acc) connection_handler =
  ch_stream :: "'h option"
  ch_tls_acceptor :: "'acc option"
  ch_max_buffer_size :: usize

definition ch_new :: "'h \<Rightarrow> usize \<Rightarrow> ('h, 'acc) connection_handler" where
  "ch_new stream max_buffer_size =
     \<lparr>ch_stream = Some stream, ch_tls_acceptor = None, ch_max_buffer_size = max_buffer_size\<rparr>"

definition ch_set_tls_acceptor ::
  "'acc \<Rightarrow> ('h, 'acc) connection_handler \<Rightarrow> ('h, 'acc) connection_handler" where
  "ch_set_tls_acceptor acceptor ch = ch\<lparr>ch_tls_acceptor := Some acceptor\<rparr>"

definition with_local ::
  "'b \<Rightarrow> ('b \<Rightarrow> 'w \<Rightarrow> 'w) \<Rightarrow> ('b, 'w, 'a) act \<Rightarrow> ('c, 'w, 'a) act" where
  "with_local b drop_local m = (\<lambda>dl c w. case m dl b w of (r, b', w') \<Rightarrow> (r, c, drop_local b' w'))"

definition close_conn :: "('h, 'w, 'z) net_scheme \<Rightarrow> 'h conn \<Rightarrow> 'w \<Rightarrow> 'w" where
  "close_conn N c = net_close N (conn_handle c)"

definition plain_conn ::
  "(nat \<Rightarrow> bool) \<Rightarrow> 'h \<Rightarrow> usize \<Rightarrow> (error + unit) \<times> 'h conn" where
  "plain_conn alloc stream max_buffer_size =
     (case st_set_max_buffer_size alloc max_buffer_size (st_new stream stream) of
        (r, s) \<Rightarrow> (r, Plain s))"

definition secure_conn ::
  "(nat \<Rightarrow> bool) \<Rightarrow> 'h \<Rightarrow> usize \<Rightarrow> (error + unit) \<times> 'h conn" where
  "secure_conn alloc tls_stream max_buffer_size =
     (case ss_set_max_buffer_size alloc max_buffer_size (ss_new tls_stream) of
        (r, s) \<Rightarrow> (r, Secure s))"

definition serve ::
  "('h, 'acc, 'w) server_env \<Rightarrow> ('u, 'w) command_handler \<Rightarrow> nat \<Rightarrow> 'u \<Rightarrow> (error + unit) \<times> 'h conn \<Rightarrow>
     ('c, 'w, error + unit option) act" where
  "serve E run fuel u made =
     (case made of
        (Inl e, c) \<Rightarrow> with_local c (close_conn (se_net E)) (ret (Inl e))
      | (Inr _, c) \<Rightarrow>
          with_local (ph_new c u) (\<lambda>p. close_conn (se_net E) (ph_transport p))
            (await (conn_loop (se_shutdown_rx E) (conn_transport (se_net E)) run fuel)
               (\<lambda>r. ret (Inr r))))"

definition ch_run ::
  "('h, 'acc, 'w) server_env \<Rightarrow> ('u, 'w) command_handler \<Rightarrow> nat \<Rightarrow> 'u \<Rightarrow>
     (('h, 'acc) connection_handler, 'w, error + unit option) act" where
  "ch_run E run fuel u = with_self (\<lambda>ch. set_self (\<lambda>ch. ch\<lparr>ch_stream := None\<rparr>) (
     case ch_stream ch of
       None \<Rightarrow> ret (Inl NotConnected)
     | Some stream \<Rightarrow>
         (case ch_tls_acceptor ch of
            Some tls_acceptor \<Rightarrow>
              await_try (map_err error_from_tls (io (se_tls_accept E tls_acceptor stream)))
                (\<lambda>tls_stream. serve E run fuel u
                   (secure_conn (se_alloc E) tls_stream (ch_max_buffer_size ch)))
          | None \<Rightarrow>
              serve E run fuel u (plain_conn (se_alloc E) stream (ch_max_buffer_size ch)))))"

subsection \<open>The loop ends\<close>

lemma conn_loop_more_fuel:
  assumes "conn_loop W T run fuel dl p w = (r, p', w')" and "r \<noteq> Ready None" and "fuel \<le> fuel'"
  shows "conn_loop W T run fuel' dl p w = (r, p', w')"
  using assms
proof (induction fuel arbitrary: fuel' p w)
  case 0
  then show ?case by (simp add: act_simps)
next
  case (Suc fuel)
  then obtain k where k: "fuel' = Suc k" "fuel \<le> k" by (cases fuel') auto
  obtain r1 p1 w1 where s: "select_changed W (handle_next T run) dl p w = (r1, p1, w1)"
    by (cases "select_changed W (handle_next T run) dl p w")
  from Suc.prems(1,2) Suc.IH [of p1 w1 k] k s show ?case
    by (auto simp: act_simps split: poll.splits sum.splits if_splits)
qed

lemma select_changed_cong:
  assumes "\<And>dl w. m dl c w = m' dl c w"
  shows "select_changed W m dl c w = select_changed W m' dl c w"
  using assms by (simp add: select_changed_def split: option.split)

lemma moves_select_changed [keep_rules]:
  assumes "growth R" "moves R m" "\<And>w. R w (snd (wt_observe W w))"
  shows "moves R (select_changed W m)"
proof (rule movesI)
  fix dl c w r c' w' assume run: "select_changed W m dl c w = (r, c', w')"
  obtain dl1 r1 c1 w1 where m: "m dl1 c w = (r1, c1, w1)" and
    w': "w' = w1 \<or> w' = snd (wt_observe W w1)"
    using run unfolding select_changed_def
    by (auto split: option.splits prod.splits poll.splits if_splits)
  from movesD [OF assms(2) m] w' assms(1,3) show "R w w'"
    by (auto intro: growth_trans)
qed

lemma moves_conn_loop [keep_rules]:
  assumes "transport_moves R T" "\<And>cmd data. moves R (run cmd data)" "\<And>w. R w (snd (wt_observe W w))"
  shows "moves R (conn_loop W T run fuel)"
proof -
  have g: "growth R" using assms(1) by (simp add: transport_moves_def)
  note next' = moves_select_changed [OF g moves_handle_next [OF assms(1,2)] assms(3)]
  show ?thesis
    by (induction fuel) (auto intro!: moves_await moves_ret next' g split: sum.split)
qed

text \<open>What a step of the loop that goes on has done: a whole request, or a signal to stay.\<close>

lemma select_changed_Ready:
  assumes "select_changed W m dl c w = (Ready r, c', w')"
  obtains (request) a dl1 where "r = Inr a" "m dl1 c w = (Ready a, c', w')"
    | (signal) dl1 w1 where "r = Inl (fst (wt_observe W w1))" "m dl1 c w = (Pending, c', w1)"
        "w' = snd (wt_observe W w1)"
  using assms unfolding select_changed_def
  by (auto split: option.splits prod.splits poll.splits if_splits) (metis fst_conv snd_conv)

context byte_source
begin

lemma gains_conn_read_command:
  assumes "st_on h v (conn_view c)" "net_moves (\<lambda>w w'. length (got w) \<le> length (got w')) N"
  shows "gains (\<lambda>w w'. length (got w) + 8 \<le> length (got w')) (tr_read_command (conn_transport N)) c"
proof (rule lifts_gains [where n = "tr_read_command (st_transport N)" and f = conn_view])
  show "lifts conn_view (tr_read_command (conn_transport N)) (tr_read_command (st_transport N))"
    using conn_transport_lifts unfolding transport_lifts_def by blast
  show "gains (\<lambda>w w'. length (got w) + 8 \<le> length (got w')) (tr_read_command (st_transport N)) (conn_view c)"
    using gains_narrow_size [OF gains_st_read_command] assms
    by (simp add: st_transport_def st_on_def)
qed

text \<open>\<open>seen\<close> counts the changes of the channel that were not the signal to stop.\<close>

lemma conn_loop_ends:
  assumes "net_moves R N" and "\<And>u v. R u v \<Longrightarrow> length (got u) \<le> length (got v) \<and> seen u \<le> seen v"
    and "\<And>cmd data. moves R (run cmd data)"
    and "\<And>w. R w (snd (wt_observe W w))"
    and "\<And>w. \<not> fst (wt_observe W w) \<Longrightarrow> seen w < seen (snd (wt_observe W w))"
    and "st_on h v (conn_view (ph_transport p))"
    and "\<And>w'. R w w' \<Longrightarrow> length (got w') + 8 * seen w' < length (got w) + 8 * (seen w + fuel)"
    and "conn_loop W (conn_transport N) run fuel dl p w = (r, p', w')"
  shows "r \<noteq> Ready None"
  using assms(6-8)
proof (induction fuel arbitrary: p w)
  case 0
  from 0(2) [of w] show ?case using net_movesD(1) [OF assms(1)] by (simp add: growth_refl)
next
  case (Suc fuel)
  let ?next = "handle_next (conn_transport N) run"
  let ?len = "\<lambda>w w'. length (got w) \<le> length (got w')"
  have "net_moves ?len N"
    using assms(1,2) unfolding net_moves_def fut_moves_def growth_def by (meson order.refl order.trans)
  then have gain: "gains (\<lambda>w w'. length (got w) + 8 \<le> length (got w')) ?next p"
    using assms(2,3) by (intro gains_handle_next [where R' = ?len] gains_conn_read_command [OF Suc.prems(1)]
      conn_transport_moves) (auto simp: moves_def)
  have move: "moves R ?next"
    by (rule moves_handle_next [OF conn_transport_moves [OF assms(1)] assms(3)])
  have on: "st_on h v (conn_view (ph_transport p1))" if "?next dl1 p w = (r1, p1, w1)" for dl1 r1 p1 w1
    using ensuresD [OF boxed.ensures_handle_next [OF Suc.prems(1)] that] by simp
  have further: "length (got w') + 8 * seen w' < length (got w1) + 8 * (seen w1 + fuel)"
    if "R w w1" "length (got w) + 8 * seen w + 8 \<le> length (got w1) + 8 * seen w1" "R w1 w'" for w1 w'
    using Suc.prems(2) [of w'] growth_trans [OF net_movesD(1) [OF assms(1)] that(1,3)] that(2) by simp
  obtain r1 p1 w1 where s: "select_changed W ?next dl p w = (r1, p1, w1)"
    by (cases "select_changed W ?next dl p w")
  show ?case
  proof (cases r1)
    case Pending
    with Suc.prems(3) s show ?thesis by (simp add: act_simps)
  next
    case (Ready a)
    from s [unfolded Ready] show ?thesis
    proof (cases rule: select_changed_Ready)
      case (signal dl1 w2)
      from movesD [OF move signal(2)] have R: "R w w2" .
      then have R1: "R w w1"
        using growth_trans [OF net_movesD(1) [OF assms(1)] R] assms(4) signal(3) by simp
      show ?thesis
      proof (cases "fst (wt_observe W w2)")
        case True
        with signal Suc.prems(3) s Ready show ?thesis by (auto simp: act_simps)
      next
        case False
        have "length (got w) + 8 * seen w + 8 \<le> length (got w1) + 8 * seen w1"
          using assms(2) [OF R] assms(2) [OF assms(4) [of w2]] assms(5) [OF False] signal(3) by simp
        moreover have "conn_loop W (conn_transport N) run fuel dl p1 w1 = (r, p', w')"
          using Suc.prems(3) s Ready signal False by (simp add: act_simps)
        ultimately show ?thesis by (intro Suc.IH [OF on [OF signal(2)] further [OF R1]])
      qed
    next
      case (request res dl1)
      show ?thesis
      proof (cases "res = Inr True")
        case False
        with Suc.prems(3) s Ready request show ?thesis
          by (cases res) (auto simp: act_simps)
      next
        case True
        from movesD [OF move request(2)] have R: "R w w1" .
        from gainsD [OF gain] request True have "length (got w) + 8 \<le> length (got w1)" by blast
        with assms(2) [OF R] have "length (got w) + 8 * seen w + 8 \<le> length (got w1) + 8 * seen w1" by simp
        moreover have "conn_loop W (conn_transport N) run fuel dl p1 w1 = (r, p', w')"
          using Suc.prems(3) s Ready request True by (simp add: act_simps)
        ultimately show ?thesis by (intro Suc.IH [OF on [OF request(2)] further [OF R]])
      qed
    qed
  qed
qed

end

subsection \<open>Properties of a connection\<close>

lemma conn_loop_only_valid:
  assumes "st_on r v (conn_view (ph_transport p))" "st_max_buffer_size (conn_view (ph_transport p)) = limit"
  shows "conn_loop W (conn_transport N) run fuel dl p w =
    conn_loop W (conn_transport N) (only_valid limit run other) fuel dl p w"
  using assms
proof (induction fuel arbitrary: p w)
  case 0
  then show ?case by simp
next
  case (Suc fuel)
  let ?m = "handle_next (conn_transport N) run" and ?m' = "handle_next (conn_transport N) (only_valid limit run other)"
  have eq: "?m dl p w = ?m' dl p w" for dl w
    using boxed.handle_next_only_valid [OF Suc.prems(1)] Suc.prems(2) by simp
  have sel: "select_changed W ?m dl p w = select_changed W ?m' dl p w"
    by (rule select_changed_cong) (rule eq)
  obtain r1 p1 w1 where s: "select_changed W ?m' dl p w = (r1, p1, w1)"
    by (cases "select_changed W ?m' dl p w")
  have keep: "st_on r v (conn_view (ph_transport p1))" "st_max_buffer_size (conn_view (ph_transport p1)) = limit"
  proof -
    obtain dl1 r2 w2 where "?m' dl1 p w = (r2, p1, w2)"
      using s unfolding select_changed_def
      by (auto split: option.splits prod.splits poll.splits if_splits)
    from ensuresD [OF boxed.ensures_handle_next [OF Suc.prems(1)] this] Suc.prems(2)
    show "st_on r v (conn_view (ph_transport p1))" "st_max_buffer_size (conn_view (ph_transport p1)) = limit"
      by simp_all
  qed
  show ?case
    unfolding conn_loop.simps(2) act_unfold sel s
    by (auto simp: Suc.IH [OF keep] split: poll.split sum.split)
qed

text \<open>C6: what the application's handler is shown, over the whole life of a connection, plain or TLS,
  whatever the peer sends and the network does: never command 0, which is reserved for pings, never
  a payload over the committed limit, and never one of 2^32 bytes or more, however large the limit
  is. Said without looking into a run: a handler that agrees with this one on the other requests,
  whatever it does on these, makes no difference to anything.\<close>

theorem handlers_see_valid_requests:
  assumes "st_wf (conn_view (ph_transport p))"
    and "\<And>cmd data. cmd \<noteq> 0 \<Longrightarrow> length data \<le> st_max_buffer_size (conn_view (ph_transport p)) \<Longrightarrow>
      length data < 2 ^ 32 \<Longrightarrow> run cmd data = run' cmd data"
  shows "conn_loop W (conn_transport N) run fuel dl p w = conn_loop W (conn_transport N) run' fuel dl p w"
proof -
  let ?limit = "st_max_buffer_size (conn_view (ph_transport p))"
  have on: "st_on (st_reader (conn_view (ph_transport p))) (st_writer (conn_view (ph_transport p)))
      (conn_view (ph_transport p))"
    using assms(1) by (simp add: st_on_def)
  have "only_valid ?limit run run' = only_valid ?limit run' run'"
    using assms(2) by (auto simp: only_valid_def fun_eq_iff)
  with conn_loop_only_valid [OF on refl, of W N run fuel dl w run']
    conn_loop_only_valid [OF on refl, of W N run' fuel dl w run'] show ?thesis by simp
qed

text \<open>An echo handler, and one that would answer a ping or an oversized request with \<open>Finish\<close>.\<close>

definition echo :: "(unit, 'w) command_handler" where
  "echo = pure_handler (\<lambda>u cmd data. (u, Inr (Ok, data)))"

definition no_signal :: "'w watch" where
  "no_signal = \<lparr>wt_changes = (\<lambda>w. None), wt_observe = (\<lambda>w. (True, w))\<rparr>"

theorem handlers_see_valid_requests_witness:
  "conn_loop no_signal (conn_transport (pipe_net 0 (\<lambda>_. request_bytes 0 0) (\<lambda>_. True))) echo 3 None
     (ph_new (Plain (st_new () ())) ()) pipe_start =
   conn_loop no_signal (conn_transport (pipe_net 0 (\<lambda>_. request_bytes 0 0) (\<lambda>_. True)))
     (\<lambda>cmd data. if cmd = 0 \<or> 2 ^ 32 \<le> length data
        then pure_handler (\<lambda>u cmd data. (u, Inr (Finish, []))) cmd data else echo cmd data)
     3 None (ph_new (Plain (st_new () ())) ()) pipe_start"
  by (rule handlers_see_valid_requests) (simp_all add: ph_new_def st_new_wf)

text \<open>\<open>run\<close> takes the accepted socket out of the handler, so it serves a connection once: whatever
  a run did and however it ended, a second run of the same handler is a \<open>NotConnected\<close> error and
  touches nothing.\<close>

theorem connection_served_once:
  "case ch_run E run fuel u dl ch w of
     (r, ch', w') \<Rightarrow> ch' = ch\<lparr>ch_stream := None\<rparr> \<and>
       ch_run E run' fuel' u' dl' ch' w'' = (Ready (Inl NotConnected), ch', w'')"
proof -
  have frame: "ensures (\<lambda>r c'. c' = c) (serve E run fuel u made) c" for c made
    unfolding serve_def by (auto simp: ensures_def with_local_def split: prod.splits sum.splits)
  have "ensures (\<lambda>r ch'. ch' = ch\<lparr>ch_stream := None\<rparr>) (ch_run E run fuel u) ch"
    unfolding ch_run_def
    by (rule wp_rules | auto split: option.split poll.split sum.split intro!: wp_rules ensures_mono [OF frame])+
  moreover have "ch_run E run' fuel' u' dl' (ch\<lparr>ch_stream := None\<rparr>) w'' =
      (Ready (Inl NotConnected), ch\<lparr>ch_stream := None\<rparr>, w'')"
    by (simp add: ch_run_def act_simps)
  ultimately show ?thesis
    by (cases "ch_run E run fuel u dl ch w") (auto dest: ensuresD)
qed

text \<open>C8: one request on a reliable connection, plain or TLS. The server acknowledges the header, takes
  exactly the payload, runs the handler once with it, sends the status and the size, waits for the
  acknowledgement and sends the payload of the response. An error of the handler is the status
  \<open>Error\<close> with an empty payload, and the session goes on; \<open>Finish\<close> is sent and ends it.\<close>

theorem request_served:
  assumes "reliable_conn N h peer sent got" and "st_on h h (conn_view c)"
    and "cmd \<noteq> 0" and "unat n = length data" and "unat n \<le> st_max_buffer_size (conn_view c)"
    and "f u cmd data = (u', res)"
    and "(status, out) = (case res of Inr sd \<Rightarrow> sd | Inl e \<Rightarrow> (StatusError, []))"
    and "drop (length (got w)) (peer (sent w)) = request_bytes cmd n @ ra"
    and "drop (length (got w) + 8) (peer (sent w @ [1])) = data @ rb"
    and "drop (length (got w) + 8 + length data)
      (peer (sent w @ [1] @ response_bytes (status_as_u8 status) (usize_as_u32 (length out)))) = 1 # rc"
  shows "\<exists>w'. handle_next (conn_transport N) (pure_handler f) dl (ph_new c u) w =
      (Ready (Inr (\<forall>d. res \<noteq> Inr (Finish, d))), ph_new (conn_idle c) u', w') \<and>
    sent w' = sent w @ [1] @ response_bytes (status_as_u8 status) (usize_as_u32 (length out)) @ out \<and>
    got w' = got w @ request_bytes cmd n @ data @ [1]"
proof -
  have wire: "wire_transport N h peer sent got (conn_transport N) (\<lambda>c. st_on h h (conn_view c))
      (\<lambda>c. st_max_buffer_size (conn_view c)) conn_idle"
    by (rule reliable_conn.conn_wire [OF assms(1)])
  have reply: "reply res = (status, out)" using assms(7) by (cases res) auto
  have "runs sent got (\<lambda>r p l'. r = Inr (\<forall>d. res \<noteq> Inr (Finish, d)) \<and> p = ph_new (conn_idle c) u' \<and>
      l' = (sent w @ [1] @ response_bytes (status_as_u8 status) (usize_as_u32 (length out)) @ out,
            got w @ request_bytes cmd n @ data @ [1]))
    (handle_next (conn_transport N) (pure_handler f)) (ph_new c u) (sent w, got w)"
    by (rule wire_transport.runs_handle_next [OF wire, where u' = u' and res = res and status = status
          and out = out and n = n and cmd = cmd and data = data])
       (use assms reply in \<open>auto simp: ph_new_def\<close>)
  then show ?thesis
    by (rule runsE [where dl = dl]) auto
qed

theorem request_served_witness:
  "\<exists>w'. handle_next (conn_transport (pipe_net 0 (\<lambda>_. request_bytes 5 1 @ [9, 1]) (\<lambda>_. False)))
      (pure_handler (\<lambda>u cmd data. (Suc u, Inr (Ok, data)))) None (ph_new (Plain (st_new () ())) 0) pipe_start =
      (Ready (Inr True), ph_new (conn_idle (Plain (st_new () ()))) 1, w') \<and>
    pw_sent w' = [1, 1, 0, 0, 0, 1, 9] \<and> pw_got w' = request_bytes 5 1 @ [9, 1]"
  using request_served [OF pipe.reliable_conn_axioms [where k = 0 and h = "()" and closed = "\<lambda>_. False"
        and peer = "\<lambda>_. request_bytes 5 1 @ [9, 1]"], where c = "Plain (st_new () ())" and w = pipe_start
      and f = "\<lambda>u cmd data. (Suc u, Inr (Ok, data))" and u = 0 and cmd = 5 and n = 1 and data = "[9]"
      and ra = "[9, 1]" and rb = "[1]" and rc = "[]" and status = Ok and out = "[9]" and dl = None
      and u' = 1 and res = "Inr (Ok, [9])"]
  by (simp add: st_new_on st_new_limit DEFAULT_MAX_BUFFER_SIZE_def response_bytes_def to_be_bytes_def)

text \<open>A limit that cannot be reserved fails that connection with a configuration error, when it is
  served, and closes its socket; not a byte has been read or written by then.\<close>

theorem unreservable_limit_fails_connection:
  assumes "ch_stream ch = Some h" "ch_tls_acceptor ch = None"
    and "\<And>n. \<not> se_alloc E n" "DEFAULT_MAX_BUFFER_SIZE < ch_max_buffer_size ch"
  shows "\<exists>m. ch_run E run fuel u dl ch w =
    (Ready (Inl (Config m)), ch\<lparr>ch_stream := None\<rparr>, net_close (se_net E) h w)"
proof -
  have "\<exists>e. vec_try_reserve (se_alloc E) (ch_max_buffer_size ch) (vec_with_capacity DEFAULT_MAX_BUFFER_SIZE) = Inl e"
    using assms(3,4) by (auto simp: vec_try_reserve_def Let_def vec_with_capacity_def vec_len_def)
  then obtain m where "plain_conn (se_alloc E) h (ch_max_buffer_size ch) = (Inl (Config m), Plain (st_new h h))"
    using assms(4)
    by (auto simp: plain_conn_def st_set_max_buffer_size_def st_new_def Let_def vec_with_capacity_def vec_len_def)
  then show ?thesis
    using assms(1,2)
    by (simp add: ch_run_def act_simps serve_def with_local_def close_conn_def st_new_def)
qed

definition small_env :: "(unit, unit, pipe) server_env" where
  "small_env = \<lparr>se_net = pipe_net 0 (\<lambda>_. []) (\<lambda>_. False), se_tls_accept = (\<lambda>a h dl w. (Ready (Inl 0), w)),
     se_alloc = (\<lambda>n. False), se_shutdown_rx = no_signal\<rparr>"

theorem unreservable_limit_fails_connection_witness:
  "\<exists>m. ch_run small_env echo 5 () None (ch_new () (20 * 1024 * 1024)) pipe_start =
     (Ready (Inl (Config m)), (ch_new () (20 * 1024 * 1024))\<lparr>ch_stream := None\<rparr>, pipe_start)"
  using unreservable_limit_fails_connection [of "ch_new () (20 * 1024 * 1024)" "()" small_env echo 5 "()" None pipe_start]
  by (simp add: ch_new_def small_env_def DEFAULT_MAX_BUFFER_SIZE_def)

end
