(* ===== verification/Timing.thy ===== *)
theory Timing
  imports Client_View Connection_Handler
begin

section \<open>How long a request can take\<close>

text \<open>
  Every wait of the crate's exchange is under a timeout of the configuration. \<open>takes now Q m c\<close> is
  the judgement "the action \<open>m\<close>, started in the state \<open>c\<close> with no deadline around it, returns, after
  at most a time \<open>t\<close> on the clock \<open>now\<close>, with a result, a state and a \<open>t\<close> that satisfy \<open>Q\<close>". As
  with \<open>ensures\<close> and \<open>runs\<close>, it is computed backwards; the times of the parts are added up.
\<close>

subsection \<open>The judgement\<close>

definition takes ::
  "('w \<Rightarrow> nat) \<Rightarrow> ('a \<Rightarrow> 'c \<Rightarrow> nat \<Rightarrow> bool) \<Rightarrow> ('c, 'w, 'a) act \<Rightarrow> 'c \<Rightarrow> bool" where
  "takes now Q m c \<longleftrightarrow>
     (\<forall>w r c' w'. m None c w = (r, c', w') \<longrightarrow>
       (\<exists>a t. r = Ready a \<and> now w' \<le> now w + t \<and> Q a c' t))"

lemma takesI:
  "(\<And>w r c' w'. m None c w = (r, c', w') \<Longrightarrow> \<exists>a t. r = Ready a \<and> now w' \<le> now w + t \<and> Q a c' t) \<Longrightarrow>
     takes now Q m c"
  unfolding takes_def by blast

lemma takesE:
  assumes "takes now Q m c" and "m None c w = (r, c', w')"
  obtains a t where "r = Ready a" and "now w' \<le> now w + t" and "Q a c' t"
  using assms unfolding takes_def by blast

lemma takes_mono: "takes now P m c \<Longrightarrow> (\<And>a c' t. P a c' t \<Longrightarrow> Q a c' t) \<Longrightarrow> takes now Q m c"
  unfolding takes_def by blast

lemma takes_ensures:
  assumes "takes now P m c" and "ensures R m c" and "\<And>a c' t. P a c' t \<Longrightarrow> R (Ready a) c' \<Longrightarrow> Q a c' t"
  shows "takes now Q m c"
  by (rule takesI) (metis assms ensuresD takesE)

lemma takes_ret [delay_rules]: "Q a c 0 \<Longrightarrow> takes now Q (ret a) c"
  by (rule takesI) (auto simp: act_simps)

lemma takes_await [delay_rules]:
  assumes "takes now (\<lambda>a c1 t1. takes now (\<lambda>b c2 t2. Q b c2 (t1 + t2)) (k a) c1) m c"
  shows "takes now Q (await m k) c"
proof (rule takesI)
  fix w r c' w' assume run: "await m k None c w = (r, c', w')"
  obtain r1 c1 w1 where m: "m None c w = (r1, c1, w1)" by (cases "m None c w")
  from assms m obtain a t1 where t1: "r1 = Ready a" "now w1 \<le> now w + t1"
    "takes now (\<lambda>b c2 t2. Q b c2 (t1 + t2)) (k a) c1"
    by (rule takesE)
  have "k a None c1 w1 = (r, c', w')" using run m t1(1) by (simp add: act_simps)
  with t1(3) obtain b t2 where "r = Ready b" "now w' \<le> now w1 + t2" "Q b c' (t1 + t2)"
    by (rule takesE)
  with t1(2) show "\<exists>a t. r = Ready a \<and> now w' \<le> now w + t \<and> Q a c' t"
    by (intro exI [of _ b] exI [of _ "t1 + t2"]) simp
qed

lemma takes_await_try [delay_rules]:
  assumes "takes now (\<lambda>r c1 t1. case r of Inr a \<Rightarrow> takes now (\<lambda>b c2 t2. Q b c2 (t1 + t2)) (k a) c1
      | Inl e \<Rightarrow> Q (Inl e) c1 t1) m c"
  shows "takes now Q (await_try m k) c"
  unfolding await_try_def
  by (rule takes_await, rule takes_mono [OF assms]) (auto split: sum.splits intro: takes_ret)

lemma takes_with_self [delay_rules]: "takes now Q (k c) c \<Longrightarrow> takes now Q (with_self k) c"
  by (simp add: takes_def act_simps)

lemma takes_set_self [delay_rules]: "takes now Q k (f c) \<Longrightarrow> takes now Q (set_self f k) c"
  by (simp add: takes_def act_simps)

lemma takes_map_err [delay_rules]:
  assumes "takes now (\<lambda>r c' t. case r of Inr a \<Rightarrow> Q (Inr a) c' t | Inl e \<Rightarrow> Q (Inl (f e)) c' t) m c"
  shows "takes now Q (map_err f m) c"
  unfolding map_err_def
  by (rule takes_await, rule takes_mono [OF assms]) (auto split: sum.splits intro: takes_ret)

lemma takes_borrow [delay_rules]:
  "takes now (\<lambda>a b t. Q a (put b c) t) m (get c) \<Longrightarrow> takes now Q (borrow get put m) c"
  by (fastforce simp: takes_def act_simps split: prod.splits)

lemma takes_lifts:
  assumes "lifts f m n" and "takes now (\<lambda>a d t. \<forall>c'. d = f c' \<longrightarrow> Q a c' t) n (f c)"
  shows "takes now Q m c"
proof (rule takesI)
  fix w r c' w' assume "m None c w = (r, c', w')"
  with assms(1) have "n None (f c) w = (r, f c', w')" by (simp add: lifts_def)
  with assms(2) show "\<exists>a t. r = Ready a \<and> now w' \<le> now w + t \<and> Q a c' t"
    by (auto elim!: takesE)
qed

text \<open>
  Where the times come from: a timeout, around anything that keeps its deadline, and the operations
  that do not wait, like the flush of a socket.
\<close>

lemma takes_timed [delay_rules]:
  assumes "timely (net_now N) m"
    and "ensures (\<lambda>r c'. case r of Ready (Inr a) \<Rightarrow> Q (Inr a) c' d
      | Ready (Inl e) \<Rightarrow> Q (Inl (conv e)) c' d | Pending \<Rightarrow> Q (Inl el) c' d) m c"
  shows "takes (net_now N) Q (timed N d m conv el) c"
proof (rule takesI)
  fix w r c' w' assume run: "timed N d m conv el None c w = (r, c', w')"
  from timed_returns [OF assms(1) run] have r: "r \<noteq> Pending" "net_now N w' \<le> net_now N w + d" by auto
  let ?dl = "Some (earlier None (net_now N w + d))"
  obtain r1 c1 w1 where m: "m ?dl c w = (r1, c1, w1)" by (cases "m ?dl c w")
  from ensuresD [OF assms(2) m] run m r show "\<exists>a t. r = Ready a \<and> net_now N w' \<le> net_now N w + t \<and> Q a c' t"
    by (intro exI [of _ "case r of Ready a \<Rightarrow> a"] exI [of _ d])
       (auto simp: timed_unfold Let_def split: poll.splits sum.splits)
qed

lemma takes_timeout [delay_rules]:
  assumes "timely (net_now N) m"
    and "ensures (\<lambda>r c'. case r of Ready a \<Rightarrow> Q (Inr a) c' d | Pending \<Rightarrow> Q (Inl Elapsed) c' d) m c"
  shows "takes (net_now N) Q (timeout N d m) c"
proof (rule takesI)
  fix w r c' w' assume run: "timeout N d m None c w = (r, c', w')"
  let ?t = "net_now N w + d"
  obtain r1 c1 w1 where m: "m (Some ?t) c w = (r1, c1, w1)" by (cases "m (Some ?t) c w")
  from ensuresD [OF assms(2) m] timelyD [OF assms(1) m] run m
  show "\<exists>a t. r = Ready a \<and> net_now N w' \<le> net_now N w + t \<and> Q a c' t"
    by (intro exI [of _ "case r of Ready a \<Rightarrow> a"] exI [of _ d])
       (auto simp: timeout_def Let_def split: poll.splits)
qed

definition immediate :: "('w \<Rightarrow> nat) \<Rightarrow> ('w, 'a) fut \<Rightarrow> bool" where
  "immediate now f \<longleftrightarrow> (\<forall>w r w'. f None w = (r, w') \<longrightarrow> r \<noteq> Pending \<and> now w' \<le> now w)"

lemma takes_io [delay_rules]:
  assumes "immediate now f" and "\<And>a. Q a c 0"
  shows "takes now Q (io f) c"
proof (rule takesI)
  fix w r c' w' assume "io f None c w = (r, c', w')"
  with assms show "\<exists>a t. r = Ready a \<and> now w' \<le> now w + t \<and> Q a c' t"
    unfolding immediate_def by (cases r) (auto simp: act_simps intro!: exI [of _ 0] split: prod.splits)
qed

text \<open>The runtime keeps deadlines in reading and writing, and a flush does not wait.\<close>

definition io_timely :: "('h, 'w, 'z) net_scheme \<Rightarrow> bool" where
  "io_timely N \<longleftrightarrow>
     (\<forall>h n. fut_timely (net_now N) (net_read N h n)) \<and>
     (\<forall>h bs. fut_timely (net_now N) (net_write_all N h bs)) \<and>
     (\<forall>h. immediate (net_now N) (net_flush N h))"

lemma io_timelyD:
  assumes "io_timely N"
  shows "fut_timely (net_now N) (net_read N h n)" "fut_timely (net_now N) (net_write_all N h bs)"
    "immediate (net_now N) (net_flush N h)"
  using assms unfolding io_timely_def by blast+

lemma timely_read_exact_or_closed [time_rules]:
  assumes "io_timely N"
  shows "timely (net_now N) (read_exact_or_closed N h)"
proof (rule timelyI)
  fix t buf w r buf' w' assume "read_exact_or_closed N h (Some t) buf w = (r, buf', w')"
  then show "net_now N w' \<le> max t (net_now N w)"
    unfolding read_exact_or_closed_def
  proof (induction rule: fill_from_run)
    case (step filled buf w w1 bs r buf' w')
    with io_timelyD(1) [OF assms] have "net_now N w1 \<le> max t (net_now N w)" unfolding fut_timely_def by blast
    with step.IH show ?case by simp
  qed (use io_timelyD(1) [OF assms] in \<open>auto simp: fut_timely_def\<close>)
qed

lemma timely_read_exact [time_rules]:
  assumes "io_timely N"
  shows "timely (net_now N) (read_exact N h)"
proof (rule timelyI)
  fix t buf w r buf' w' assume run: "read_exact N h (Some t) buf w = (r, buf', w')"
  obtain r1 b1 w1 where fill: "read_exact_or_closed N h (Some t) buf w = (r1, b1, w1)"
    by (cases "read_exact_or_closed N h (Some t) buf w")
  with run have "w' = w1"
    by (auto simp: read_exact_def read_exact_or_closed_def read_exact_from_fill_from
        split: poll.splits sum.splits)
  with fill show "net_now N w' \<le> max t (net_now N w)"
    using timelyD [OF timely_read_exact_or_closed [OF assms]] by blast
qed

subsection \<open>The client's exchange\<close>

lemmas net_time = timely_io timely_borrow io_timelyD timely_read_exact_or_closed timely_read_exact

lemma takes_ct_send_request_header:
  assumes "io_timely N" and "\<And>r b' t. t \<le> tmo \<Longrightarrow> Q r b' t"
  shows "takes (net_now N) Q (ct_send_request_header N s cmd n tmo) b"
  using assms(2) unfolding ct_send_request_header_def
  by - (rule delay_rules wp_rules net_time assms(1) | auto split: poll.split sum.split)+

lemma takes_ct_send_response_header:
  assumes "io_timely N" and "\<And>r b' t. t \<le> tmo \<Longrightarrow> Q r b' t"
  shows "takes (net_now N) Q (ct_send_response_header N s st n tmo) b"
  using assms(2) unfolding ct_send_response_header_def Let_def
  by - (rule delay_rules wp_rules net_time assms(1) | auto split: poll.split sum.split)+

lemma takes_ct_receive_response_header:
  assumes "io_timely N" and "\<And>r b' t. t \<le> tmo \<Longrightarrow> Q r b' t"
  shows "takes (net_now N) Q (ct_receive_response_header N s d a tmo limit) b"
  using assms(2) unfolding ct_receive_response_header_def Let_def
  by - (rule delay_rules wp_rules net_time assms(1) | auto split: poll.split sum.split)+

lemma takes_ct_send_message:
  assumes "io_timely N" and "\<And>r b' t. t \<le> 2 * tc_write cfg + tc_read_header cfg \<Longrightarrow> Q r b' t"
  shows "takes (net_now N) Q (ct_send_message N s cmd data cfg a limit) b"
  using assms(2) unfolding ct_send_message_def
  by - (rule delay_rules wp_rules net_time assms(1) takes_ct_send_request_header
      takes_ct_receive_response_header | auto split: poll.split sum.split)+

lemma takes_ct_receive_message:
  assumes "io_timely N"
    and "\<And>r b' t. t \<le> tc_write cfg + tc_read_header cfg + tc_read_data cfg \<Longrightarrow> Q r b' t"
  shows "takes (net_now N) Q (ct_receive_message N s cfg a limit) b"
  using assms(2) unfolding ct_receive_message_def Let_def
  by - (rule delay_rules wp_rules net_time assms(1) takes_ct_send_response_header
      takes_ct_receive_response_header | auto split: poll.split sum.split)+

definition exchange_time :: "timeout_config \<Rightarrow> nat" where
  "exchange_time cfg = 3 * tc_write cfg + 2 * tc_read_header cfg + tc_read_data cfg"

lemma takes_ct_exchange:
  assumes "io_timely N" and "\<And>r b' t. t \<le> exchange_time cfg \<Longrightarrow> Q r b' t"
  shows "takes (net_now N) Q (ct_exchange N s cmd data cfg a limit) b"
  using assms(2) unfolding ct_exchange_def exchange_time_def
  by - (rule takes_await_try takes_ct_send_message takes_ct_receive_message assms(1)
    | auto split: sum.split)+

subsection \<open>A message of the client\<close>

lemma takes_effect [delay_rules]:
  assumes "\<And>w. now (snd (f c w)) \<le> now w" and "\<And>w. Q () (fst (f c w)) 0"
  shows "takes now Q (effect f) c"
proof (rule takesI)
  fix w r c' w' assume "effect f None c w = (r, c', w')"
  then have "r = Ready ()" "c' = fst (f c w)" "w' = snd (f c w)"
    by (auto simp: effect_def split: prod.splits)
  with assms [of w] show "\<exists>a t. r = Ready a \<and> now w' \<le> now w + t \<and> Q a c' t"
    by (intro exI [of _ "()"] exI [of _ 0]) simp
qed

lemma takes_shared:
  fixes c :: "('h, 'z) shared_scheme"
  assumes "client_timely N" and "\<And>c'. shared.more c' = shared.more c \<Longrightarrow> Q () c' 0"
  shows "takes (net_now N) Q (put_stream N new) c" and "takes (net_now N) Q (stop_ping_task N) c"
    and "takes (net_now N) Q (touch_activity N) c"
  using assms unfolding client_timely_def put_stream_def stop_ping_task_def touch_activity_def
  by (auto simp: update_ping_def split: option.split intro!: delay_rules)

lemma takes_with_in_flight [delay_rules]:
  assumes "takes now (\<lambda>r s t. Q r (set_in_flight False s) t) m (set_in_flight True c)"
  shows "takes now Q (with_in_flight m) c"
proof (rule takesI)
  fix w r c' w' assume run: "with_in_flight m None c w = (r, c', w')"
  then obtain s where "m None (set_in_flight True c) w = (r, s, w')" "c' = set_in_flight False s"
    by (auto simp: with_in_flight_def split: prod.splits)
  with assms show "\<exists>a t. r = Ready a \<and> now w' \<le> now w + t \<and> Q a c' t"
    by (auto elim!: takesE)
qed

text \<open>Connecting changes nothing of a client but its stream and its ping task.\<close>

lemma ensures_shared:
  fixes c :: "('h, 'z) shared_scheme"
  assumes "\<And>r c'. shared.more c' = shared.more c \<Longrightarrow> Q r c'"
  shows "ensures Q (wait_lock N) c" and "ensures Q (put_stream N new) c"
    and "ensures Q (stop_ping_task N) c" and "ensures Q (start_ping_task N) c"
proof -
  show "ensures Q (wait_lock N) c"
    unfolding wait_lock_def by (rule ensures_borrow, rule ensures_any, rule assms) simp
  show "ensures Q (put_stream N new) c" "ensures Q (stop_ping_task N) c" "ensures Q (start_ping_task N) c"
    unfolding put_stream_def stop_ping_task_def start_ping_task_def
    by (auto intro!: ensures_with_self ensures_set_self ensures_effect ensures_ret assms
        simp: update_ping_def split: option.splits prod.splits)
qed

lemma settings_cong:
  assumes "shared.more c' = shared.more (c :: 'h client_tl)"
  shows "ct_timeout_config c' = ct_timeout_config c" "ct_keep_alive c' = ct_keep_alive c"
    "ct_buffer c' = ct_buffer c" "ct_max_buffer_size c' = ct_max_buffer_size c"
    "ct_command_has_answer c' = ct_command_has_answer c"
  using assms by (cases c; cases c'; simp)+

lemma ensures_ct_connect_loop:
  "ensures (\<lambda>r c'. shared.more c' = shared.more c) (ct_connect_loop N tries) c"
proof (induction N tries arbitrary: c rule: ct_connect_loop.induct)
  case (1 N tries)
  have step: "ensures (\<lambda>r c'. shared.more c' = shared.more c) (ct_connect_loop N (Suc tries)) c'"
    if "shared.more c' = shared.more c" "tries < DEFAULT_MAX_CONNECT_RETRIES" for c'
    using "1.IH" [OF that(2), of c'] that(1) by simp
  have connected: "ensures (\<lambda>r c'. shared.more c' = shared.more c) (ct_connected N stream) c" for stream
    unfolding ct_connected_def ct_configure_socket_def
    by (auto intro!: ensures_await ensures_with_self ensures_ret ensures_effect ensures_shared
        split: poll.split)
  show ?case
    by (subst ct_connect_loop.simps)
       (auto intro!: wp_rules ensures_shared step connected split: poll.split sum.split)
qed

lemma ensures_ct_connect: "ensures (\<lambda>r c'. shared.more c' = shared.more c) (ct_connect N) c"
  unfolding ct_connect_def
  by (intro ensures_with_self ensures_timed, rule ensures_mono [OF ensures_ct_connect_loop])
     (auto split: poll.split sum.split)

lemma takes_ct_connect:
  assumes "client_timely N"
    and "\<And>r c'. ct_timeout_config c' = ct_timeout_config c \<Longrightarrow> Q r c' (tc_connect_total (ct_timeout_config c))"
  shows "takes (net_now N) Q (ct_connect N) c"
  using assms unfolding ct_connect_def
  by (intro takes_with_self takes_timed timely_ct_connect_loop, simp)
     (rule ensures_mono [OF ensures_ct_connect_loop], auto dest: settings_cong(1) split: poll.split sum.split)

text \<open>
  The waits for a mutex are the one thing the configuration does not bound. \<open>waits_within W\<close> says that
  whatever holds a mutex the client waits for lets go of it within \<open>W\<close>, \<open>stream_kept\<close> that nobody
  drops the stream meanwhile.
\<close>

definition waits_within :: "nat \<Rightarrow> ('h, 'w, 'y) task_net_scheme \<Rightarrow> bool" where
  "waits_within W N \<longleftrightarrow> (\<forall>s. takes (net_now N) (\<lambda>r s' t. t \<le> W) (tn_others N) s)"

definition stream_kept :: "('h, 'w, 'y) task_net_scheme \<Rightarrow> bool" where
  "stream_kept N \<longleftrightarrow>
     (\<forall>s. ensures (\<lambda>r s'. sh_stream s \<noteq> None \<longrightarrow> sh_stream s' \<noteq> None) (tn_others N) s)"

lemma undisturbed_waits: "undisturbed N \<Longrightarrow> waits_within 0 N \<and> stream_kept N"
  by (simp add: undisturbed_def waits_within_def stream_kept_def takes_def ensures_def act_simps)

lemma takes_wait_lock:
  fixes c :: "('h, 'z) shared_scheme"
  assumes "waits_within W N"
    and "\<And>c' t. shared.more c' = shared.more c \<Longrightarrow>
      stream_kept N \<longrightarrow> sh_stream c \<noteq> None \<longrightarrow> sh_stream c' \<noteq> None \<Longrightarrow> t \<le> W \<Longrightarrow> Q () c' t"
  shows "takes (net_now N) Q (wait_lock N) c"
  unfolding wait_lock_def
proof (rule takes_borrow, rule takesI)
  fix w r s w' assume run: "tn_others N None (shared.truncate c) w = (r, s, w')"
  from assms(1) have "takes (net_now N) (\<lambda>r s' t. t \<le> W) (tn_others N) (shared.truncate c)"
    by (simp add: waits_within_def)
  from this run obtain a t where t: "r = Ready a" "net_now N w' \<le> net_now N w + t" "t \<le> W" by (rule takesE)
  have "sh_stream c \<noteq> None \<longrightarrow> sh_stream s \<noteq> None" if kept: "stream_kept N"
  proof -
    from kept have "ensures (\<lambda>r s'. sh_stream (shared.truncate c) \<noteq> None \<longrightarrow> sh_stream s' \<noteq> None)
        (tn_others N) (shared.truncate c)"
      unfolding stream_kept_def by blast
    from ensuresD [OF this run] show ?thesis by (simp add: shared.truncate_def)
  qed
  with t show "\<exists>a t. r = Ready a \<and> net_now N w' \<le> net_now N w + t \<and>
      Q a (c\<lparr>sh_stream := sh_stream s, sh_ping := sh_ping s\<rparr>) t"
    by (intro exI [of _ a] exI [of _ t]) (auto intro!: assms(2))
qed

lemma takes_ct_handle_locked:
  assumes "client_timely N" "io_timely N" "waits_within W N"
    and "\<And>r c' t. t \<le> W + exchange_time (ct_timeout_config c) \<Longrightarrow> Q r c' t"
  shows "takes (net_now N) Q (ct_handle_locked N cmd data) c"
  unfolding ct_handle_locked_def
proof (rule takes_await, rule takes_wait_lock [OF assms(3)], rule takes_with_self)
  fix c1 :: "'a client_tl" and t
  assume more: "shared.more c1 = shared.more c" and t: "t \<le> W"
  show "takes (net_now N) (\<lambda>b c2 t2. Q b c2 (t + t2))
    (case sh_stream c1 of None \<Rightarrow> ret (Inl NotConnected)
     | Some stream \<Rightarrow> await (ct_on_buffer (ct_exchange N stream cmd data (ct_timeout_config c1)
           (ct_command_has_answer c1) (ct_max_buffer_size c1)))
         (\<lambda>result. case result of
              Inl e \<Rightarrow> await (put_stream N None) (\<lambda>_. await (stop_ping_task N) (\<lambda>_. ret result))
            | Inr _ \<Rightarrow> await (touch_activity N) (\<lambda>_. ret result))) c1"
    unfolding settings_cong [OF more]
    using t by (auto split: option.split sum.split intro!: assms(4) takes_ret takes_await takes_borrow
        takes_ct_exchange [OF assms(2)] takes_shared [OF assms(1)])
qed

definition connect_time :: "('h, 'w, 'y) client_net_scheme \<Rightarrow> 'h client_tl \<Rightarrow> nat" where
  "connect_time N c =
     (if ct_keep_alive c \<and> sh_stream c \<noteq> None \<and> stream_kept N then 0
      else tc_connect_total (ct_timeout_config c))"

lemma takes_ct_handle_message:
  assumes "client_timely N" "io_timely N" "waits_within W N"
    and "\<And>r c' t. t \<le> connect_time N c + exchange_time (ct_timeout_config c) + 3 * W \<Longrightarrow> Q r c' t"
  shows "takes (net_now N) Q (ct_handle_message N cmd data) c"
  unfolding ct_handle_message_def
proof (rule takes_with_self, rule takes_await_try)
  let ?cfg = "ct_timeout_config c"
  let ?rest = "await (wait_lock N) (\<lambda>_. with_in_flight (ct_handle_locked N cmd data))"
  have rest: "takes (net_now N) (\<lambda>b c2 t2. Q b c2 (t + t2)) ?rest c1"
    if "ct_timeout_config c1 = ?cfg" "t \<le> connect_time N c + W" for c1 t
    using that by (auto intro!: assms(4) takes_await takes_wait_lock [OF assms(3)] takes_with_in_flight
        takes_ct_handle_locked [OF assms(1-3)] dest!: settings_cong(1) simp: set_in_flight_def update_ping_def)
  let ?Q = "\<lambda>r c1 t1. case r of Inr a \<Rightarrow> takes (net_now N) (\<lambda>b c2 t2. Q b c2 (t1 + t2)) ?rest c1
      | Inl e \<Rightarrow> Q (Inl e) c1 t1"
  let ?look = "await (wait_lock N) (\<lambda>_. with_self (\<lambda>c. if sh_stream c = None then ct_connect N else ret (Inr ())))"
  show "takes (net_now N) ?Q
    (if \<not> ct_keep_alive c then ct_connect N
     else ?look) c"
  proof (cases "ct_keep_alive c")
    case False
    then show ?thesis
      by (auto simp: connect_time_def split: sum.split intro!: takes_ct_connect [OF assms(1)] rest assms(4))
  next
    case True
    have "takes (net_now N) ?Q ?look c"
    proof (rule takes_await, rule takes_wait_lock [OF assms(3)], rule takes_with_self)
      fix c1 :: "'a client_tl" and t
      assume more: "shared.more c1 = shared.more c" and t: "t \<le> W"
        and kept: "stream_kept N \<longrightarrow> sh_stream c \<noteq> None \<longrightarrow> sh_stream c1 \<noteq> None"
      note cfg = settings_cong(1) [OF more]
      show "takes (net_now N) (\<lambda>a c2 t2. case a of
            Inr a \<Rightarrow> takes (net_now N) (\<lambda>b c3 t3. Q b c3 (t + t2 + t3)) ?rest c2
          | Inl e \<Rightarrow> Q (Inl e) c2 (t + t2)) (if sh_stream c1 = None then ct_connect N else ret (Inr ())) c1"
        using True t kept
        by (auto simp: cfg connect_time_def split: sum.split
            intro!: takes_ct_connect [OF assms(1)] takes_ret rest assms(4))
    qed
    with True show ?thesis by simp
  qed
qed

text \<open>What a ping makes the client wait for: once it has both mutexes it lets go of them within the time
  of its write, \<open>read_header\<close> and the wait for the rest of an old answer. The write has no timeout, so
  a peer that has stopped reading sets no bound.\<close>

definition writes_within :: "nat \<Rightarrow> ('h, 'w, 'z) net_scheme \<Rightarrow> bool" where
  "writes_within B N \<longleftrightarrow> (\<forall>h bs. takes (net_now N) (\<lambda>r s t. t \<le> B) (io (net_write_all N h bs)) ())"

lemma takes_write:
  assumes "writes_within B N" and "\<And>r t. t \<le> B \<Longrightarrow> Q r c t"
  shows "takes (net_now N) Q (io (net_write_all N h bs)) c"
proof (rule takesI)
  fix w r c' w' assume "io (net_write_all N h bs) None c w = (r, c', w')"
  then have c: "c' = c" and io: "io (net_write_all N h bs) None () w = (r, (), w')"
    by (auto simp: act_simps split: prod.splits)
  from assms(1) have "takes (net_now N) (\<lambda>r s t. t \<le> B) (io (net_write_all N h bs)) ()"
    by (simp add: writes_within_def)
  from this io obtain a t where "r = Ready a" "net_now N w' \<le> net_now N w + t" "t \<le> B" by (rule takesE)
  with assms(2) c show "\<exists>a t. r = Ready a \<and> net_now N w' \<le> net_now N w + t \<and> Q a c' t" by blast
qed

lemma ping_holds_mutexes_within:
  assumes "client_timely N" "io_timely N" "writes_within B N" "undisturbed N"
  shows "takes (net_now N)
    (\<lambda>r s' t. t \<le> B + tc_read_header (pg_timeout_config (sh_ping s)) + PING_OLD_FORMAT_READ_TIMEOUT)
    (ping_exchange N) s"
proof -
  let ?D = "tc_read_header (pg_timeout_config (sh_ping s)) + PING_OLD_FORMAT_READ_TIMEOUT"
  have array: "timely (net_now N) (read_array N h n :: (('a, 'd) shared_scheme, 'b, _) act)" for h n
    by (rule timelyI) (auto simp: read_array_def split: prod.splits poll.splits sum.splits
        dest!: timelyD [OF timely_read_exact [OF assms(2)]])
  have read: "takes (net_now N) (\<lambda>r s' t. t \<le> ?D \<and> s' = s)
      (receive_ping_response_impl N h (tc_read_header (pg_timeout_config (sh_ping s)))) s" for h
  proof -
    have local: "ensures (\<lambda>r s'. s' = s) (read_array N h n) s" for n
      by (auto simp: ensures_def read_array_def split: prod.splits poll.splits sum.splits)
    show ?thesis
      unfolding receive_ping_response_impl_def Let_def
      by (auto split: poll.split sum.split intro!: takes_ret takes_await takes_await_try takes_timed [OF array]
          takes_timeout [OF array] ensures_mono [OF local])
  qed
  have send: "takes (net_now N) (\<lambda>r s' t. t \<le> B \<and> s' = s) (send_ping_request_impl N h) s" for h
    unfolding send_ping_request_impl_def
    by (auto split: sum.split intro!: takes_ret takes_await_try takes_map_err takes_write [OF assms(3)]
        takes_io io_timelyD [OF assms(2)])
  show ?thesis
    unfolding ping_exchange_def wait_lock_undisturbed [OF assms(4)] Let_def
    by (auto split: option.split sum.split intro!: takes_ret takes_await takes_await_try takes_with_self takes_set_self
        takes_mono [OF send] takes_mono [OF read] takes_shared [OF assms(1)])
qed

subsection \<open>A message of the TLS client\<close>

text \<open>The handshake is part of connecting, under \<open>connect_total\<close>; the rest is the plain client's.\<close>

definition tls_timely :: "('h, 'k, 'w, 'y) tls_client_net_scheme \<Rightarrow> bool" where
  "tls_timely N \<longleftrightarrow> client_timely N \<and> (\<forall>k d h. fut_timely (net_now N) (cn_tls_connect N k d h))"

lemma timely_cs_connected [time_rules]:
  assumes "tls_timely N"
  shows "timely (net_now N) (cs_connected N k stream)"
proof -
  from assms have client: "client_timely N" by (simp add: tls_timely_def)
  then have "timely (net_now N) (cs_configure_socket N stream)"
    unfolding cs_configure_socket_def client_timely_def
    by (intro timely_effect) (auto split: option.split)
  moreover have "timely (net_now N) (map_err error_from_tls (io (cn_tls_connect N k d stream)))" for d
    using assms unfolding map_err_def tls_timely_def
    by (intro timely_await timely_io) (auto split: sum.split intro: timely_ret)
  ultimately show ?thesis
    unfolding cs_connected_def
    by (auto intro!: timely_await timely_await_try timely_with_self timely_ret timely_shared [OF client])
qed

lemma timely_cs_connect_loop:
  assumes "tls_timely N"
  shows "timely (net_now N) (cs_connect_loop N k tries)"
  using assms
proof (induction N k tries rule: cs_connect_loop.induct)
  case (1 N k tries)
  from "1.prems" have client: "client_timely N" by (simp add: tls_timely_def)
  then have net: "fut_timely (net_now N) (cn_tcp_connect N a)" "fut_timely (net_now N) (net_sleep N d)" for a d
    unfolding client_timely_def by blast+
  show ?case
  proof (cases "tries < DEFAULT_MAX_CONNECT_RETRIES")
    case True
    then have "timely (net_now N) (cs_connect_loop N k (Suc tries))" using "1.IH" "1.prems" by blast
    then show ?thesis
      using True net "1.prems"
      by (subst cs_connect_loop.simps) (auto split: sum.split intro!: time_rules)
  next
    case False
    then show ?thesis
      by (subst cs_connect_loop.simps) (auto intro!: time_rules timely_shared [OF client])
  qed
qed

lemma ensures_cs_connect_loop:
  "ensures (\<lambda>r c'. shared.more c' = shared.more c) (cs_connect_loop N k tries) c"
proof (induction N k tries arbitrary: c rule: cs_connect_loop.induct)
  case (1 N k tries)
  have step: "ensures (\<lambda>r c'. shared.more c' = shared.more c) (cs_connect_loop N k (Suc tries)) c'"
    if "shared.more c' = shared.more c" "tries < DEFAULT_MAX_CONNECT_RETRIES" for c'
    using "1.IH" [OF that(2), of c'] that(1) by simp
  have connected: "ensures (\<lambda>r c'. shared.more c' = shared.more c) (cs_connected N k stream) c" for stream
    unfolding cs_connected_def cs_configure_socket_def
    by (auto intro!: ensures_await ensures_await_try ensures_map_err ensures_io ensures_with_self ensures_ret
        ensures_effect ensures_shared split: poll.split sum.split)
  show ?case
    by (subst cs_connect_loop.simps)
       (auto intro!: wp_rules ensures_shared step connected split: poll.split sum.split)
qed

lemma takes_cs_connect:
  assumes "tls_timely N"
    and "\<And>r c' t. cs_timeout_config c' = cs_timeout_config c \<Longrightarrow> t \<le> tc_connect_total (cs_timeout_config c) \<Longrightarrow> Q r c' t"
  shows "takes (net_now N) Q (cs_connect N) c"
proof -
  have more: "cs_timeout_config c' = cs_timeout_config c" if "shared.more c' = shared.more c" for c'
    using that by (cases c; cases c'; simp)
  let ?m = "case cn_tls_build N (cs_accept_invalid_certs c) of
      Inl e \<Rightarrow> ret (Inl (error_from_tls e)) | Inr k \<Rightarrow> cs_connect_loop N k 0"
  have time: "timely (net_now N) ?m"
    by (auto split: sum.split intro: timely_ret timely_cs_connect_loop [OF assms(1)])
  have kept: "ensures (\<lambda>r c'. shared.more c' = shared.more c) ?m c"
    by (auto split: sum.split intro: ensures_ret ensures_cs_connect_loop)
  have "takes (net_now N) Q (timed N (tc_connect_total (cs_timeout_config c)) ?m id
      (Timeout (lit ''connect total deadline exceeded''))) c"
    by (rule takes_timed [OF time], rule ensures_mono [OF kept])
       (auto intro: assms(2) dest: more split: poll.split sum.split)
  then show ?thesis
    unfolding cs_connect_def by (auto intro!: takes_with_self takes_ret assms(2))
qed

lemma takes_erase:
  assumes "takes now (\<lambda>r c' t. case r of Inr a \<Rightarrow> Q (Inr a) c' t | Inl _ \<Rightarrow> \<forall>e. Q (Inl e) c' t) (erase m) c"
  shows "takes now Q m c"
proof (rule takesI)
  fix w r c' w' assume m: "m None c w = (r, c', w')"
  obtain r1 where "erase m None c w = (r1, c', w')"
    by (cases "erase m None c w") (auto simp: map_err_unfold m split: poll.splits sum.splits)
  with assms obtain a t where "r1 = Ready a" "now w' \<le> now w + t"
    "case a of Inr a \<Rightarrow> Q (Inr a) c' t | Inl _ \<Rightarrow> \<forall>e. Q (Inl e) c' t"
    by (rule takesE)
  with \<open>erase m None c w = (r1, c', w')\<close> m show "\<exists>a t. r = Ready a \<and> now w' \<le> now w + t \<and> Q a c' t"
    by (auto simp: map_err_unfold split: poll.splits sum.splits)
qed

lemma takes_cs_handle_locked:
  assumes "client_timely N" "io_timely N" "waits_within W N"
    and "\<And>r c' t. t \<le> W + exchange_time (cs_timeout_config c) \<Longrightarrow> Q r c' t"
  shows "takes (net_now N) Q (cs_handle_locked N cmd data) c"
  by (rule takes_erase, rule takes_lifts [OF lifts_handle_locked], rule takes_map_err,
      rule takes_ct_handle_locked [OF assms(1-3)])
     (auto simp: assms(4) split: sum.split)

definition tls_connect_time :: "('h, 'k, 'w, 'y) tls_client_net_scheme \<Rightarrow> 'h client_tls \<Rightarrow> nat" where
  "tls_connect_time N c =
     (if cs_keep_alive c \<and> sh_stream c \<noteq> None \<and> stream_kept N then 0
      else tc_connect_total (cs_timeout_config c))"

lemma tls_settings_cong:
  assumes "shared.more c' = shared.more (c :: 'h client_tls)"
  shows "cs_timeout_config c' = cs_timeout_config c"
  using assms by (cases c; cases c'; simp)

lemma takes_cs_handle_message:
  assumes "tls_timely N" "io_timely N" "waits_within W N"
    and "\<And>r c' t. t \<le> tls_connect_time N c + exchange_time (cs_timeout_config c) + 3 * W \<Longrightarrow> Q r c' t"
  shows "takes (net_now N) Q (cs_handle_message N cmd data) c"
  unfolding cs_handle_message_def
proof (rule takes_with_self, rule takes_await_try)
  let ?cfg = "cs_timeout_config c"
  let ?rest = "await (wait_lock N) (\<lambda>_. with_in_flight (cs_handle_locked N cmd data))"
  from assms(1) have client: "client_timely N" by (simp add: tls_timely_def)
  have rest: "takes (net_now N) (\<lambda>b c2 t2. Q b c2 (t + t2)) ?rest c1"
    if "cs_timeout_config c1 = ?cfg" "t \<le> tls_connect_time N c + W" for c1 t
    using that by (auto intro!: assms(4) takes_await takes_wait_lock [OF assms(3)] takes_with_in_flight
        takes_cs_handle_locked [OF client assms(2,3)] dest!: tls_settings_cong simp: set_in_flight_def update_ping_def)
  let ?Q = "\<lambda>r c1 t1. case r of Inr a \<Rightarrow> takes (net_now N) (\<lambda>b c2 t2. Q b c2 (t1 + t2)) ?rest c1
      | Inl e \<Rightarrow> Q (Inl e) c1 t1"
  let ?look = "await (wait_lock N) (\<lambda>_. with_self (\<lambda>c. if sh_stream c = None then cs_connect N else ret (Inr ())))"
  show "takes (net_now N) ?Q
    (if \<not> cs_keep_alive c then cs_connect N
     else ?look) c"
  proof (cases "cs_keep_alive c")
    case False
    then show ?thesis
      by (auto simp: tls_connect_time_def split: sum.split intro!: takes_cs_connect [OF assms(1)] rest assms(4))
  next
    case True
    have "takes (net_now N) ?Q ?look c"
    proof (rule takes_await, rule takes_wait_lock [OF assms(3)], rule takes_with_self)
      fix c1 :: "'a client_tls" and t
      assume more: "shared.more c1 = shared.more c" and t: "t \<le> W"
        and kept: "stream_kept N \<longrightarrow> sh_stream c \<noteq> None \<longrightarrow> sh_stream c1 \<noteq> None"
      note cfg = tls_settings_cong [OF more]
      show "takes (net_now N) (\<lambda>a c2 t2. case a of
            Inr a \<Rightarrow> takes (net_now N) (\<lambda>b c3 t3. Q b c3 (t + t2 + t3)) ?rest c2
          | Inl e \<Rightarrow> Q (Inl e) c2 (t + t2)) (if sh_stream c1 = None then cs_connect N else ret (Inr ())) c1"
        using True t kept
        by (auto simp: cfg tls_connect_time_def split: sum.split
            intro!: takes_cs_connect [OF assms(1)] takes_ret rest assms(4))
    qed
    with True show ?thesis by simp
  qed
qed

subsection \<open>A request of the server\<close>

lemma takes_st_send_response_header:
  assumes "io_timely N" and "\<And>r s' t. t \<le> tmo \<Longrightarrow> Q r s' t"
  shows "takes (net_now N) Q (st_send_response_header N status ds d tmo) s"
  using assms(2) unfolding st_send_response_header_def
  by - (rule delay_rules wp_rules net_time assms(1) | auto split: poll.split sum.split)+

lemma takes_st_receive_response_header:
  assumes "io_timely N" and "\<And>r s' t. t \<le> tc_read_header (st_timeout_config s) \<Longrightarrow> Q r s' t"
  shows "takes (net_now N) Q (st_receive_response_header N d) s"
  using assms(2) unfolding st_receive_response_header_def
  by - (rule delay_rules wp_rules net_time assms(1) | auto split: poll.split sum.split)+

lemma takes_st_read_command:
  assumes "io_timely N"
    and "\<And>r s' t. t \<le> tc_read_header (st_timeout_config s) +
        max (tc_write (st_timeout_config s)) (tc_ping_write (st_timeout_config s)) \<Longrightarrow> Q r s' t"
  shows "takes (net_now N) Q (st_read_command N) s"
  using assms(2) unfolding st_read_command_def Let_def
  by - (rule delay_rules wp_rules net_time assms(1) takes_st_send_response_header
      | auto split: poll.split sum.split)+

lemma takes_st_receive_data:
  assumes "io_timely N" and "\<And>r s' t. t \<le> tc_read_data (st_timeout_config s) \<Longrightarrow> Q r s' t"
  shows "takes (net_now N) Q (st_receive_data N n) s"
  using assms(2) unfolding st_receive_data_def Let_def
  by - (rule delay_rules wp_rules net_time assms(1) | auto split: poll.split sum.split)+

lemma takes_st_send_data:
  assumes "io_timely N" "st_wf s"
    and "\<And>r s' t. t \<le> 2 * tc_write (st_timeout_config s) + tc_read_header (st_timeout_config s) \<Longrightarrow> Q r s' t"
  shows "takes (net_now N) Q (st_send_data N status buf) s"
proof -
  have header: "takes (net_now N) P (st_send_response_header N status ds d (tc_write (st_timeout_config s))) s"
    if "\<And>r s' t. st_timeout_config s' = st_timeout_config s \<Longrightarrow> t \<le> tc_write (st_timeout_config s) \<Longrightarrow> P r s' t"
    for P ds d
    by (rule takes_ensures [where P = "\<lambda>r s' t. t \<le> tc_write (st_timeout_config s)",
          OF takes_st_send_response_header [OF assms(1)] ensures_st_send_response_header [OF assms(2)]])
       (auto simp: st_frame_def that)
  show ?thesis
    using assms(3) unfolding st_send_data_def Let_def
    by - (rule header delay_rules wp_rules net_time assms(1) takes_st_receive_response_header
        | auto split: poll.split sum.split option.split)+
qed

definition request_time :: "timeout_config \<Rightarrow> nat" where
  "request_time cfg =
     2 * tc_read_header cfg + max (tc_write cfg) (tc_ping_write cfg) + tc_read_data cfg + 2 * tc_write cfg"

text \<open>A connection that is sound and runs under the configuration \<open>cfg\<close>, plain or TLS.\<close>

definition conn_under :: "timeout_config \<Rightarrow> 'h conn \<Rightarrow> bool" where
  "conn_under cfg c \<longleftrightarrow> st_wf (conn_view c) \<and> st_timeout_config (conn_view c) = cfg"

lemma takes_conn:
  assumes "conn_under cfg c" and "lifts conn_view m n"
    and "takes now (\<lambda>r s t. P r t) n (conn_view c)" and "ensures (\<lambda>r s. st_frame (conn_view c) s) n (conn_view c)"
    and "\<And>r c' t. P r t \<Longrightarrow> conn_under cfg c' \<Longrightarrow> Q r c' t"
  shows "takes now Q m c"
proof (rule takes_lifts [OF assms(2)], rule takes_ensures [OF assms(3,4)], intro allI impI)
  fix r s t c' assume P: "P r t" and s: "st_frame (conn_view c) s" "s = conn_view c'"
  from assms(1) s have "conn_under cfg c'"
    using st_frame_wf [OF s(1)] by (simp add: conn_under_def) (simp add: st_frame_def)
  with P show "Q r c' t" by (rule assms(5))
qed

lemma conn_op_lifts:
  "lifts conn_view (tr_read_command (conn_transport N)) (narrow_size (st_read_command N))"
  "lifts conn_view (tr_receive_data (conn_transport N) n) (st_receive_data N (unat n))"
  "lifts conn_view (tr_send_response (conn_transport N) status buf) (st_send_data N status buf)"
  using conn_transport_lifts [of N] by (simp_all add: transport_lifts_def st_transport_def)

lemma takes_conn_read:
  assumes "io_timely N" "conn_under cfg c"
    and "\<And>r c' t. t \<le> tc_read_header cfg + max (tc_write cfg) (tc_ping_write cfg) \<Longrightarrow>
      conn_under cfg c' \<Longrightarrow> Q r c' t"
  shows "takes (net_now N) Q (tr_read_command (conn_transport N)) c"
proof (rule takes_conn [OF assms(2) conn_op_lifts(1)])
  from assms(2) have wf: "st_wf (conn_view c)" and cfg: "st_timeout_config (conn_view c) = cfg"
    by (simp_all add: conn_under_def)
  show "takes (net_now N) (\<lambda>r s t. t \<le> tc_read_header cfg + max (tc_write cfg) (tc_ping_write cfg))
      (narrow_size (st_read_command N)) (conn_view c)"
    unfolding narrow_size_def
    by (rule takes_await_try, rule takes_st_read_command [OF assms(1)])
       (auto simp: cfg split: sum.split intro: takes_ret)
  show "ensures (\<lambda>r. st_frame (conn_view c)) (narrow_size (st_read_command N)) (conn_view c)"
    by (rule ensures_narrow_size, rule ensures_mono [OF ensures_st_read_command [OF wf]])
       (auto split: poll.split sum.split)
qed (rule assms(3))

lemma takes_conn_receive:
  assumes "io_timely N" "conn_under cfg c"
    and "\<And>r c' t. t \<le> tc_read_data cfg \<Longrightarrow> conn_under cfg c' \<Longrightarrow> Q r c' t"
  shows "takes (net_now N) Q (tr_receive_data (conn_transport N) n) c"
proof (rule takes_conn [OF assms(2) conn_op_lifts(2)])
  from assms(2) have wf: "st_wf (conn_view c)" and cfg: "st_timeout_config (conn_view c) = cfg"
    by (simp_all add: conn_under_def)
  show "takes (net_now N) (\<lambda>r s t. t \<le> tc_read_data cfg) (st_receive_data N (unat n)) (conn_view c)"
    by (rule takes_st_receive_data [OF assms(1)]) (simp add: cfg)
  show "ensures (\<lambda>r. st_frame (conn_view c)) (st_receive_data N (unat n)) (conn_view c)"
    by (rule ensures_mono [OF ensures_st_receive_data [OF wf]]) simp
qed (rule assms(3))

lemma takes_conn_send:
  assumes "io_timely N" "conn_under cfg c"
    and "\<And>r c' t. t \<le> 2 * tc_write cfg + tc_read_header cfg \<Longrightarrow> conn_under cfg c' \<Longrightarrow> Q r c' t"
  shows "takes (net_now N) Q (tr_send_response (conn_transport N) status buf) c"
proof (rule takes_conn [OF assms(2) conn_op_lifts(3)])
  from assms(2) have wf: "st_wf (conn_view c)" and cfg: "st_timeout_config (conn_view c) = cfg"
    by (simp_all add: conn_under_def)
  show "takes (net_now N) (\<lambda>r s t. t \<le> 2 * tc_write cfg + tc_read_header cfg) (st_send_data N status buf) (conn_view c)"
    by (rule takes_st_send_data [OF assms(1) wf]) (simp add: cfg)
  show "ensures (\<lambda>r. st_frame (conn_view c)) (st_send_data N status buf) (conn_view c)"
    by (rule ensures_st_send_data [OF wf])
qed (rule assms(3))

lemma takes_answer:
  assumes "io_timely N" "conn_under cfg (ph_transport p)"
    and "\<And>r p' t. t \<le> 2 * tc_write cfg + tc_read_header cfg \<Longrightarrow> Q r p' t"
  shows "takes (net_now N) Q (answer (conn_transport N) res) p"
  using assms(2,3) unfolding answer_def
  by (auto split: sum.split prod.split
      intro!: takes_await_try takes_await takes_borrow takes_ret takes_conn_send [OF assms(1), where cfg = cfg])

lemma takes_handle_next:
  assumes "io_timely N" "conn_under cfg (ph_transport p)"
    and "\<And>cmd data u. takes (net_now N) (\<lambda>r u t. t \<le> H) (run cmd data) u"
    and "\<And>r p' t. t \<le> request_time cfg + H \<Longrightarrow> Q r p' t"
  shows "takes (net_now N) Q (handle_next (conn_transport N) run) p"
  unfolding handle_next_def
  apply (rule takes_await_try, rule takes_borrow, rule takes_conn_read [OF assms(1,2)])
  apply (auto split: sum.split option.split intro!: takes_ret assms(4) simp: request_time_def)
  apply (rule takes_await_try, rule takes_borrow, rule takes_conn_receive [OF assms(1), where cfg = cfg], simp)
  apply (auto split: sum.split intro!: assms(4) simp: request_time_def)
  apply (rule takes_await, rule takes_borrow, rule takes_mono [OF assms(3)])
  apply (rule takes_answer [OF assms(1), where cfg = cfg], simp)
  apply (auto intro!: assms(4) simp: request_time_def)
  done





subsection \<open>A peer that goes silent\<close>

context quiet_conn
begin

lemma read_exact_or_closed_waits:
  assumes "drop (length (got w)) (peer (sent w)) = []" "0 < vec_len b"
  shows "\<exists>w'. read_exact_or_closed N h (Some t) b w = (Pending, b, w') \<and> sent w' = sent w \<and> got w' = got w"
proof -
  obtain w' where "net_read N h (vec_len b) (Some t) w = (Pending, w')" "sent w' = sent w" "got w' = got w"
    using read_waits [of "vec_len b" w t] assms by auto
  then show ?thesis
    using assms(2) by (simp add: read_exact_or_closed_def fill_from.simps)
qed

lemma st_read_command_waits:
  assumes "io_timely N" "st_reader s = h" "drop (length (got w)) (peer (sent w)) = []"
  shows "\<exists>e s' w'. st_read_command N None s w = (Ready (Inl e), s', w') \<and>
    sent w' = sent w \<and> got w' = got w \<and> net_now N w' \<le> net_now N w + tc_read_header (st_timeout_config s)"
proof -
  let ?b = "vec_resize request_encoded_len 0 (st_buffer s)" and ?t = "net_now N w + tc_read_header (st_timeout_config s)"
  have "0 < vec_len ?b" by (simp add: vec_simps header_sizes)
  then obtain w' where w': "read_exact_or_closed N h (Some ?t) ?b w = (Pending, ?b, w')"
      "sent w' = sent w" "got w' = got w"
    using read_exact_or_closed_waits [OF assms(3)] by blast
  moreover have "net_now N w' \<le> ?t"
    using timelyD [OF timely_read_exact_or_closed [OF assms(1)] w'(1)] by simp
  ultimately show ?thesis
    using assms(2) by (simp add: st_read_command_def act_simps timed_unfold Let_def)
qed

lemma handle_next_waits:
  assumes "io_timely N" "conn_under cfg c" "st_reader (conn_view c) = h"
    and "drop (length (got w)) (peer (sent w)) = []"
  shows "\<exists>e c' w'. handle_next (conn_transport N) run None (ph_new c u) w = (Ready (Inl e), ph_new c' u, w') \<and>
    sent w' = sent w \<and> got w' = got w \<and> net_now N w' \<le> net_now N w + tc_read_header cfg"
proof -
  obtain e s' w' where read: "st_read_command N None (conn_view c) w = (Ready (Inl e), s', w')"
      "sent w' = sent w" "got w' = got w" "net_now N w' \<le> net_now N w + tc_read_header cfg"
    using st_read_command_waits [OF assms(1,3,4)] assms(2) by (auto simp: conn_under_def)
  obtain r c' w1 where conn: "tr_read_command (conn_transport N) None c w = (r, c', w1)"
    by (cases "tr_read_command (conn_transport N) None c w")
  with liftsD [OF conn_op_lifts(1) [of N], of None c w] read have "r = Ready (Inl e)" "w1 = w'"
    by (simp_all add: narrow_size_def act_simps)
  with conn read show ?thesis
    by (simp add: handle_next_def act_simps ph_new_def)
qed

end

subsection \<open>The pipe keeps its deadlines\<close>

lemma pipe_client_io_timely: "io_timely (pipe_client k peer closed)"
  by (auto simp: io_timely_def fut_timely_def immediate_def pipe_client_def pipe_read_def Let_def split: if_splits)

lemma pipe_net_io_timely: "io_timely (pipe_net k peer closed)"
  by (auto simp: io_timely_def fut_timely_def immediate_def pipe_read_def Let_def split: if_splits)


subsection \<open>A ping that gets no answer\<close>

context quiet_conn
begin

lemma runs_free_ping_unanswered:
  assumes "drop (length G) (peer S) = []" "Q (Inl (Timeout (lit ''Ping response header timeout''))) c (S, G)"
  shows "runs_free sent got Q (receive_ping_response_impl N h d) c (S, G)"
  unfolding receive_ping_response_impl_def timed_def
  by (intro runs_free_await_try runs_free_await runs_free_timeout_waits [OF assms(1)])
     (simp_all add: runs_free_runs [OF runs_ret] assms(2))

end

text \<open>The clock of a runtime whose timers are exact, and closing a socket, which is local.\<close>

definition sleeps :: "('h, 'w, 'y) net_scheme \<Rightarrow> ('w \<Rightarrow> byte list) \<Rightarrow> ('w \<Rightarrow> byte list) \<Rightarrow> bool" where
  "sleeps N sent got \<longleftrightarrow>
     (\<forall>d w. \<exists>w'. net_sleep N d None w = (Ready (), w') \<and> net_now N w' = net_now N w + d \<and>
        sent w' = sent w \<and> got w' = got w) \<and>
     (\<forall>h w. sent (net_close N h w) = sent w \<and> got (net_close N h w) = got w)"

lemma runs_free_ping_exchange_unanswered:
  assumes "quiet_conn N h peer sent got" "undisturbed N" "sleeps N sent got" "sh_stream s = Some h"
    and "drop (length G) (peer (S @ request_bytes 0 0)) = []"
    and "Q False (stop_flag (s\<lparr>sh_stream := None\<rparr>)) (S @ request_bytes 0 0, G)"
  shows "runs_free sent got Q (ping_exchange N) s (S, G)"
  using assms(4) unfolding ping_exchange_def wait_lock_undisturbed [OF assms(2)] Let_def
  apply (intro free_rules runs_free_runs [OF runs_ret])
  apply simp
  apply (intro free_rules)
  apply (rule runs_free_runs, rule reliable_conn.runs_send_ping [OF quiet_conn.axioms(1) [OF assms(1)]])
  apply simp
  apply (rule quiet_conn.runs_free_ping_unanswered [OF assms(1,5)])
  using assms(3,6) apply (auto simp: put_stream_def sleeps_def intro!: runs_free_runs exec_rules)
  done


subsection \<open>Properties\<close>

text \<open>C33: a message returns in bounded time, whatever the peer and the network do, when each wait for a
  mutex ends within \<open>W\<close>. It looks at the stream, waits for \<open>in_flight\<close> and for the stream, so the
  bound is connecting under \<open>connect_total\<close> when there may be no stream to reuse, the exchange under
  its own timeouts, and three times \<open>W\<close>. Without another task \<open>W\<close> is zero; a ping under way holds the
  mutexes for its write, \<open>read_header\<close> and the wait for an old answer (\<open>ping_holds_mutexes_within\<close>).
  The write of a ping has no timeout (\<open>ping_write_has_no_timeout\<close>): while a peer that has stopped
  reading keeps one stuck there is no such \<open>W\<close>, and no timeout of the client ends the wait.\<close>

theorem message_returns_in_time:
  assumes "client_timely N" "io_timely N" "waits_within W N"
    and "ct_handle_message N cmd data None c w = (r, c', w')"
  shows "r \<noteq> Pending \<and>
    net_now N w' \<le> net_now N w + connect_time N c + exchange_time (ct_timeout_config c) + 3 * W"
proof -
  have "takes (net_now N) (\<lambda>r c' t. t \<le> connect_time N c + exchange_time (ct_timeout_config c) + 3 * W)
      (ct_handle_message N cmd data) c"
    by (rule takes_ct_handle_message [OF assms(1-3)]) simp
  from this assms(4) show ?thesis by (rule takesE) simp
qed

text \<open>With the default configuration and a stream in place, and another task that holds each mutex for
  five seconds: six minutes and a quarter, with a peer that says nothing.\<close>

definition busy_pipe :: "(unit, pipe) client_net" where
  "busy_pipe = (pipe_client 0 (\<lambda>_. []) (\<lambda>_. False))\<lparr>tn_others := io (pipe_sleep (5 * 1000000000))\<rparr>"

lemma busy_pipe_waits: "waits_within (5 * 1000000000) busy_pipe" "stream_kept busy_pipe"
  by (auto simp: waits_within_def stream_kept_def takes_def ensures_def busy_pipe_def pipe_client_def pipe_sleep_def
      act_simps Let_def)

lemma busy_pipe_timely: "client_timely busy_pipe" "io_timely busy_pipe"
proof -
  have "fut_timely pw_now (pipe_sleep d)" for d
    by (auto simp: fut_timely_def pipe_sleep_def Let_def split: if_splits)
  then show "client_timely busy_pipe"
    using pipe_client_timely [of 0 "\<lambda>_. []" "\<lambda>_. False"]
    by (simp add: client_timely_def busy_pipe_def pipe_client_def timely_io)
  show "io_timely busy_pipe"
    using pipe_client_io_timely [of 0 "\<lambda>_. []" "\<lambda>_. False"] by (simp add: io_timely_def busy_pipe_def)
qed

theorem message_returns_in_time_witness:
  "case ct_handle_message busy_pipe 5 [1] None
      ((ct_new 0 ''a'')\<lparr>sh_stream := Some (), ct_keep_alive := True\<rparr>) pipe_start of
     (r, c', w') \<Rightarrow> r \<noteq> Pending \<and> pw_now w' \<le> 375 * 1000000000"
proof -
  let ?c = "(ct_new 0 ''a'')\<lparr>sh_stream := Some (), ct_keep_alive := True\<rparr>"
  obtain r c' w' where run: "ct_handle_message busy_pipe 5 [1] None ?c pipe_start = (r, c', w')"
    by (cases "ct_handle_message busy_pipe 5 [1] None ?c pipe_start")
  from message_returns_in_time [OF busy_pipe_timely busy_pipe_waits(1) run] run busy_pipe_waits(2)
  show ?thesis
    by (simp add: connect_time_def exchange_time_def default_timeout_config_def timeout_constants ct_new_def
        Let_def busy_pipe_def pipe_client_def pipe_start_def)
qed

lemma pipe_tls_client_timely: "tls_timely pipe_tls_client"
  by (auto simp: tls_timely_def client_timely_def pipe_tls_client_def fut_timely_def pipe_sleep_def Let_def timely_ret
      split: if_splits)

lemma pipe_tls_client_io_timely: "io_timely pipe_tls_client"
  by (auto simp: io_timely_def fut_timely_def immediate_def pipe_tls_client_def pipe_read_def Let_def split: if_splits)

lemma pipe_tls_client_undisturbed: "undisturbed pipe_tls_client"
  by (simp add: undisturbed_def pipe_tls_client_def)

text \<open>C34: a message of the TLS client returns in bounded time as well, under the same condition on the
  waits for its mutexes and with the same exception, a write of the ping that is stuck. Building the
  connector, all connection attempts and the handshake are together under \<open>connect_total\<close>, and the
  exchange takes no longer than the plain client's, whatever the peer and the network do.\<close>

theorem tls_message_returns_in_time:
  assumes "tls_timely N" "io_timely N" "waits_within W N"
    and "cs_handle_message N cmd data None c w = (r, c', w')"
  shows "r \<noteq> Pending \<and>
    net_now N w' \<le> net_now N w + tls_connect_time N c + exchange_time (cs_timeout_config c) + 3 * W"
proof -
  have "takes (net_now N) (\<lambda>r c' t. t \<le> tls_connect_time N c + exchange_time (cs_timeout_config c) + 3 * W)
      (cs_handle_message N cmd data) c"
    by (rule takes_cs_handle_message [OF assms(1-3)]) simp
  from this assms(4) show ?thesis by (rule takesE) simp
qed

theorem tls_message_returns_in_time_witness:
  "case cs_handle_message pipe_tls_client 5 [1] None (cs_set_domain ''server'' (cs_new 0 ''a'')) pipe_start of
     (r, c', w') \<Rightarrow> r \<noteq> Pending \<and> pw_now w' \<le> 390 * 1000000000"
proof -
  let ?c = "cs_set_domain ''server'' (cs_new 0 ''a'')"
  obtain r c' w' where run: "cs_handle_message pipe_tls_client 5 [1] None ?c pipe_start = (r, c', w')"
    by (cases "cs_handle_message pipe_tls_client 5 [1] None ?c pipe_start")
  from tls_message_returns_in_time [OF pipe_tls_client_timely pipe_tls_client_io_timely
      conjunct1 [OF undisturbed_waits [OF pipe_tls_client_undisturbed]] run] run
  show ?thesis
    by (simp add: tls_connect_time_def exchange_time_def default_timeout_config_def timeout_constants cs_new_def
        cs_set_domain_def Let_def pipe_tls_client_def pipe_start_def)
qed

text \<open>C35: the server is done with a request, or with waiting for one, in bounded time. When the command
  handler takes at most \<open>H\<close>, one iteration of a connection, plain or TLS, returns within twice
  \<open>read_header\<close>, \<open>read_data\<close>, three writes and \<open>H\<close>; a slow client cannot hold its slot longer than
  that without completing a request.\<close>

theorem request_served_in_time:
  assumes "io_timely N" "conn_under cfg (ph_transport p)"
    and "\<And>cmd data u. takes (net_now N) (\<lambda>r u t. t \<le> H) (run cmd data) u"
    and "handle_next (conn_transport N) run None p w = (r, p', w')"
  shows "r \<noteq> Pending \<and> net_now N w' \<le> net_now N w + request_time cfg + H"
proof -
  have "takes (net_now N) (\<lambda>r p' t. t \<le> request_time cfg + H) (handle_next (conn_transport N) run) p"
    by (rule takes_handle_next [OF assms(1-3)])
  from this assms(4) show ?thesis by (rule takesE) simp
qed

lemma plain_conn_under: "conn_under default_timeout_config (Plain (st_new h h))"
  by (simp add: conn_under_def st_new_wf) (simp add: st_new_def)

lemma takes_pure_handler: "takes now (\<lambda>r u t. t \<le> 0) (pure_handler f cmd data) u"
  by (rule takesI) (auto simp: pure_handler_def split: prod.splits)

theorem request_served_in_time_witness:
  "case handle_next (conn_transport (pipe_net 0 (\<lambda>_. [0, 0]) (\<lambda>_. False))) (pure_handler (\<lambda>u cmd data. (u, Inr (Ok, data))))
      None (ph_new (Plain (st_new () ())) ()) pipe_start of
     (r, p', w') \<Rightarrow> r \<noteq> Pending \<and> pw_now w' \<le> 360 * 1000000000"
proof -
  let ?N = "pipe_net 0 (\<lambda>_. [0, 0]) (\<lambda>_. False)" and ?p = "ph_new (Plain (st_new () ())) ()"
  let ?run = "pure_handler (\<lambda>u cmd data. (u, Inr (Ok, data)))"
  obtain r p' w' where run: "handle_next (conn_transport ?N) ?run None ?p pipe_start = (r, p', w')"
    by (cases "handle_next (conn_transport ?N) ?run None ?p pipe_start")
  have "conn_under default_timeout_config (ph_transport ?p)"
    by (simp add: ph_new_def plain_conn_under)
  from request_served_in_time [OF pipe_net_io_timely this takes_pure_handler run] run
  show ?thesis by (simp add: pipe_start_def request_time_def default_timeout_config_def timeout_constants)
qed



text \<open>C36: a connection whose peer says nothing is given up. With no byte of a next request coming and no
  shutdown, the request loop of the connection ends within \<open>read_header\<close>, having written nothing and
  without a call of the command handler.\<close>

theorem idle_connection_is_closed:
  assumes "quiet_conn N h peer sent got" "io_timely N" "conn_under cfg c" "st_reader (conn_view c) = h"
    and "drop (length (got w)) (peer (sent w)) = []" and "wt_changes W w = None"
  shows "\<exists>c' w'. conn_loop W (conn_transport N) run (Suc fuel) None (ph_new c u) w =
      (Ready (Some ()), ph_new c' u, w') \<and>
    sent w' = sent w \<and> net_now N w' \<le> net_now N w + tc_read_header cfg"
  using quiet_conn.handle_next_waits [OF assms(1-5), of run u] assms(6)
  by (auto simp: act_simps select_changed_def)

theorem idle_connection_is_closed_witness:
  "\<exists>c' w'. conn_loop no_signal (conn_transport (pipe_net 0 (\<lambda>_. []) (\<lambda>_. False)))
      (pure_handler (\<lambda>u cmd data. (u, Inr (Ok, data)))) 1 None (ph_new (Plain (st_new () ())) ()) pipe_start =
      (Ready (Some ()), ph_new c' (), w') \<and>
    pw_sent w' = [] \<and> pw_now w' \<le> 60 * 1000000000"
  using idle_connection_is_closed [OF pipe_quiet.quiet_conn_axioms [where k = 0 and peer = "\<lambda>_. []"]
      pipe_net_io_timely plain_conn_under, where W = no_signal and w = pipe_start and fuel = 0 and u = "()" and
      run = "pure_handler (\<lambda>u cmd data. (u, Inr (Ok, data)))"]
  by (auto simp: no_signal_def st_new_def pipe_start_def default_timeout_config_def timeout_constants)

text \<open>C37: a dead peer is noticed. When a ping is due and the peer does not answer it, that round of the
  ping task ends the task, drops the stream and sets the stop flag, with the \<open>in_flight\<close> mutex free:
  the next message finds no stream and connects anew.\<close>

theorem dead_peer_is_noticed:
  assumes "quiet_conn N h peer sent got" "undisturbed N" "sleeps N sent got"
    and "sh_stream s = Some h" "\<not> pg_should_stop (sh_ping s)" "\<not> pg_in_flight (sh_ping s)"
    and "pg_last_activity (sh_ping s) + ping_interval s \<le> net_now N w + check_interval (ping_interval s)"
    and "drop (length (got w)) (peer (sent w @ request_bytes 0 0)) = []"
  shows "\<exists>s' w'. ping_task N (Suc fuel) None s w = (Ready (Some ()), s', w') \<and>
    sh_stream s' = None \<and> pg_should_stop (sh_ping s') \<and> \<not> pg_in_flight (sh_ping s')"
proof -
  obtain w1 where w1: "net_sleep N (check_interval (ping_interval s)) None w = (Ready (), w1)"
      "net_now N w1 = net_now N w + check_interval (ping_interval s)" "sent w1 = sent w" "got w1 = got w"
    using assms(3) unfolding sleeps_def by blast
  have h: "sh_stream (set_in_flight True s) = Some h"
    using assms(4) by (simp add: set_in_flight_def update_ping_def)
  have "runs_free sent got (\<lambda>r s' l'. \<not> r \<and> sh_stream s' = None \<and> pg_should_stop (sh_ping s'))
      (ping_exchange N) (set_in_flight True s) (sent w1, got w1)"
    by (rule runs_free_ping_exchange_unanswered [OF assms(1-3) h])
       (use assms(8) w1(3,4) in \<open>simp_all add: set_in_flight_def update_ping_def\<close>)
  then obtain r s' w' where ex: "ping_exchange N None (set_in_flight True s) w1 = (Ready r, s', w')"
      "\<not> r" "sh_stream s' = None" "pg_should_stop (sh_ping s')"
    by (rule runs_freeE) auto
  have "\<not> elapsed_since_activity N s w1 < ping_interval s"
    using assms(7) w1(2) by (simp add: elapsed_since_activity_def)
  then show ?thesis
    using assms(5,6) w1(1) ex
    by (simp add: ping_round_def with_world_def act_simps wait_lock_undisturbed [OF assms(2)]
        with_in_flight_def set_in_flight_def update_ping_def)
qed

lemma pipe_task_sleeps: "sleeps (pipe_task k peer closed) pw_sent pw_got"
  by (simp add: sleeps_def pipe_task_def pipe_sleep_def Let_def)

theorem dead_peer_is_noticed_witness:
  "\<exists>s' w'. ping_task (pipe_task 0 (\<lambda>_. []) (\<lambda>_. False)) 1 None kept_alive
      (pipe_start\<lparr>pw_now := 30 * 1000000000\<rparr>) = (Ready (Some ()), s', w') \<and>
    sh_stream s' = None \<and> pg_should_stop (sh_ping s') \<and> \<not> pg_in_flight (sh_ping s')"
  using dead_peer_is_noticed [OF pipe_task_quiet [where k = 0 and peer = "\<lambda>_. []"] pipe_task_undisturbed
      pipe_task_sleeps, where s = kept_alive and w = "pipe_start\<lparr>pw_now := 30 * 1000000000\<rparr>" and fuel = 0]
  by (auto simp: kept_alive_def ping_state_new_def default_ping_config_def timeout_constants pipe_task_def pipe_start_def
      simp del: ping_task.simps)

text \<open>The write of a ping has no timeout. When a ping is due and the stream takes no bytes, the peer
  having stopped reading, and nothing from outside drops the task, its \<open>write_all\<close> never returns, and
  with it the ping task, which holds the \<open>in_flight\<close> and the stream mutex meanwhile; the same write
  in an exchange of the client is over after the \<open>write\<close> timeout, with an error.\<close>

theorem ping_write_has_no_timeout:
  assumes "undisturbed N" "\<not> pg_should_stop (sh_ping s)" "\<not> pg_in_flight (sh_ping s)" "sh_stream s = Some h"
    and "net_sleep N (check_interval (ping_interval s)) None w = (Ready (), w1)"
    and "pg_last_activity (sh_ping s) + ping_interval s \<le> net_now N w1"
    and "\<And>bs dl w. \<exists>w'. net_write_all N h bs dl w = (Pending, w')"
  shows "fst (ping_task N (Suc fuel) None s w) = Pending \<and>
    (\<exists>b' w'. ct_exchange N h cmd data cfg has_answer limit None (Vec [] (8 + limit)) w =
      (Ready (Inl (Timeout (lit ''Sending request header''))), b', w'))"
proof
  obtain w2 where stuck: "net_write_all N h (request_bytes 0 0) None w1 = (Pending, w2)" using assms(7) by blast
  have ping: "request_encode (request_header_new 0 0) (vec_with_capacity request_encoded_len) =
      Inr (Vec (request_bytes 0 0) 8)"
    by (simp add: vec_with_capacity_def header_sizes request_encode_empty)
  have "\<not> elapsed_since_activity N s w1 < ping_interval s"
    using assms(6) by (simp add: elapsed_since_activity_def)
  then show "fst (ping_task N (Suc fuel) None s w) = Pending"
    using assms(2-5) stuck
    by (simp add: ping_round_def with_world_def act_simps wait_lock_undisturbed [OF assms(1)] with_in_flight_def
        set_in_flight_def update_ping_def ping_exchange_def send_ping_request_impl_def ping)
next
  have encode: "request_encode (request_header_new cmd n) (Vec [] (8 + limit)) = Inr (Vec (request_bytes cmd n) (8 + limit))" for n
    by (simp add: request_encode_empty)
  obtain w2 where "net_write_all N h (request_bytes cmd (usize_as_u32 (length data))) (Some (net_now N w + tc_write cfg)) w =
      (Pending, w2)"
    using assms(7) by blast
  then show "\<exists>b' w'. ct_exchange N h cmd data cfg has_answer limit None (Vec [] (8 + limit)) w =
      (Ready (Inl (Timeout (lit ''Sending request header''))), b', w')"
    by (simp add: ct_exchange_def ct_send_message_def ct_send_request_header_def act_simps timed_unfold Let_def
        encode vec_simps)
qed

text \<open>The pipe with a peer that has stopped reading.\<close>

definition full_pipe :: "(unit, pipe) task_net" where
  "full_pipe = (pipe_task 0 (\<lambda>_. []) (\<lambda>_. False))\<lparr>net_write_all := \<lambda>h bs dl w. (Pending, w)\<rparr>"

theorem ping_write_has_no_timeout_witness:
  "fst (ping_task full_pipe 1 None kept_alive (pipe_start\<lparr>pw_now := 30 * 1000000000\<rparr>)) = Pending"
proof -
  have "net_sleep full_pipe (check_interval (ping_interval kept_alive)) None (pipe_start\<lparr>pw_now := 30 * 1000000000\<rparr>) =
      (Ready (), pipe_start\<lparr>pw_now := 30 * 1000000000 + check_interval (ping_interval kept_alive)\<rparr>)"
    by (simp add: full_pipe_def pipe_task_def pipe_sleep_def Let_def pipe_start_def)
  moreover have "undisturbed full_pipe"
    using pipe_task_undisturbed by (simp add: undisturbed_def full_pipe_def)
  ultimately show ?thesis
    using ping_write_has_no_timeout [of full_pipe kept_alive "()" _ _ 0]
    by (simp add: full_pipe_def pipe_task_def kept_alive_def ping_state_new_def default_ping_config_def timeout_constants
        del: ping_task.simps)
qed

end
