(* ===== verification/Client_Life.thy ===== *)
theory Client_Life
  imports Timing
begin

section \<open>The life of a client\<close>

text \<open>
  The states a client can be in: a new client, and whatever its public operations make of it, with
  any results of the network and of the other tasks, also when a call is dropped half way. The field
  \<open>timeout_config\<close> is public, so a user can also assign to it, past the check that
  \<open>set_timeout_config\<close> makes; \<open>D\<close> says which configurations are stored that way. The invariant holds
  in all of these states.
\<close>

definition ct_inv :: "(timeout_config \<Rightarrow> bool) \<Rightarrow> 'h client_tl \<Rightarrow> bool" where
  "ct_inv D c \<longleftrightarrow> ct_wf c \<and> 0 < ct_max_buffer_size c \<and>
     (validate (ct_timeout_config c) = Inr () \<or> D (ct_timeout_config c))"

inductive ct_reachable :: "('h, 'w, 'y) client_net_scheme \<Rightarrow> (nat \<Rightarrow> bool) \<Rightarrow> (timeout_config \<Rightarrow> bool) \<Rightarrow>
    'h client_tl \<Rightarrow> bool"
  for N alloc D where
  made: "ct_reachable N alloc D (ct_new now address)"
| set_max_buffer_size: "ct_reachable N alloc D c \<Longrightarrow> ct_set_max_buffer_size alloc n c = (r, c') \<Longrightarrow> ct_reachable N alloc D c'"
| set_command_has_answer: "ct_reachable N alloc D c \<Longrightarrow> ct_reachable N alloc D (ct_set_command_has_answer b c)"
| set_keep_alive: "ct_reachable N alloc D c \<Longrightarrow> ct_set_keep_alive N b dl c w = (u, c', w') \<Longrightarrow> ct_reachable N alloc D c'"
| set_timeout_config: "ct_reachable N alloc D c \<Longrightarrow> ct_set_timeout_config N cfg dl c w = (r, c', w') \<Longrightarrow> ct_reachable N alloc D c'"
| connect: "ct_reachable N alloc D c \<Longrightarrow> ct_connect N dl c w = (r, c', w') \<Longrightarrow> ct_reachable N alloc D c'"
| disconnect: "ct_reachable N alloc D c \<Longrightarrow> ct_disconnect N dl c w = (r, c', w') \<Longrightarrow> ct_reachable N alloc D c'"
| message: "ct_reachable N alloc D c \<Longrightarrow> ct_handle_message N cmd data dl c w = (out, c', w') \<Longrightarrow> ct_reachable N alloc D c'"
| no_answer_message:
    "ct_reachable N alloc D c \<Longrightarrow> ct_handle_message_with_no_answer N cmd data dl c w = (out, c', w') \<Longrightarrow> ct_reachable N alloc D c'"
| assigned: "ct_reachable N alloc D c \<Longrightarrow> D cfg \<Longrightarrow> ct_reachable N alloc D (c\<lparr>ct_timeout_config := cfg\<rparr>)"

subsection \<open>What the operations keep\<close>

lemma ct_inv_cong: "shared.more c' = shared.more c \<Longrightarrow> ct_inv D c \<Longrightarrow> ct_inv D (c' :: 'h client_tl)"
  using settings_cong [of c' c] by (simp add: ct_inv_def ct_wf_def)

lemma ct_inv_new: "ct_inv D (ct_new now address)"
  using ct_new_wf [of now address]
  by (simp add: ct_inv_def ct_new_def Let_def DEFAULT_MAX_BUFFER_SIZE_def validate_def default_timeout_config_def timeout_constants)

lemma ct_inv_set_max_buffer_size:
  assumes "ct_inv D c" "ct_set_max_buffer_size alloc n c = (r, c')"
  shows "ct_inv D c'"
proof -
  have inv: "ct_inv D (c\<lparr>ct_buffer := b, ct_max_buffer_size := limit\<rparr>)"
    if "vec_try_reserve alloc (limit - vec_len (ct_buffer c)) (ct_buffer c) = Inr b" "0 < limit" for limit b
    using vec_try_reserve_ok [OF that(1)] that(2) assms(1) by (simp add: ct_inv_def ct_wf_def room_def) linarith
  have "0 < DEFAULT_MAX_BUFFER_SIZE" by (simp add: DEFAULT_MAX_BUFFER_SIZE_def)
  with assms show ?thesis
    by (auto simp: ct_set_max_buffer_size_def Let_def inv split: sum.splits if_splits)
qed

lemma ct_inv_buffer: "ct_inv D c \<Longrightarrow> vcap b = vcap (ct_buffer c) \<Longrightarrow> ct_inv D (c\<lparr>ct_buffer := b\<rparr>)"
  by (simp add: ct_inv_def ct_wf_def room_def)

lemma ensures_inv_shared:
  assumes "\<And>r c'. ct_inv D c' \<Longrightarrow> Q r c'" "ct_inv D c"
  shows "ensures Q (wait_lock N) c" "ensures Q (put_stream N new) c" "ensures Q (stop_ping_task N) c"
    and "ensures Q (touch_activity N) c"
proof -
  note frame = assms(1) [OF ct_inv_cong [OF _ assms(2)]]
  show "ensures Q (wait_lock N) c" "ensures Q (put_stream N new) c" "ensures Q (stop_ping_task N) c"
    by (rule ensures_shared, rule frame, assumption)+
  show "ensures Q (touch_activity N) c"
    by (rule ensures_touch_activity, rule frame) (simp add: update_ping_def)
qed

lemma ensures_inv_connect:
  assumes "\<And>r c'. ct_inv D c' \<Longrightarrow> Q r c'" "ct_inv D c"
  shows "ensures Q (ct_connect N) c"
  by (rule ensures_mono [OF ensures_ct_connect]) (rule assms(1) [OF ct_inv_cong [OF _ assms(2)]])

lemma ct_inv_ping [simp]:
  "ct_inv D (update_ping f c) = ct_inv D c" "ct_inv D (set_in_flight b c) = ct_inv D c" "ct_inv D (c\<lparr>sh_stream := s\<rparr>) = ct_inv D c"
  by (simp_all add: ct_inv_def ct_wf_def update_ping_def set_in_flight_def)

lemma ensures_inv_exchange:
  assumes "ct_inv D c" "\<And>r c'. ct_inv D c' \<Longrightarrow> Q r c'"
  shows "ensures Q (ct_on_buffer (ct_exchange N h cmd data cfg a (ct_max_buffer_size c))) c"
proof (rule ensures_borrow, rule ensures_mono [OF ensures_ct_exchange])
  show "room (ct_max_buffer_size c) (ct_buffer c)" using assms(1) by (simp add: ct_inv_def ct_wf_def)
qed (auto intro!: assms ct_inv_buffer)

lemma ensures_inv_handle_locked:
  assumes "ct_inv D c"
  shows "ensures (\<lambda>r c'. ct_inv D c') (ct_handle_locked N cmd data) c"
  using assms unfolding ct_handle_locked_def
  by (auto intro!: ensures_await ensures_with_self ensures_inv_shared ensures_inv_exchange ensures_ret
      split: poll.split option.split sum.split)

lemma ensures_inv_message:
  assumes "ct_inv D c"
  shows "ensures (\<lambda>r c'. ct_inv D c') (ct_handle_message N cmd data) c"
  using assms unfolding ct_handle_message_def
  by (auto intro!: ensures_await ensures_await_try ensures_with_self ensures_inv_shared ensures_inv_connect ensures_ret
      ensures_with_in_flight ensures_mono [OF ensures_inv_handle_locked] split: poll.split option.split sum.split)

lemma ensures_inv_disconnect:
  assumes "ct_inv D c"
  shows "ensures (\<lambda>r c'. ct_inv D c') (ct_disconnect N) c"
  using assms unfolding ct_disconnect_def
  by (auto intro!: ensures_await ensures_with_self ensures_inv_shared ensures_io ensures_ret
      split: poll.split option.split sum.split)

lemma ct_inv_fields [simp]:
  "ct_inv D (c\<lparr>ct_keep_alive := b\<rparr>) = ct_inv D c" "ct_inv D (c\<lparr>ct_command_has_answer := b\<rparr>) = ct_inv D c"
  "validate g = Inr () \<Longrightarrow> ct_inv D c \<Longrightarrow> ct_inv D (c\<lparr>ct_timeout_config := g\<rparr>)"
  by (simp_all add: ct_inv_def ct_wf_def)

lemma ct_inv_assigned: "D g \<Longrightarrow> ct_inv D c \<Longrightarrow> ct_inv D (c\<lparr>ct_timeout_config := g\<rparr>)"
  by (simp add: ct_inv_def ct_wf_def)

lemma ensures_inv_set_keep_alive:
  assumes "ct_inv D c"
  shows "ensures (\<lambda>r c'. ct_inv D c') (ct_set_keep_alive N b) c"
  using assms unfolding ct_set_keep_alive_def
  by (auto intro!: ensures_await ensures_with_self ensures_set_self ensures_inv_shared ensures_ret split: poll.split)

lemma ensures_inv_set_timeout_config:
  assumes "ct_inv D c"
  shows "ensures (\<lambda>r c'. ct_inv D c') (ct_set_timeout_config N cfg) c"
  using assms unfolding ct_set_timeout_config_def Let_def
  by (auto intro!: ensures_await ensures_await_try ensures_with_self ensures_set_self
      ensures_inv_shared [where D = D] ensures_ret split: poll.split sum.split)

lemma ct_inv_message_with_no_answer:
  assumes "ct_inv D c" "ct_handle_message_with_no_answer N cmd data dl c w = (out, c', w')"
  shows "ct_inv D c'"
proof -
  obtain d where run: "ct_handle_message N cmd data dl (c\<lparr>ct_command_has_answer := False\<rparr>) w = (out, d, w')"
    and c': "c' = d\<lparr>ct_command_has_answer := True\<rparr>"
    using assms(2) by (auto simp: ct_handle_message_with_no_answer_def ct_no_answer_guard_def act_simps split: prod.splits)
  have "ct_inv D (c\<lparr>ct_command_has_answer := False\<rparr>)" using assms(1) by simp
  from ensuresD [OF ensures_inv_message [OF this] run] have "ct_inv D d" .
  then show ?thesis by (simp add: c')
qed

lemma ct_reachable_inv: "ct_reachable N alloc D c \<Longrightarrow> ct_inv D c"
proof (induction rule: ct_reachable.induct)
  case (set_keep_alive c b dl w u c' w')
  from ensuresD [OF ensures_inv_set_keep_alive [OF this(3)] this(2)] show ?case .
next
  case (set_timeout_config c cfg dl w r c' w')
  from ensuresD [OF ensures_inv_set_timeout_config [OF this(3)] this(2)] show ?case .
next
  case (connect c dl w r c' w')
  have "ensures (\<lambda>r c'. ct_inv D c') (ct_connect N) c" by (rule ensures_inv_connect [OF _ connect.IH])
  from ensuresD [OF this connect.hyps(2)] show ?case .
next
  case (disconnect c dl w r c' w')
  from ensuresD [OF ensures_inv_disconnect [OF this(3)] this(2)] show ?case .
next
  case (message c cmd data dl w out c' w')
  from ensuresD [OF ensures_inv_message [OF this(3)] this(2)] show ?case .
next
  case (made now address)
  show ?case by (rule ct_inv_new)
next
  case (set_max_buffer_size c n r c')
  then show ?case by (blast intro: ct_inv_set_max_buffer_size)
next
  case (no_answer_message c cmd data dl w out c' w')
  then show ?case by (blast intro: ct_inv_message_with_no_answer)
qed (simp_all add: ct_set_command_has_answer_def ct_inv_assigned)

subsection \<open>Properties\<close>

text \<open>C39: what is sound about the state of a client. Whatever is done with it through its methods, with
  whatever results of the network and of other tasks, and also when calls are dropped half way: its
  buffer has room for a header and for its limit, and the limit is not zero. Its timeouts are valid,
  or are ones that the user has stored in the public field \<open>timeout_config\<close> directly: the methods
  never make them invalid, but the field lets every configuration in, and the client keeps it.\<close>

theorem client_state_is_sound:
  assumes "ct_reachable N alloc D c"
  shows "room (ct_max_buffer_size c) (ct_buffer c) \<and> 0 < ct_max_buffer_size c \<and>
    (validate (ct_timeout_config c) = Inr () \<or> D (ct_timeout_config c)) \<and>
    (\<forall>cfg. D cfg \<longrightarrow> (\<exists>c'. ct_reachable N alloc D c' \<and> ct_timeout_config c' = cfg \<and>
       sh_stream c' = sh_stream c \<and> sh_ping c' = sh_ping c))"
proof (intro conjI allI impI)
  show "room (ct_max_buffer_size c) (ct_buffer c)" "0 < ct_max_buffer_size c"
    "validate (ct_timeout_config c) = Inr () \<or> D (ct_timeout_config c)"
    using ct_reachable_inv [OF assms] by (simp_all add: ct_inv_def ct_wf_def)
  show "\<exists>c'. ct_reachable N alloc D c' \<and> ct_timeout_config c' = cfg \<and> sh_stream c' = sh_stream c \<and> sh_ping c' = sh_ping c"
    if "D cfg" for cfg
    by (rule exI [of _ "c\<lparr>ct_timeout_config := cfg\<rparr>"]) (simp add: ct_reachable.assigned [where D = D, OF assms that])
qed

text \<open>With the methods alone the timeouts stay valid; through the field
  \<open>connect_total\<close> can become zero, which \<open>set_timeout_config\<close> refuses.\<close>

theorem client_state_is_sound_witness:
  "(case ct_handle_message (pipe_client 0 (\<lambda>_. [1, 1]) (\<lambda>_. True)) 5 [1] None (ct_new 0 ''a'') pipe_start of
     (r, c, w) \<Rightarrow> room (ct_max_buffer_size c) (ct_buffer c) \<and> validate (ct_timeout_config c) = Inr ()) \<and>
   (\<exists>c. ct_reachable (pipe_client 0 (\<lambda>_. [1, 1]) (\<lambda>_. True)) (\<lambda>_. True) (\<lambda>cfg. validate cfg \<noteq> Inr ()) c \<and>
     tc_connect_total (ct_timeout_config c) = 0 \<and> validate (ct_timeout_config c) \<noteq> Inr ())"
proof (rule conjI, goal_cases)
  case 1
  obtain r c w where run: "ct_handle_message (pipe_client 0 (\<lambda>_. [1, 1]) (\<lambda>_. True)) 5 [1] None (ct_new 0 ''a'') pipe_start = (r, c, w)"
    by (cases "ct_handle_message (pipe_client 0 (\<lambda>_. [1, 1]) (\<lambda>_. True)) 5 [1] None (ct_new 0 ''a'') pipe_start")
  have "ct_reachable (pipe_client 0 (\<lambda>_. [1, 1]) (\<lambda>_. True)) (\<lambda>_. True) (\<lambda>_. False) c"
    by (rule ct_reachable.message [OF ct_reachable.made run])
  from client_state_is_sound [OF this] run show ?case by simp
next
  case 2
  let ?bad = "default_timeout_config\<lparr>tc_connect_total := 0\<rparr>"
  have bad: "validate ?bad \<noteq> Inr ()"
    by (simp add: validate_def default_timeout_config_def timeout_constants)
  from client_state_is_sound [OF ct_reachable.made [where address = "''a''" and now = 0], where D = "\<lambda>cfg. validate cfg \<noteq> Inr ()"] bad
  obtain c where "ct_reachable (pipe_client 0 (\<lambda>_. [1, 1]) (\<lambda>_. True)) (\<lambda>_. True) (\<lambda>cfg. validate cfg \<noteq> Inr ()) c"
    "ct_timeout_config c = ?bad" by blast
  with bad show ?case by (intro exI [of _ c]) simp
qed

definition closed :: "'h client_tl \<Rightarrow> bool" where
  "closed c \<longleftrightarrow> sh_stream c = None \<and> pg_should_stop (sh_ping c) \<and> pg_task_handle (sh_ping c) = None"

text \<open>A client that is closed leaves nothing behind. With no other task holding a mutex, after
  \<open>disconnect\<close>, also when shutting the stream down failed, after switching connection reuse off, and
  after dropping the client there is no stream, no handle of a ping task, and the stop flag is set.\<close>

theorem closing_leaves_nothing:
  assumes "undisturbed N"
  shows "ensures (\<lambda>r c'. r = Pending \<or> closed c') (ct_disconnect N) c \<and>
    (ct_keep_alive c \<longrightarrow> ensures (\<lambda>r c'. closed c' \<and> \<not> ct_keep_alive c') (ct_set_keep_alive N False) c) \<and>
    ensures (\<lambda>r c'. closed c') (ct_drop N) c"
  unfolding ct_disconnect_def ct_set_keep_alive_def ct_drop_def wait_lock_undisturbed [OF assms]
  by (auto intro!: ensures_await ensures_with_self ensures_set_self ensures_put_stream ensures_stop_ping_task ensures_io
      ensures_ret ensures_effect simp: closed_def update_ping_def split: poll.split option.split sum.split)

theorem closing_leaves_nothing_witness:
  "case ct_disconnect (pipe_client 0 (\<lambda>_. []) (\<lambda>_. False)) None ((ct_new 0 ''a'')\<lparr>sh_stream := Some ()\<rparr>) pipe_start of
     (r, c', w') \<Rightarrow> r = Ready (Inr ()) \<and> closed c'"
proof -
  obtain r c' w' where run: "ct_disconnect (pipe_client 0 (\<lambda>_. []) (\<lambda>_. False)) None ((ct_new 0 ''a'')\<lparr>sh_stream := Some ()\<rparr>) pipe_start =
      (r, c', w')"
    by (cases "ct_disconnect (pipe_client 0 (\<lambda>_. []) (\<lambda>_. False)) None ((ct_new 0 ''a'')\<lparr>sh_stream := Some ()\<rparr>) pipe_start")
  have "r = Pending \<or> closed c'"
    by (rule ensuresD [OF conjunct1 [OF closing_leaves_nothing [OF pipe_client_undisturbed]] run])
  moreover have "r = Ready (Inr ())"
    using run by (simp add: ct_disconnect_def act_simps stop_ping_task_def effect_def put_stream_def pipe_client_def ct_new_def
        Let_def ping_state_new_def update_ping_def wait_lock_def shared.truncate_def)
  ultimately show ?thesis using run by simp
qed

end
