(* ===== verification/Client_TLS_Life.thy ===== *)
theory Client_TLS_Life
  imports Client_Life
begin

section \<open>The life of a TLS client\<close>

text \<open>
  The invariant of \<open>Client_Life\<close> for the TLS client, through \<open>cs_view\<close>: only connecting is new. The
  states reachable by its public operations, with the two settings of its own and the public field
  \<open>timeout_config\<close>.
\<close>

inductive cs_reachable :: "('h, 'k, 'w, 'y) tls_client_net_scheme \<Rightarrow> (nat \<Rightarrow> bool) \<Rightarrow> (timeout_config \<Rightarrow> bool) \<Rightarrow>
    'h client_tls \<Rightarrow> bool"
  for N alloc D where
  made: "cs_reachable N alloc D (cs_new now address)"
| danger_accept_invalid_certs: "cs_reachable N alloc D c \<Longrightarrow> cs_reachable N alloc D (cs_danger_accept_invalid_certs b c)"
| set_domain: "cs_reachable N alloc D c \<Longrightarrow> cs_reachable N alloc D (cs_set_domain domain c)"
| set_max_buffer_size: "cs_reachable N alloc D c \<Longrightarrow> cs_set_max_buffer_size alloc n c = (r, c') \<Longrightarrow> cs_reachable N alloc D c'"
| set_command_has_answer: "cs_reachable N alloc D c \<Longrightarrow> cs_reachable N alloc D (cs_set_command_has_answer b c)"
| set_keep_alive: "cs_reachable N alloc D c \<Longrightarrow> cs_set_keep_alive N b dl c w = (u, c', w') \<Longrightarrow> cs_reachable N alloc D c'"
| set_timeout_config: "cs_reachable N alloc D c \<Longrightarrow> cs_set_timeout_config N cfg dl c w = (r, c', w') \<Longrightarrow> cs_reachable N alloc D c'"
| connect: "cs_reachable N alloc D c \<Longrightarrow> cs_connect N dl c w = (r, c', w') \<Longrightarrow> cs_reachable N alloc D c'"
| disconnect: "cs_reachable N alloc D c \<Longrightarrow> cs_disconnect N dl c w = (r, c', w') \<Longrightarrow> cs_reachable N alloc D c'"
| message: "cs_reachable N alloc D c \<Longrightarrow> cs_handle_message N cmd data dl c w = (out, c', w') \<Longrightarrow> cs_reachable N alloc D c'"
| no_answer_message:
    "cs_reachable N alloc D c \<Longrightarrow> cs_handle_message_with_no_answer N cmd data dl c w = (out, c', w') \<Longrightarrow> cs_reachable N alloc D c'"
| assigned: "cs_reachable N alloc D c \<Longrightarrow> D cfg \<Longrightarrow> cs_reachable N alloc D (c\<lparr>cs_timeout_config := cfg\<rparr>)"

abbreviation cs_inv :: "(timeout_config \<Rightarrow> bool) \<Rightarrow> 'h client_tls \<Rightarrow> bool" where
  "cs_inv D c \<equiv> ct_inv D (cs_view c)"

lemma cs_inv_lifted:
  assumes "lifts cs_view m n" "ensures (\<lambda>r d. ct_inv D d) n (cs_view c)"
  shows "ensures (\<lambda>r c'. cs_inv D c') m c"
  by (rule lifts_ensures [OF assms])

lemma cs_inv_frame:
  assumes "shared.more c' = shared.more (c :: 'h client_tls)" "cs_inv D c"
  shows "cs_inv D c'"
proof (rule ct_inv_cong [OF _ assms(2)])
  show "shared.more (cs_view c') = shared.more (cs_view c)"
    using assms(1) by (cases c; cases c') (simp add: cs_view_def)
qed

lemma ensures_cs_connect: "ensures (\<lambda>r c'. shared.more c' = shared.more c) (cs_connect N) c"
  unfolding cs_connect_def
  by (auto intro!: ensures_with_self ensures_ret ensures_timed ensures_mono [OF ensures_cs_connect_loop]
      split: sum.split poll.split)

lemma ensures_cs_inv_connect:
  assumes "\<And>r c'. cs_inv D c' \<Longrightarrow> Q r c'" "cs_inv D c"
  shows "ensures Q (cs_connect N) c"
  by (rule ensures_mono [OF ensures_cs_connect]) (rule assms(1) [OF cs_inv_frame [OF _ assms(2)]])

lemma ensures_cs_inv_wait_lock:
  assumes "\<And>r c'. cs_inv D c' \<Longrightarrow> Q r c'" "cs_inv D c"
  shows "ensures Q (wait_lock N) c"
  by (rule ensures_shared, rule assms(1) [OF cs_inv_frame [OF _ assms(2)]])

lemma ensures_cs_inv_handle_locked:
  assumes "cs_inv D c"
  shows "ensures (\<lambda>r c'. cs_inv D c') (cs_handle_locked N cmd data) c"
proof (rule ensures_erase)
  have "ensures (\<lambda>r c'. ct_inv D c') (erase (ct_handle_locked N cmd data)) (cs_view c)"
    by (rule ensures_map_err, rule ensures_mono [OF ensures_inv_handle_locked [OF assms]])
       (auto split: poll.split sum.split)
  from cs_inv_lifted [OF lifts_handle_locked this]
  show "ensures (\<lambda>r c'. case r of Ready (Inl _) \<Rightarrow> \<forall>e. cs_inv D c' | Ready (Inr a) \<Rightarrow> cs_inv D c' | Pending \<Rightarrow> cs_inv D c')
      (erase (cs_handle_locked N cmd data)) c"
    by (rule ensures_mono) (auto split: poll.split sum.split)
qed

lemma cs_inv_in_flight: "cs_inv D (set_in_flight b c) = cs_inv D c"
  by (simp flip: cs_view_shared)

lemma ensures_cs_inv_message:
  assumes "cs_inv D c"
  shows "ensures (\<lambda>r c'. cs_inv D c') (cs_handle_message N cmd data) c"
  using assms unfolding cs_handle_message_def
  by (auto intro!: ensures_await ensures_await_try ensures_with_self ensures_cs_inv_wait_lock ensures_cs_inv_connect
      ensures_ret ensures_with_in_flight ensures_mono [OF ensures_cs_inv_handle_locked] simp: cs_inv_in_flight
      split: poll.split option.split sum.split)

lemma cs_inv_message_with_no_answer:
  assumes "cs_inv D c" "cs_handle_message_with_no_answer N cmd data dl c w = (out, c', w')"
  shows "cs_inv D c'"
proof -
  obtain d where run: "cs_handle_message N cmd data dl (c\<lparr>cs_command_has_answer := False\<rparr>) w = (out, d, w')"
    and c': "c' = d\<lparr>cs_command_has_answer := True\<rparr>"
    using assms(2) by (auto simp: cs_handle_message_with_no_answer_def cs_no_answer_guard_def act_simps split: prod.splits)
  have "cs_inv D (c\<lparr>cs_command_has_answer := False\<rparr>)" using assms(1) by (simp flip: cs_view_updates)
  from ensuresD [OF ensures_cs_inv_message [OF this] run] have "cs_inv D d" .
  then show ?thesis by (simp add: c' flip: cs_view_updates)
qed

lemma cs_reachable_inv: "cs_reachable N alloc D c \<Longrightarrow> cs_inv D c"
proof (induction rule: cs_reachable.induct)
  case (made now address)
  show ?case by (simp add: cs_view_new ct_inv_new)
next
  case (danger_accept_invalid_certs c b)
  then show ?case by (simp add: cs_danger_accept_invalid_certs_def cs_view_def)
next
  case (set_domain c domain)
  then show ?case by (simp add: cs_set_domain_def cs_view_def)
next
  case (set_max_buffer_size c n r c')
  then have "ct_set_max_buffer_size alloc n (cs_view c) = (r, cs_view c')"
    by (simp add: cs_view_set_max_buffer_size)
  with set_max_buffer_size.IH show ?case by (rule ct_inv_set_max_buffer_size)
next
  case (set_command_has_answer c b)
  then show ?case by (simp add: cs_set_command_has_answer_def flip: cs_view_updates)
next
  case (set_keep_alive c b dl w u c' w')
  from ensuresD [OF cs_inv_lifted [OF lifts_set_keep_alive ensures_inv_set_keep_alive [OF this(3)]] this(2)] show ?case .
next
  case (set_timeout_config c cfg dl w r c' w')
  from ensuresD [OF cs_inv_lifted [OF lifts_set_timeout_config ensures_inv_set_timeout_config [OF this(3)]] this(2)]
  show ?case .
next
  case (connect c dl w r c' w')
  have "ensures (\<lambda>r c'. cs_inv D c') (cs_connect N) c" by (rule ensures_cs_inv_connect [OF _ connect.IH])
  from ensuresD [OF this connect.hyps(2)] show ?case .
next
  case (disconnect c dl w r c' w')
  from ensuresD [OF cs_inv_lifted [OF lifts_disconnect ensures_inv_disconnect [OF this(3)]] this(2)] show ?case .
next
  case (message c cmd data dl w out c' w')
  from ensuresD [OF ensures_cs_inv_message [OF this(3)] this(2)] show ?case .
next
  case (no_answer_message c cmd data dl w out c' w')
  then show ?case by (blast intro: cs_inv_message_with_no_answer)
next
  case (assigned c cfg)
  then show ?case by (simp add: ct_inv_assigned flip: cs_view_updates)
qed

subsection \<open>Properties\<close>

text \<open>What is sound about the state of a TLS client, with whatever results of the network, the TLS stack
  and other tasks, and also when calls are dropped half way: its buffer has room for a header and for
  its limit, the limit is not zero, and its timeouts are valid or were stored in the public field.\<close>

theorem tls_client_state_is_sound:
  assumes "cs_reachable N alloc D c"
  shows "room (cs_max_buffer_size c) (cs_buffer c) \<and> 0 < cs_max_buffer_size c \<and>
    (validate (cs_timeout_config c) = Inr () \<or> D (cs_timeout_config c))"
  using cs_reachable_inv [OF assms] by (simp add: ct_inv_def ct_wf_def)

theorem tls_client_state_is_sound_witness:
  "case cs_handle_message pipe_tls_client 5 [1] None (cs_set_domain ''server'' (cs_new 0 ''a'')) pipe_start of
     (r, c, w) \<Rightarrow> room (cs_max_buffer_size c) (cs_buffer c)"
proof -
  let ?c = "cs_set_domain ''server'' (cs_new 0 ''a'')"
  obtain r c w where run: "cs_handle_message pipe_tls_client 5 [1] None ?c pipe_start = (r, c, w)"
    by (cases "cs_handle_message pipe_tls_client 5 [1] None ?c pipe_start")
  have "cs_reachable pipe_tls_client (\<lambda>_. True) (\<lambda>_. False) c"
    by (rule cs_reachable.message [OF cs_reachable.set_domain [OF cs_reachable.made] run])
  from tls_client_state_is_sound [OF this] run show ?thesis by simp
qed

text \<open>A message of the TLS client that fails leaves no stream, whatever the network does, so a half-finished
  exchange is never continued; one that succeeds keeps it and returns no more than the limit.\<close>

theorem tls_failed_message_drops_connection:
  assumes "ct_wf (cs_view c)"
  shows "ensures (\<lambda>r c'. ct_wf (cs_view c') \<and>
      (case r of
         Ready (Inl e) \<Rightarrow> sh_stream c' = None
       | Ready (Inr d) \<Rightarrow> sh_stream c' \<noteq> None \<and> length d \<le> cs_max_buffer_size c
       | Pending \<Rightarrow> True))
    (cs_handle_locked N cmd data) c"
proof -
  have "ensures (\<lambda>r d. ct_wf d \<and> (case r of Ready (Inl _) \<Rightarrow> sh_stream d = None
      | Ready (Inr a) \<Rightarrow> sh_stream d \<noteq> None \<and> length a \<le> cs_max_buffer_size c | Pending \<Rightarrow> True))
      (erase (ct_handle_locked N cmd data)) (cs_view c)"
    by (rule ensures_map_err, rule ensures_mono [OF ensures_ct_handle_locked [OF assms]])
       (auto split: poll.split sum.split)
  note erased = this
  show ?thesis
    by (rule ensures_erase, rule lifts_ensures [OF lifts_handle_locked erased])
       (auto split: poll.splits sum.splits)
qed

end
