(* ===== verification/End_To_End.thy ===== *)
theory End_To_End
  imports Client_View Connection_Handler
begin

section \<open>The client against the server\<close>

text \<open>
  The two halves of the crate put together. Fed with the bytes \<open>S\<close>, the connection loop of the
  server writes the bytes \<open>server_out S\<close>; seen from the client that function is its peer. The
  lemmas say what the server has written at least after each part of a request, in the middle of a
  session of any length; together with the client's side of the exchange they give the round trip
  of a message. A session is described by the requests already served.
\<close>

subsection \<open>How far an action gets with what it has read\<close>

definition leaves ::
  "('w \<Rightarrow> byte list) \<Rightarrow> ('w \<Rightarrow> byte list) \<Rightarrow> (byte list \<Rightarrow> bool) \<Rightarrow> ('c, 'w, 'a) act \<Rightarrow> 'c \<Rightarrow> logs \<Rightarrow> bool" where
  "leaves sent got P m c l \<longleftrightarrow>
     (\<forall>dl w r c' w'. logs_are sent got l w \<longrightarrow> m dl c w = (r, c', w') \<longrightarrow> P (sent w'))"

abbreviation emits ::
  "('w \<Rightarrow> byte list) \<Rightarrow> ('w \<Rightarrow> byte list) \<Rightarrow> byte list \<Rightarrow> ('c, 'w, 'a) act \<Rightarrow> 'c \<Rightarrow> logs \<Rightarrow> bool" where
  "emits sent got out \<equiv> leaves sent got (prefix out)"

lemma leavesI:
  "(\<And>dl w r c' w'. sent w = fst l \<Longrightarrow> got w = snd l \<Longrightarrow> m dl c w = (r, c', w') \<Longrightarrow> P (sent w')) \<Longrightarrow>
     leaves sent got P m c l"
  unfolding leaves_def logs_are_def by blast

lemma leavesD:
  "leaves sent got P m c l \<Longrightarrow> sent w = fst l \<Longrightarrow> got w = snd l \<Longrightarrow> P (sent (snd (snd (m dl c w))))"
  unfolding leaves_def logs_are_def by (cases "m dl c w") simp

lemma emits_here:
  assumes "moves R m" "\<And>w w'. R w w' \<Longrightarrow> prefix (sent w) (sent w')" "prefix out (fst l)"
  shows "emits sent got out m c l"
  by (rule leavesI) (metis assms movesD prefix_order.trans)

lemma leaves_await:
  assumes "runs sent got (\<lambda>a c' l'. leaves sent got P (k a) c' l') m c l"
  shows "leaves sent got P (await m k) c l"
proof (rule leavesI)
  fix dl w r c' w' assume l: "sent w = fst l" "got w = snd l" and run: "await m k dl c w = (r, c', w')"
  have "runs sent got (\<lambda>a c' l'. leaves sent got P (k a) c' l') m c (fst l, snd l)"
    using assms by simp
  then obtain a c1 w1 where "m dl c w = (Ready a, c1, w1)" "leaves sent got P (k a) c1 (sent w1, got w1)"
    using l by (rule runsE)
  with run show "P (sent w')"
    by (auto simp: act_simps leaves_def logs_are_def)
qed

lemma leaves_await_try:
  assumes "runs sent got (\<lambda>r c' l'. \<exists>a. r = Inr a \<and> leaves sent got P (k a) c' l') m c l"
  shows "leaves sent got P (await_try m k) c l"
  unfolding await_try_def
  by (rule leaves_await, rule runs_mono [OF assms]) auto

lemma emits_first:
  assumes "emits sent got out m c l" "\<And>a. moves R (k a)" "\<And>w w'. R w w' \<Longrightarrow> prefix (sent w) (sent w')"
  shows "emits sent got out (await m k) c l"
proof (rule leavesI)
  fix dl w r c' w' assume l: "sent w = fst l" "got w = snd l" and run: "await m k dl c w = (r, c', w')"
  obtain r1 c1 w1 where m: "m dl c w = (r1, c1, w1)" by (cases "m dl c w")
  with assms(1) l have "prefix out (sent w1)" unfolding leaves_def logs_are_def by blast
  with run m assms(2,3) show "prefix out (sent w')"
    by (cases r1) (auto simp: act_simps, metis movesD prefix_order.trans)
qed

lemma emits_first_try:
  assumes "growth R" "emits sent got out m c l" "\<And>a. moves R (k a)"
    "\<And>w w'. R w w' \<Longrightarrow> prefix (sent w) (sent w')"
  shows "emits sent got out (await_try m k) c l"
  unfolding await_try_def
  by (rule emits_first [OF assms(2) _ assms(4)]) (auto split: sum.split intro: moves_ret assms(1,3))

lemma leaves_with_self: "leaves sent got P (k c) c l \<Longrightarrow> leaves sent got P (with_self k) c l"
  by (auto simp: leaves_def act_simps)

lemma leaves_borrow: "leaves sent got P m (get c) l \<Longrightarrow> leaves sent got P (borrow get put m) c l"
  by (fastforce simp: leaves_def act_simps split: prod.splits)

lemma leaves_lifts: "lifts f m n \<Longrightarrow> leaves sent got P n (f c) l \<Longrightarrow> leaves sent got P m c l"
  unfolding lifts_def leaves_def by (metis (no_types, lifting) case_prod_conv)

subsection \<open>Sessions\<close>

type_synonym 'u behaviour = "'u \<Rightarrow> u32 \<Rightarrow> byte list \<Rightarrow> 'u \<times> (error + response_status \<times> byte list)"
type_synonym request = "u32 \<times> byte list"

definition req_header :: "request \<Rightarrow> byte list" where
  "req_header rq = request_bytes (fst rq) (usize_as_u32 (length (snd rq)))"

definition resp_header :: "response_status \<times> byte list \<Rightarrow> byte list" where
  "resp_header rp = response_bytes (status_as_u8 (fst rp)) (usize_as_u32 (length (snd rp)))"

definition answer_to :: "'u behaviour \<Rightarrow> 'u \<Rightarrow> request \<Rightarrow> response_status \<times> byte list" where
  "answer_to f u rq = reply (snd (f u (fst rq) (snd rq)))"

text \<open>What a client does with a kept connection: messages, and pings between them.\<close>

datatype event = Message request | KeepAlive

fun state_after :: "'u behaviour \<Rightarrow> 'u \<Rightarrow> event list \<Rightarrow> 'u" where
  "state_after f u [] = u"
| "state_after f u (Message rq # es) = state_after f (fst (f u (fst rq) (snd rq))) es"
| "state_after f u (KeepAlive # es) = state_after f u es"

fun in_bytes :: "event list \<Rightarrow> byte list" where
  "in_bytes [] = []"
| "in_bytes (Message rq # es) = req_header rq @ snd rq @ [1] @ in_bytes es"
| "in_bytes (KeepAlive # es) = request_bytes 0 0 @ in_bytes es"

fun out_bytes :: "'u behaviour \<Rightarrow> 'u \<Rightarrow> event list \<Rightarrow> byte list" where
  "out_bytes f u [] = []"
| "out_bytes f u (Message rq # es) =
     [1] @ resp_header (answer_to f u rq) @ snd (answer_to f u rq) @
     out_bytes f (fst (f u (fst rq) (snd rq))) es"
| "out_bytes f u (KeepAlive # es) = [1] @ out_bytes f u es"

text \<open>A request the server takes, and a session it has not finished.\<close>

definition acceptable :: "usize \<Rightarrow> request \<Rightarrow> bool" where
  "acceptable limit rq \<longleftrightarrow> fst rq \<noteq> 0 \<and> length (snd rq) \<le> limit \<and> length (snd rq) < 2 ^ 32"

fun session_open :: "'u behaviour \<Rightarrow> usize \<Rightarrow> 'u \<Rightarrow> event list \<Rightarrow> bool" where
  "session_open f limit u [] = True"
| "session_open f limit u (Message rq # es) \<longleftrightarrow>
     acceptable limit rq \<and> (\<forall>d. snd (f u (fst rq) (snd rq)) \<noteq> Inr (Finish, d)) \<and>
     session_open f limit (fst (f u (fst rq) (snd rq))) es"
| "session_open f limit u (KeepAlive # es) \<longleftrightarrow> session_open f limit u es"

lemma in_bytes_append: "in_bytes (es @ es') = in_bytes es @ in_bytes es'"
  by (induction es rule: in_bytes.induct) simp_all

lemma out_bytes_append: "out_bytes f u (es @ es') = out_bytes f u es @ out_bytes f (state_after f u es) es'"
  by (induction f u es rule: out_bytes.induct) simp_all

subsection \<open>What the server writes\<close>

definition no_shutdown :: "'w watch" where
  "no_shutdown = \<lparr>wt_changes = (\<lambda>w. None), wt_observe = (\<lambda>w. (True, w))\<rparr>"

abbreviation server_net :: "nat \<Rightarrow> byte list \<Rightarrow> (unit, pipe) net" where
  "server_net k S \<equiv> pipe_net k (\<lambda>_. S) (\<lambda>_. False)"

abbreviation server_loop ::
  "nat \<Rightarrow> 'u behaviour \<Rightarrow> nat \<Rightarrow> byte list \<Rightarrow> ((unit conn, 'u) protocol_handler, pipe, unit option) act" where
  "server_loop k f fuel S \<equiv>
     conn_loop no_shutdown (conn_transport (server_net k S)) (pure_handler f) fuel"

definition server_out :: "nat \<Rightarrow> 'u behaviour \<Rightarrow> unit conn \<Rightarrow> 'u \<Rightarrow> byte list \<Rightarrow> byte list" where
  "server_out k f conn u S =
     pw_sent (snd (snd (server_loop k f (Suc (length S)) S None (ph_new conn u) pipe_start)))"

lemma runs_select_no_shutdown:
  assumes "runs sent got (\<lambda>a. Q (Inr a)) m c l"
  shows "runs sent got Q (select_changed no_shutdown m) c l"
  by (rule runs_lift [OF assms, where g = "\<lambda>dl w. dl"]) (simp add: select_changed_def no_shutdown_def)

lemma leaves_select_no_shutdown:
  "leaves sent got P m c l \<Longrightarrow> leaves sent got P (select_changed no_shutdown m) c l"
  by (fastforce simp: leaves_def select_changed_def no_shutdown_def split: prod.splits poll.splits)

abbreviation server_ok :: "usize \<Rightarrow> unit conn \<Rightarrow> bool" where
  "server_ok limit c \<equiv> st_on () () (conn_view c) \<and> st_max_buffer_size (conn_view c) = limit"

lemma acceptable_size: "acceptable limit rq \<Longrightarrow> unat (usize_as_u32 (length (snd rq))) = length (snd rq)"
  by (simp add: acceptable_def unat_usize_as_u32_small)

lemma server_serves:
  assumes "session_open f limit u es" "S = G @ in_bytes es @ S'" "server_ok limit c"
    and "\<And>c'. server_ok limit c' \<Longrightarrow>
      leaves pw_sent pw_got P (server_loop k f fuel S) (ph_new c' (state_after f u es))
        (Out @ out_bytes f u es, G @ in_bytes es)"
  shows "leaves pw_sent pw_got P (server_loop k f (length es + fuel) S) (ph_new c u) (Out, G)"
  using assms
proof (induction es arbitrary: u c Out G)
  case Nil
  then show ?case by simp
next
  case (Cons e es)
  show ?case
  proof (cases e)
    case KeepAlive
    have "leaves pw_sent pw_got P (server_loop k f (length es + fuel) S) (ph_new (conn_idle c) u)
        (Out @ [1], G @ request_bytes 0 0)"
      by (rule Cons.IH) (use Cons.prems KeepAlive in \<open>simp_all add: conn_view_idle st_on_def\<close>)
    then show ?thesis
      unfolding list.size add_Suc_right add_Suc add_0_right conn_loop.simps(2)
      apply (intro leaves_await runs_select_no_shutdown)
      apply (rule pipe.boxed_wire.runs_handle_next_ping [where peer = "\<lambda>_. S"])
      using Cons.prems KeepAlive apply (simp_all add: ph_new_def)
      done
  next
    case (Message rq)
    obtain cmd data where rq: "rq = (cmd, data)" by (cases rq)
    obtain u' res where f: "f u cmd data = (u', res)" by (cases "f u cmd data")
    obtain st ans where r: "reply res = (st, ans)" by (cases "reply res")
    from Cons.prems(1) Message have acc: "acceptable limit rq" by simp
    note size = acceptable_size [OF acc]
    have S: "S = G @ request_bytes cmd (usize_as_u32 (length data)) @ data @ [1] @ in_bytes es @ S'"
      using Cons.prems(2) by (simp add: Message rq req_header_def)
    have live: "\<forall>d. res \<noteq> Inr (Finish, d)" using Cons.prems(1) by (simp add: Message rq f)
    let ?O = "Out @ [1] @ resp_header (st, ans) @ ans" and ?G = "G @ req_header rq @ data @ [1]"
    have next': "leaves pw_sent pw_got P (server_loop k f (length es + fuel) S) (ph_new (conn_idle c) u') (?O, ?G)"
    proof (rule Cons.IH)
      show "session_open f limit u' es" using Cons.prems(1) by (simp add: Message rq f)
      show "S = ?G @ in_bytes es @ S'" using S by (simp add: Message rq req_header_def)
      show "server_ok limit (conn_idle c)" using Cons.prems(3) by (simp add: conn_view_idle st_on_def)
      show "leaves pw_sent pw_got P (server_loop k f fuel S) (ph_new c' (state_after f u' es))
          (?O @ out_bytes f u' es, ?G @ in_bytes es)" if "server_ok limit c'" for c'
        using Cons.prems(4) [OF that] by (simp add: Message rq f answer_to_def r req_header_def)
    qed
    show ?thesis
      unfolding list.size add_Suc_right add_Suc add_0_right conn_loop.simps(2)
      apply (rule leaves_await, rule runs_select_no_shutdown)
      apply (rule pipe.boxed_wire.runs_handle_next [where peer = "\<lambda>_. S" and data = data and cmd = cmd
            and n = "usize_as_u32 (length data)" and u' = u' and res = res and status = st and out = ans])
      using Cons.prems(3) acc size S live next' f r
      apply (simp_all add: Message rq acceptable_def ph_new_def resp_header_def req_header_def)
      done
  qed
qed

subsection \<open>In the middle of a request\<close>

lemma moves_pure_handler [keep_rules]: "growth R \<Longrightarrow> moves R (pure_handler f cmd data)"
  by (auto simp: moves_def pure_handler_def growth_refl split: prod.splits)

lemma server_net_moves: "net_moves (pipe_grows (length S)) (server_net k S)"
  by (rule pipe_moves) simp

lemma pipe_grows_sent: "pipe_grows L w w' \<Longrightarrow> prefix (pw_sent w) (pw_sent w')"
  by (simp add: pipe_grows_def)

lemma runs_emits:
  assumes "runs sent got (\<lambda>a c' l'. prefix out (fst l')) m c l"
  shows "emits sent got out m c l"
proof (rule leavesI)
  fix dl w r c' w' assume l: "sent w = fst l" "got w = snd l" and run: "m dl c w = (r, c', w')"
  have "runs sent got (\<lambda>a c' l'. prefix out (fst l')) m c (fst l, snd l)" using assms by simp
  from this l obtain a c1 w1 where "m dl c w = (Ready a, c1, w1)" "prefix out (fst (sent w1, got w1))"
    by (rule runsE)
  with run show "prefix out (sent w')" by simp
qed

lemma emits_after_header:
  assumes "server_ok limit c" "acceptable limit rq" "S = G @ req_header rq @ S'"
  shows "emits pw_sent pw_got (Out @ [1]) (handle_next (conn_transport (server_net k S)) (pure_handler f))
    (ph_new c u) (Out, G)"
proof -
  have S: "drop (length G) S = request_bytes (fst rq) (usize_as_u32 (length (snd rq))) @ S'"
    using assms(3) by (simp add: req_header_def)
  note rest = moves_serve_request [OF conn_transport_moves [OF server_net_moves]
      moves_pure_handler [OF net_movesD(1) [OF server_net_moves]]]
  show ?thesis
    unfolding handle_next_def
    by (rule leaves_await_try, rule runs_borrow, rule pipe.boxed_wire.wire_read [where peer = "\<lambda>_. S"
          and cmd = "fst rq" and n = "usize_as_u32 (length (snd rq))" and rest = S'])
       (use S assms(1,2) in \<open>auto simp: ph_new_def acceptable_def unat_usize_as_u32_small
          intro!: emits_here [OF rest pipe_grows_sent]\<close>)
qed

lemma emits_st_send_data:
  assumes "st_on () () s"
  shows "emits pw_sent pw_got (Out @ response_bytes status (usize_as_u32 (length bs)))
    (st_send_data (server_net k S) status (Some bs)) s (Out, G)"
proof -
  note net = server_net_moves [of S k]
  show ?thesis
    using assms unfolding st_send_data_def Let_def
    apply (intro leaves_with_self leaves_await_try)
    apply (rule pipe.runs_st_send_response_header)
    apply (simp_all add: st_on_def)
    apply (rule emits_here [where R = "pipe_grows (length S)"])
    apply (rule keep_rules net_movesD [OF net] net | simp)+
    apply (simp_all add: pipe_grows_sent)
    done
qed

lemma emits_answer:
  assumes "st_on () () (conn_view (ph_transport p))" "reply res = rp"
  shows "emits pw_sent pw_got (Out @ resp_header rp) (answer (conn_transport (server_net k S)) res) p (Out, G)"
proof -
  note growth = net_movesD(1) [OF server_net_moves [of S k]]
  obtain st ans where rp: "rp = (st, ans)" by (cases rp)
  have lift: "lifts conn_view (tr_send_response (conn_transport (server_net k S)) status data)
      (st_send_data (server_net k S) status data)" for status data
    using conn_transport_lifts [of "server_net k S"] by (simp add: transport_lifts_def st_transport_def)
  have send: "emits pw_sent pw_got (Out @ resp_header rp)
      (tr_send_response (conn_transport (server_net k S)) (status_as_u8 st) (Some ans)) (ph_transport p) (Out, G)"
    using leaves_lifts [OF lift emits_st_send_data [OF assms(1)]] by (simp add: resp_header_def rp)
  show ?thesis
    using assms(2) send growth unfolding answer_def rp
    by (cases res) (auto split: prod.split intro!: emits_first_try [OF growth _ _ pipe_grows_sent]
        emits_first [OF _ _ pipe_grows_sent] leaves_borrow moves_ret)
qed

lemma emits_after_payload:
  assumes "server_ok limit c" "acceptable limit rq" "S = G @ req_header rq @ snd rq @ S'"
  shows "emits pw_sent pw_got (Out @ [1] @ resp_header (answer_to f u rq))
    (handle_next (conn_transport (server_net k S)) (pure_handler f)) (ph_new c u) (Out, G)"
proof -
  have S: "drop (length G) S = request_bytes (fst rq) (usize_as_u32 (length (snd rq))) @ snd rq @ S'"
    "drop (length G + 8) S = snd rq @ S'"
    using assms(3) by (simp_all add: req_header_def)
  obtain u' res where f: "f u (fst rq) (snd rq) = (u', res)" by (cases "f u (fst rq) (snd rq)")
  show ?thesis
    unfolding handle_next_def
    apply (rule leaves_await_try, rule runs_borrow, rule pipe.boxed_wire.wire_read [where peer = "\<lambda>_. S"
          and cmd = "fst rq" and n = "usize_as_u32 (length (snd rq))" and rest = "snd rq @ S'"])
    using S assms(1,2) apply (simp_all add: ph_new_def acceptable_def unat_usize_as_u32_small)
    apply (rule leaves_await_try, rule runs_borrow, rule pipe.boxed_wire.wire_receive [where peer = "\<lambda>_. S"
          and bs = "snd rq" and rest = S'])
    apply (simp_all add: unat_usize_as_u32_small conn_view_idle st_on_def)
    apply (rule leaves_await, rule runs_borrow, rule runs_pure_handler)
    apply (clarsimp simp: f)
    apply (rule emits_answer [where Out = "Out @ [1]", simplified])
    apply (simp_all add: conn_view_idle st_on_def answer_to_def f)
    done
qed

lemma emits_after_ack:
  assumes "server_ok limit c" "acceptable limit rq" "S = G @ req_header rq @ snd rq @ [1] @ S'"
  shows "emits pw_sent pw_got (Out @ [1] @ resp_header (answer_to f u rq) @ snd (answer_to f u rq))
    (handle_next (conn_transport (server_net k S)) (pure_handler f)) (ph_new c u) (Out, G)"
proof -
  have S: "drop (length G) S = request_bytes (fst rq) (usize_as_u32 (length (snd rq))) @ snd rq @ 1 # S'"
    "drop (length G + 8) S = snd rq @ 1 # S'" "drop (length G + 8 + length (snd rq)) S = 1 # S'"
    using assms(3) by (simp_all add: req_header_def)
  obtain u' res where f: "f u (fst rq) (snd rq) = (u', res)" by (cases "f u (fst rq) (snd rq)")
  obtain st ans where r: "reply res = (st, ans)" by (cases "reply res")
  show ?thesis
    using S f r assms(1,2)
    by (intro runs_emits pipe.boxed_wire.runs_handle_next [where peer = "\<lambda>_. S" and data = "snd rq"
          and cmd = "fst rq" and n = "usize_as_u32 (length (snd rq))" and u' = u' and res = res
          and status = st and out = ans])
       (simp_all add: ph_new_def acceptable_def unat_usize_as_u32_small answer_to_def resp_header_def)
qed

text \<open>The server's side of a session: what it has written at least, after each part of a request.\<close>

lemma server_loop_emits:
  assumes "emits pw_sent pw_got out (handle_next (conn_transport (server_net k S)) (pure_handler f)) p l"
  shows "emits pw_sent pw_got out (server_loop k f (Suc fuel) S) p l"
proof -
  note net = server_net_moves [of S k]
  have loop: "moves (pipe_grows (length S)) (server_loop k f fuel S)"
    by (rule moves_conn_loop [OF conn_transport_moves [OF net] moves_pure_handler [OF net_movesD(1) [OF net]]])
       (simp add: no_shutdown_def growth_refl [OF net_movesD(1) [OF net]])
  show ?thesis
    unfolding conn_loop.simps(2)
    by (rule emits_first [OF leaves_select_no_shutdown [OF assms] _ pipe_grows_sent])
       (auto split: sum.split intro: loop moves_ret [OF net_movesD(1) [OF net]])
qed

lemma server_out_leaves:
  assumes "session_open f limit u es" "server_ok limit c" "S = in_bytes es @ S'"
    and "\<And>c' fuel. server_ok limit c' \<Longrightarrow>
      leaves pw_sent pw_got P (server_loop k f (Suc fuel) S) (ph_new c' (state_after f u es))
        (out_bytes f u es, in_bytes es)"
  shows "P (server_out k f c u S)"
proof -
  have len: "length es \<le> length S"
  proof -
    have "length es \<le> length (in_bytes es)" by (induction es rule: in_bytes.induct) auto
    then show ?thesis using assms(3) by simp
  qed
  then obtain fuel where fuel: "Suc (length S) = length es + Suc fuel"
    using le_Suc_ex by fastforce
  have "leaves pw_sent pw_got P (server_loop k f (length es + Suc fuel) S) (ph_new c u) ([], [])"
    by (rule server_serves [OF assms(1) _ assms(2)]) (use assms(3,4) in auto)
  then show ?thesis
    unfolding server_out_def fuel by (rule leavesD) simp_all
qed

lemmas server_out_emits = server_out_leaves [where P = "prefix out" for out]

subsection \<open>Between two requests\<close>

text \<open>With nothing to read the server writes nothing: it has said exactly what it had to say.\<close>

definition stuck ::
  "('w \<Rightarrow> byte list) \<Rightarrow> ('w \<Rightarrow> byte list) \<Rightarrow> ('c, 'w, 'e + 'a) act \<Rightarrow> 'c \<Rightarrow> logs \<Rightarrow> bool" where
  "stuck sent got m c l \<longleftrightarrow>
     (\<forall>dl w r c' w'. logs_are sent got l w \<longrightarrow> m dl c w = (r, c', w') \<longrightarrow>
       (\<forall>a. r \<noteq> Ready (Inr a)) \<and> logs_are sent got l w')"

lemma stuckD:
  "stuck sent got m c l \<Longrightarrow> sent w = fst l \<Longrightarrow> got w = snd l \<Longrightarrow> m dl c w = (r, c', w') \<Longrightarrow>
     (\<forall>a. r \<noteq> Ready (Inr a)) \<and> sent w' = fst l \<and> got w' = snd l"
  unfolding stuck_def logs_are_def by blast

lemma stuck_await_try: "stuck sent got m c l \<Longrightarrow> stuck sent got (await_try m k) c l"
  unfolding stuck_def by (fastforce simp: act_simps split: prod.splits poll.splits sum.splits)

lemma stuck_borrow: "stuck sent got m (get c) l \<Longrightarrow> stuck sent got (borrow get put m) c l"
  unfolding stuck_def by (fastforce simp: act_simps split: prod.splits)

lemma stuck_set_self: "stuck sent got k (g c) l \<Longrightarrow> stuck sent got (set_self g k) c l"
  unfolding stuck_def by (simp add: act_simps)

lemma stuck_with_self: "stuck sent got (k c) c l \<Longrightarrow> stuck sent got (with_self k) c l"
  unfolding stuck_def by (simp add: act_simps)

lemma stuck_lifts: "lifts g m n \<Longrightarrow> stuck sent got n (g c) l \<Longrightarrow> stuck sent got m c l"
  unfolding lifts_def stuck_def by (metis (no_types, lifting) case_prod_conv)

lemma stuck_timed: "stuck sent got m c l \<Longrightarrow> stuck sent got (timed N d m conv el) c l"
  unfolding stuck_def
  by (fastforce simp: timed_unfold Let_def split: prod.splits poll.splits sum.splits if_splits)

lemma stuck_read:
  assumes "drop (length G) S = []" "0 < vec_len b"
  shows "stuck pw_sent pw_got (read_exact_or_closed (server_net k S) h) b (Out, G)"
  using assms unfolding stuck_def logs_are_def
  by (auto simp: read_exact_or_closed_def fill_from.simps pipe_read_def Let_def)

lemma stuck_read_command:
  assumes "drop (length G) S = []"
  shows "stuck pw_sent pw_got (tr_read_command (conn_transport (server_net k S))) c (Out, G)"
proof -
  have "lifts conn_view (tr_read_command (conn_transport (server_net k S))) (narrow_size (st_read_command (server_net k S)))"
    using conn_transport_lifts [of "server_net k S"] by (simp add: transport_lifts_def st_transport_def)
  then show ?thesis
    by (rule stuck_lifts)
       (use assms in \<open>auto simp: narrow_size_def st_read_command_def Let_def vec_simps header_sizes
          intro!: stuck_await_try stuck_set_self stuck_with_self stuck_timed stuck_borrow stuck_read\<close>)
qed

lemma server_loop_waits:
  assumes "drop (length G) S = []"
  shows "leaves pw_sent pw_got ((=) Out) (server_loop k f (Suc fuel) S) (ph_new c u) (Out, G)"
proof -
  have "stuck pw_sent pw_got (handle_next (conn_transport (server_net k S)) (pure_handler f)) (ph_new c u) (Out, G)"
    unfolding handle_next_def by (intro stuck_await_try stuck_borrow stuck_read_command assms)
  note next' = stuckD [OF this]
  show ?thesis
  proof (rule leavesI)
    fix dl w r c' w'
    assume l: "pw_sent w = fst (Out, G)" "pw_got w = snd (Out, G)"
      and run: "server_loop k f (Suc fuel) S dl (ph_new c u) w = (r, c', w')"
    obtain rh ch wh where "handle_next (conn_transport (server_net k S)) (pure_handler f) dl (ph_new c u) w = (rh, ch, wh)"
      by (cases "handle_next (conn_transport (server_net k S)) (pure_handler f) dl (ph_new c u) w")
    with next' [of w dl] l run show "Out = pw_sent w'"
      unfolding conn_loop.simps(2) select_changed_def no_shutdown_def
      by (cases rh) (auto simp: act_simps split: sum.splits)
  qed
qed

lemma server_out_exact:
  assumes "session_open f limit u es" "server_ok limit c"
  shows "server_out k f c u (in_bytes es) = out_bytes f u es"
proof -
  have "out_bytes f u es = server_out k f c u (in_bytes es)"
    by (rule server_out_leaves [OF assms, where S' = "[]"]) (simp_all add: server_loop_waits del: conn_loop.simps)
  then show ?thesis by (rule sym)
qed

subsection \<open>A message of a session\<close>

lemma session_answers:
  assumes "session_open f limit u es" "server_ok limit c" "acceptable limit rq"
  defines "a \<equiv> answer_to f (state_after f u es) rq"
  shows "prefix (out_bytes f u es @ [1]) (server_out k f c u (in_bytes es @ req_header rq))"
    and "prefix (out_bytes f u es @ [1] @ resp_header a)
      (server_out k f c u (in_bytes es @ req_header rq @ snd rq))"
    and "prefix (out_bytes f u es @ [1] @ resp_header a @ snd a)
      (server_out k f c u (in_bytes es @ req_header rq @ snd rq @ [1]))"
  unfolding a_def
  by (rule server_out_emits [OF assms(1,2) refl] server_loop_emits
      emits_after_header [where S' = "[]"] emits_after_payload [where S' = "[]"]
      emits_after_ack [where S' = "[]"] assms(3) | simp)+

lemma prefix_drop: "prefix (xs @ ys) zs \<Longrightarrow> \<exists>rest. drop (length xs) zs = ys @ rest"
  by (auto simp: prefix_def)

lemma runs_ct_session:
  assumes "reliable_conn N h (server_out k f conn u) sent got"
    and "session_open f slimit u es" "server_ok slimit conn" "acceptable slimit rq"
    and "room limit b"
    and "f (state_after f u es) (fst rq) (snd rq) = (u', Inr (Ok, out))"
    and "length out \<le> limit" "length out < 2 ^ 32"
    and "\<forall>d. Q (Inr out) (Vec d (vcap b)) (in_bytes (es @ [Message rq]), out_bytes f u (es @ [Message rq]))"
  shows "runs sent got Q (ct_exchange N h (fst rq) (snd rq) cfg True limit) b (in_bytes es, out_bytes f u es)"
proof -
  let ?G = "out_bytes f u es" and ?n = "usize_as_u32 (length out)"
  have a: "answer_to f (state_after f u es) rq = (Ok, out)" using assms(6) by (simp add: answer_to_def)
  note ans = session_answers [OF assms(2-4), where k = k, unfolded a]
  obtain r1 where r1: "drop (length ?G) (server_out k f conn u (in_bytes es @ req_header rq)) = 1 # r1"
    using prefix_drop [OF ans(1)] by auto
  obtain r2 where r2: "drop (length ?G + 1) (server_out k f conn u (in_bytes es @ req_header rq @ snd rq)) =
      response_bytes 1 ?n @ r2"
    using prefix_drop [of "?G @ [1]"] ans(2) by (auto simp: resp_header_def)
  obtain r3 where r3: "drop (length ?G + 6) (server_out k f conn u (in_bytes es @ req_header rq @ snd rq @ [1])) =
      out @ r3"
    using prefix_drop [of "?G @ [1] @ response_bytes 1 ?n"] ans(3) by (auto simp: resp_header_def)
  show ?thesis
    by (rule reliable_conn.runs_ct_exchange [OF assms(1,5), where n = ?n and out = out])
       (use assms(4,7-9) r1 r2 r3 a in \<open>auto simp: acceptable_def req_header_def unat_usize_as_u32_small
          in_bytes_append out_bytes_append resp_header_def\<close>)
qed

lemma prefix_drop3:
  assumes "prefix (G @ [1] @ ys) xs"
  shows "\<exists>r. drop (length G + 1) xs = ys @ r"
  using prefix_drop [of "G @ [1]" ys xs] assms by auto

text \<open>The same exchange when the handler answers with another status, or fails: then the answer of the
  server carries that status, and the client reports it and reads no payload.\<close>

lemma runs_ct_session_failed:
  assumes "reliable_conn N h (server_out k f conn u) sent got"
    and "session_open f slimit u es" "server_ok slimit conn" "acceptable slimit rq"
    and "room limit b"
    and "answer_to f (state_after f u es) rq = (st, out)" "st \<noteq> Ok"
    and "length out \<le> limit" "length out < 2 ^ 32"
    and "\<forall>b' l'. vcap b' = vcap b \<longrightarrow> Q (Inl (ResponseError (status_as_u8 st))) b' l'"
  shows "runs sent got Q (ct_exchange N h (fst rq) (snd rq) cfg True limit) b (in_bytes es, out_bytes f u es)"
proof -
  let ?G = "out_bytes f u es" and ?n = "usize_as_u32 (length out)"
  note ans = session_answers [OF assms(2-4), where k = k, unfolded assms(6)]
  obtain ra where ra: "drop (length ?G) (server_out k f conn u (in_bytes es @ req_header rq)) = 1 # ra"
    using prefix_drop [OF ans(1)] by auto
  obtain rb where rb: "drop (length ?G + 1) (server_out k f conn u (in_bytes es @ req_header rq @ snd rq)) =
      response_bytes (status_as_u8 st) ?n @ rb"
    using prefix_drop3 [OF ans(2)] by (auto simp: resp_header_def)
  have st: "status_as_u8 st \<noteq> 1" using assms(7) by (cases st) simp_all
  show ?thesis
    by (rule reliable_conn.runs_ct_exchange_failed [OF assms(1,5), where n = ?n and st = "status_as_u8 st"])
       (use assms(4,8-10) ra rb st in \<open>auto simp: acceptable_def req_header_def unat_usize_as_u32_small\<close>)
qed

subsection \<open>A message, and a whole session\<close>

lemma runs_ct_message:
  assumes "reliable_conn N h (server_out k f conn u) sent got" "undisturbed N" "client_ready h c"
    and "session_open f slimit u es" "server_ok slimit conn" "acceptable slimit rq"
    and "f (state_after f u es) (fst rq) (snd rq) = (u', Inr (Ok, out))"
    and "length out \<le> ct_max_buffer_size c" "length out < 2 ^ 32"
    and "\<forall>c'. client_ready h c' \<longrightarrow> ct_max_buffer_size c' = ct_max_buffer_size c \<longrightarrow>
      Q (Inr out) c' (in_bytes (es @ [Message rq]), out_bytes f u (es @ [Message rq]))"
  shows "runs sent got Q (ct_handle_message N (fst rq) (snd rq)) c (in_bytes es, out_bytes f u es)"
  by (rule runs_ct_handle_message [OF assms(2,3)], rule runs_ct_session [OF assms(1,4-6) _ assms(7-9)])
     (use assms(3,10) in \<open>auto simp: client_ready_def ct_wf_def\<close>)

text \<open>
  A client at work: requests one after another, and pings of its task between them, each under the
  \<open>in_flight\<close> mutex; until a message fails or a ping does.
\<close>

fun ct_session ::
  "('h, 'w, 'y) client_net_scheme \<Rightarrow> event list \<Rightarrow> ('h client_tl, 'w, error + byte list list) act" where
  "ct_session N [] = ret (Inr [])"
| "ct_session N (Message rq # es) =
     await_try (ct_handle_message N (fst rq) (snd rq)) (\<lambda>out.
     await_try (ct_session N es) (\<lambda>outs. ret (Inr (out # outs))))"
| "ct_session N (KeepAlive # es) =
     await (with_in_flight (ping_exchange N)) (\<lambda>going.
       if going then ct_session N es else ret (Inl ConnectionClosed))"

text \<open>A session in which the handler succeeds on every request and no answer is too long.\<close>

fun session_succeeds :: "'u behaviour \<Rightarrow> usize \<Rightarrow> usize \<Rightarrow> 'u \<Rightarrow> event list \<Rightarrow> byte list list \<Rightarrow> bool" where
  "session_succeeds f slimit climit u [] outs \<longleftrightarrow> outs = []"
| "session_succeeds f slimit climit u (Message rq # es) outs \<longleftrightarrow>
     acceptable slimit rq \<and>
     (case outs of
        [] \<Rightarrow> False
      | out # outs' \<Rightarrow>
          snd (f u (fst rq) (snd rq)) = Inr (Ok, out) \<and> length out \<le> climit \<and> length out < 2 ^ 32 \<and>
          session_succeeds f slimit climit (fst (f u (fst rq) (snd rq))) es outs')"
| "session_succeeds f slimit climit u (KeepAlive # es) outs \<longleftrightarrow> session_succeeds f slimit climit u es outs"

lemma session_open_append:
  "session_open f limit u (es @ es') \<longleftrightarrow>
     session_open f limit u es \<and> session_open f limit (state_after f u es) es'"
  by (induction f limit u es rule: session_open.induct) auto

lemma state_after_append: "state_after f u (es @ es') = state_after f (state_after f u es) es'"
  by (induction f u es rule: state_after.induct) simp_all

lemma runs_ct_ping:
  assumes "quiet_conn N h (server_out k f conn u) sent got" "undisturbed N" "server_ok slimit conn"
    and "client_ready h c" "session_open f slimit u past"
    and "\<And>c'. client_ready h c' \<Longrightarrow> ct_max_buffer_size c' = ct_max_buffer_size c \<Longrightarrow>
      Q True c' (in_bytes (past @ [KeepAlive]), out_bytes f u (past @ [KeepAlive]))"
  shows "runs_free sent got Q (with_in_flight (ping_exchange N)) c (in_bytes past, out_bytes f u past)"
proof -
  have "session_open f slimit u (past @ [KeepAlive])" using assms(5) by (simp add: session_open_append)
  from server_out_exact [OF this assms(3)]
  have peer: "drop (length (out_bytes f u past)) (server_out k f conn u (in_bytes past @ request_bytes 0 0)) = [1]"
    by (simp add: in_bytes_append out_bytes_append)
  let ?c = "\<lambda>t. set_in_flight False (update_ping (\<lambda>p. p\<lparr>pg_last_activity := t\<rparr>) (set_in_flight True c))"
  have ready: "client_ready h (?c t)" "ct_max_buffer_size (?c t) = ct_max_buffer_size c" for t
    using assms(4) by (simp_all add: client_ready_def set_in_flight_def update_ping_def ct_wf_def)
  have "runs_free sent got (\<lambda>r s l'. Q r (set_in_flight False s) l') (ping_exchange N) (set_in_flight True c)
      (in_bytes past, out_bytes f u past)"
    by (rule runs_free_ping_exchange [OF assms(1,2) _ peer])
       (use assms(4,6) ready in \<open>auto simp: client_ready_def set_in_flight_def update_ping_def
          in_bytes_append out_bytes_append\<close>)
  then show ?thesis
    unfolding runs_free_def with_in_flight_def by (fastforce split: prod.split)
qed

lemma runs_ct_session_all:
  assumes "quiet_conn N h (server_out k f conn u) sent got" "undisturbed N" "server_ok slimit conn"
    and "client_ready h c" "session_open f slimit u past"
    and "session_succeeds f slimit (ct_max_buffer_size c) (state_after f u past) es outs"
    and "\<forall>c'. client_ready h c' \<longrightarrow> Q (Inr outs) c' (in_bytes (past @ es), out_bytes f u (past @ es))"
  shows "runs_free sent got Q (ct_session N es) c (in_bytes past, out_bytes f u past)"
  using assms(4-7)
proof (induction es arbitrary: c outs past Q)
  case Nil
  then show ?case by (auto intro!: runs_free_runs runs_ret)
next
  case (Cons e es)
  note rel = quiet_conn.axioms(1) [OF assms(1)]
  let ?u = "state_after f u past"
  show ?case
  proof (cases e)
    case KeepAlive
    show ?thesis
      unfolding KeepAlive ct_session.simps
      by (rule runs_free_await, rule runs_ct_ping [OF assms(1-3) Cons.prems(1,2)])
         (use Cons.prems KeepAlive in \<open>auto simp: session_open_append state_after_append intro!: Cons.IH\<close>)
  next
    case (Message rq)
    obtain out outs' where outs: "outs = out # outs'" using Cons.prems(3) Message by (cases outs) auto
    obtain u' where f: "f ?u (fst rq) (snd rq) = (u', Inr (Ok, out))"
      using Cons.prems(3) outs Message by (cases "f ?u (fst rq) (snd rq)") auto
    have acc: "acceptable slimit rq" and len: "length out \<le> ct_max_buffer_size c" "length out < 2 ^ 32"
      and rest: "session_succeeds f slimit (ct_max_buffer_size c) u' es outs'"
      using Cons.prems(3) outs f Message by auto
    have open': "session_open f slimit u (past @ [Message rq])"
      using Cons.prems(2) acc f by (simp add: session_open_append)
    have IH: "runs_free sent got (\<lambda>r c'' l'. case r of Inl e \<Rightarrow> Q (Inl e) c'' l' | Inr a \<Rightarrow> Q (Inr (out # a)) c'' l')
        (ct_session N es) c' (in_bytes (past @ [Message rq]), out_bytes f u (past @ [Message rq]))"
      if "client_ready h c'" "ct_max_buffer_size c' = ct_max_buffer_size c" for c'
      by (rule Cons.IH [OF that(1) open'])
         (use rest f that Cons.prems(4) outs Message in \<open>auto simp: state_after_append\<close>)
    show ?thesis
      unfolding Message ct_session.simps
      apply (rule runs_free_await_try, rule runs_free_runs, rule runs_ct_message [OF rel assms(2) Cons.prems(1,2) assms(3) acc f len])
      apply (simp only: sum.case, intro allI impI)
      apply (rule runs_free_await_try, rule runs_free_mono [OF IH])
      apply (auto split: sum.splits intro: runs_free_runs runs_ret)
      done
  qed
qed

subsection \<open>Properties of the two ends together\<close>

text \<open>C1: a message comes back with what the handler answered. In the middle of a session, the client
  on a reliable connection to the connection loop of the server, plain or TLS: for a request the
  server takes and an answer that fits the client's limit, \<open>handle_message\<close> completes, returns
  exactly the payload the handler produced, has sent exactly this request and read exactly its
  answer, and is ready for the next one.\<close>

theorem message_round_trip:
  assumes "reliable_conn N h (server_out k f conn u) sent got" "undisturbed N" "client_ready h c"
    and "session_open f slimit u es" "server_ok slimit conn" "acceptable slimit (cmd, data)"
    and "f (state_after f u es) cmd data = (u', Inr (Ok, out))"
    and "length out \<le> ct_max_buffer_size c" "length out < 2 ^ 32"
    and "sent w = in_bytes es" "got w = out_bytes f u es"
  shows "\<exists>c' w'. ct_handle_message N cmd data dl c w = (Ready (Inr out), c', w') \<and>
    client_ready h c' \<and> ct_max_buffer_size c' = ct_max_buffer_size c \<and>
    sent w' = in_bytes (es @ [Message (cmd, data)]) \<and> got w' = out_bytes f u (es @ [Message (cmd, data)])"
proof -
  have "runs sent got (\<lambda>r c' l'. r = Inr out \<and> client_ready h c' \<and> ct_max_buffer_size c' = ct_max_buffer_size c \<and>
      l' = (in_bytes (es @ [Message (cmd, data)]), out_bytes f u (es @ [Message (cmd, data)])))
    (ct_handle_message N cmd data) c (in_bytes es, out_bytes f u es)"
    using runs_ct_message [OF assms(1-6), simplified fst_conv snd_conv, OF assms(7-9)] by auto
  from this assms(10,11) show ?thesis by (rule runsE [where dl = dl]) auto
qed

text \<open>A server that counts requests and echoes payloads, and a client connected to it.\<close>

definition counting_echo :: "nat behaviour" where
  "counting_echo n cmd data = (Suc n, if cmd = 9 then Inl ConnectionClosed else Inr (Ok, data))"

definition served :: "unit conn" where
  "served = Plain (st_new () ())"

definition connected_client :: "unit client_tl" where
  "connected_client = (ct_new 0 ''127.0.0.1:7000'')\<lparr>sh_stream := Some (), ct_keep_alive := True\<rparr>"

lemma connected_client_ready: "client_ready () connected_client"
  using ct_new_wf [of 0 "''127.0.0.1:7000''"]
  by (simp add: client_ready_def connected_client_def ct_wf_def ct_new_def Let_def)

lemma connected_client_limit: "ct_max_buffer_size connected_client = DEFAULT_MAX_BUFFER_SIZE"
  by (simp add: connected_client_def ct_new_def Let_def)

lemma served_ok: "server_ok DEFAULT_MAX_BUFFER_SIZE served"
  by (simp add: served_def st_new_on st_new_limit)

abbreviation echo_link :: "(unit, pipe) client_net" where
  "echo_link \<equiv> pipe_client 0 (server_out 0 counting_echo served 0) (\<lambda>_. False)"

lemma echo_link_reliable: "reliable_conn echo_link () (server_out 0 counting_echo served 0) pw_sent pw_got"
  by (rule pipe_client_reliable)

lemma echo_link_undisturbed: "undisturbed echo_link"
  by (rule pipe_client_undisturbed)

theorem message_round_trip_witness:
  "\<exists>c' w'. ct_handle_message echo_link 5 [1, 2] None connected_client pipe_start = (Ready (Inr [1, 2]), c', w') \<and>
    pw_sent w' = [0, 0, 0, 5, 0, 0, 0, 2, 1, 2, 1] \<and> pw_got w' = [1, 1, 0, 0, 0, 2, 1, 2]"
  using message_round_trip [OF echo_link_reliable echo_link_undisturbed connected_client_ready _ served_ok,
      where es = "[]" and cmd = 5 and data = "[1, 2]" and out = "[1, 2]" and u' = 1 and w = pipe_start and dl = None]
  by (auto simp: acceptable_def counting_echo_def connected_client_limit DEFAULT_MAX_BUFFER_SIZE_def
      answer_to_def req_header_def resp_header_def request_bytes_def response_bytes_def to_be_bytes_def)

text \<open>C2: a whole session. Requests sent one after another over one kept connection, with keep-alive
  pings in between, are answered in order, each with the payload the handler produced from the
  state the earlier requests left it in; the pings leave no trace; the bytes sent and read are those
  of the requests, the pings and their answers, and nothing else.\<close>

theorem session_round_trip:
  assumes "quiet_conn N h (server_out k f conn u) sent got" "undisturbed N" "client_ready h c"
    and "server_ok slimit conn" "session_succeeds f slimit (ct_max_buffer_size c) u es outs"
    and "sent w = []" "got w = []"
  shows "\<exists>c' w'. ct_session N es None c w = (Ready (Inr outs), c', w') \<and> client_ready h c' \<and>
    sent w' = in_bytes es \<and> got w' = out_bytes f u es"
proof -
  have "runs_free sent got (\<lambda>r c' l'. r = Inr outs \<and> client_ready h c' \<and> l' = (in_bytes es, out_bytes f u es))
    (ct_session N es) c ([], [])"
    using runs_ct_session_all [OF assms(1,2,4,3), where past = "[]" and es = es and outs = outs] assms(5) by auto
  from this assms(6,7) show ?thesis by (rule runs_freeE) auto
qed

lemma echo_link_quiet: "quiet_conn echo_link () (server_out 0 counting_echo served 0) pw_sent pw_got"
  by (rule pipe_client_quiet)

theorem session_round_trip_witness:
  "\<exists>c' w'. ct_session echo_link [Message (5, [1, 2]), KeepAlive, Message (6, [])] None connected_client pipe_start =
      (Ready (Inr [[1, 2], []]), c', w') \<and> client_ready () c'"
  using session_round_trip [OF echo_link_quiet echo_link_undisturbed connected_client_ready served_ok,
      where es = "[Message (5, [1, 2]), KeepAlive, Message (6, [])]" and outs = "[[1, 2], []]" and w = pipe_start]
  by (auto simp: acceptable_def counting_echo_def connected_client_limit DEFAULT_MAX_BUFFER_SIZE_def)

text \<open>C3: a handler that fails, or answers with a status other than \<open>Ok\<close>, is a \<open>ResponseError\<close> with that
  status at the client, whatever payload it produced; the client gives the connection up, although
  the server goes on serving it.\<close>

theorem failed_request_reported:
  assumes "reliable_conn N h (server_out k f conn u) sent got" "undisturbed N" "client_ready h c"
    and "\<And>w. sent (net_close N h w) = sent w" "\<And>w. got (net_close N h w) = got w"
    and "\<And>k w. sent (tn_abort N k w) = sent w" "\<And>k w. got (tn_abort N k w) = got w"
    and "session_open f slimit u es" "server_ok slimit conn" "acceptable slimit (cmd, data)"
    and "f (state_after f u es) cmd data = (u', res)"
    and "(status, out) = (case res of Inr sd \<Rightarrow> sd | Inl e \<Rightarrow> (StatusError, []))" "status \<noteq> Ok"
    and "length out \<le> ct_max_buffer_size c" "length out < 2 ^ 32"
    and "sent w = in_bytes es" "got w = out_bytes f u es"
  shows "\<exists>c' w'. ct_handle_message N cmd data dl c w =
      (Ready (Inl (ResponseError (status_as_u8 status))), c', w') \<and> sh_stream c' = None"
proof -
  have a: "answer_to f (state_after f u es) (cmd, data) = (status, out)"
    using assms(11,12) by (cases res) (simp_all add: answer_to_def)
  have "room (ct_max_buffer_size c) (ct_buffer c)" using assms(3) by (simp add: client_ready_def ct_wf_def)
  note ex = runs_ct_session_failed [OF assms(1,8-10) this a assms(13-15), simplified fst_conv snd_conv]
  have "runs sent got (\<lambda>r c' l'. r = Inl (ResponseError (status_as_u8 status)) \<and> sh_stream c' = None)
    (ct_handle_message N cmd data) c (in_bytes es, out_bytes f u es)"
    by (rule runs_ct_handle_message_failed [OF assms(2,3-7)], rule ex) simp
  from this assms(16,17) show ?thesis by (rule runsE [where dl = dl]) auto
qed

theorem failed_request_reported_witness:
  "\<exists>c' w'. ct_handle_message echo_link 9 [7] None connected_client pipe_start =
      (Ready (Inl (ResponseError 3)), c', w') \<and> sh_stream c' = None"
  using failed_request_reported [OF echo_link_reliable echo_link_undisturbed connected_client_ready _ _ _ _ _ served_ok,
      where es = "[]" and status = StatusError
        and cmd = 9 and data = "[7]" and out = "[]" and u' = 1 and res = "Inl ConnectionClosed" and w = pipe_start and dl = None]
  by (auto simp: acceptable_def counting_echo_def connected_client_limit DEFAULT_MAX_BUFFER_SIZE_def pipe_client_def status_as_u8_def)

text \<open>The exchange alone, with any buffer that has room, over TLS: the exchange of the TLS client with a TLS connection of the server completes
  and returns exactly the payload the handler produced.\<close>

theorem tls_exchange_round_trip:
  assumes "reliable_conn N h (server_out k f conn u) sent got"
    and "session_open f slimit u es" "server_ok slimit conn" "acceptable slimit (cmd, data)"
    and "room limit b" "f (state_after f u es) cmd data = (u', Inr (Ok, out))"
    and "length out \<le> limit" "length out < 2 ^ 32"
    and "sent w = in_bytes es" "got w = out_bytes f u es"
  shows "\<exists>b' w'. cs_exchange N h cmd data cfg True limit dl b w = (Ready (Inr out), b', w') \<and>
    vcap b' = vcap b \<and> sent w' = in_bytes (es @ [Message (cmd, data)]) \<and> got w' = out_bytes f u (es @ [Message (cmd, data)])"
proof -
  have "runs sent got (\<lambda>r b' l'. r = Inr out \<and> vcap b' = vcap b \<and>
      l' = (in_bytes (es @ [Message (cmd, data)]), out_bytes f u (es @ [Message (cmd, data)])))
    (ct_exchange N h cmd data cfg True limit) b (in_bytes es, out_bytes f u es)"
    using runs_ct_session [OF assms(1-5), simplified fst_conv snd_conv, OF assms(6-8)] by auto
  from this assms(9,10) obtain b' w' where "ct_exchange N h cmd data cfg True limit dl b w = (Ready (Inr out), b', w')"
    "vcap b' = vcap b" "sent w' = in_bytes (es @ [Message (cmd, data)])" "got w' = out_bytes f u (es @ [Message (cmd, data)])"
    by (rule runsE [where dl = dl]) auto
  moreover have "erase (cs_exchange N h cmd data cfg True limit) dl b w =
      erase (ct_exchange N h cmd data cfg True limit) dl b w"
    by (simp only: erase_exchange)
  ultimately show ?thesis
    by (cases "cs_exchange N h cmd data cfg True limit dl b w")
       (auto simp: map_err_unfold split: poll.splits sum.splits)
qed

theorem tls_exchange_round_trip_witness:
  "\<exists>b' w'. cs_exchange (pipe_client 0 (server_out 0 counting_echo (Secure (ss_new ())) 0) (\<lambda>_. False)) () 5 [1, 2]
      default_timeout_config True 100 None (Vec [] 100) pipe_start = (Ready (Inr [1, 2]), b', w')"
  using tls_exchange_round_trip [OF pipe_client_reliable [where k = 0 and closed = "\<lambda>_. False"],
      where es = "[]" and k = 0 and u = 0 and f = counting_echo and slimit = DEFAULT_MAX_BUFFER_SIZE
        and conn = "Secure (ss_new ())" and limit = 100 and b = "Vec [] 100" and cfg = default_timeout_config
        and cmd = 5 and data = "[1, 2]" and out = "[1, 2]" and u' = 1 and w = pipe_start and dl = None]
  by (auto simp: acceptable_def counting_echo_def room_def DEFAULT_MAX_BUFFER_SIZE_def
      st_on_def st_wf_def ss_view_def ss_new_def vec_simps vec_with_capacity_def)

text \<open>C4: the same over TLS. In the middle of a session, a message of the TLS client on a kept connection
  to the connection loop of the server completes, returns exactly the payload the handler produced,
  has sent exactly this request and read exactly its answer, and leaves the client ready for the
  next message, its TLS settings as they were.\<close>

theorem tls_message_round_trip:
  assumes "reliable_conn N h (server_out k f conn u) sent got" "undisturbed N" "client_ready h (cs_view c)"
    and "session_open f slimit u es" "server_ok slimit conn" "acceptable slimit (cmd, data)"
    and "f (state_after f u es) cmd data = (u', Inr (Ok, out))"
    and "length out \<le> cs_max_buffer_size c" "length out < 2 ^ 32"
    and "sent w = in_bytes es" "got w = out_bytes f u es"
  shows "\<exists>c' w'. cs_handle_message N cmd data dl c w = (Ready (Inr out), c', w') \<and>
    client_ready h (cs_view c') \<and> cs_max_buffer_size c' = cs_max_buffer_size c \<and>
    sent w' = in_bytes (es @ [Message (cmd, data)]) \<and> got w' = out_bytes f u (es @ [Message (cmd, data)])"
proof -
  have "runs sent got (\<lambda>r c' l'. r = Inr out \<and> client_ready h (cs_view c') \<and>
      cs_max_buffer_size c' = cs_max_buffer_size c \<and>
      l' = (in_bytes (es @ [Message (cmd, data)]), out_bytes f u (es @ [Message (cmd, data)])))
    (cs_handle_message N cmd data) c (in_bytes es, out_bytes f u es)"
    using assms(3,8)
    by (intro runs_cs_handle_message [OF assms(2)]
        runs_ct_message [OF assms(1-6), simplified fst_conv snd_conv, OF assms(7) _ assms(9)])
       (auto simp: client_ready_def)
  from this assms(10,11) show ?thesis by (rule runsE [where dl = dl]) auto
qed

definition connected_tls_client :: "unit client_tls" where
  "connected_tls_client = (cs_new 0 ''127.0.0.1:7000'')\<lparr>sh_stream := Some (), cs_keep_alive := True\<rparr>"

lemma connected_tls_client_ready: "client_ready () (cs_view connected_tls_client)"
  using connected_client_ready
  by (simp add: connected_tls_client_def connected_client_def flip: cs_view_updates add: cs_view_new)

text \<open>A TLS stack on the pipe whose handshake changes nothing.\<close>

definition tls_link :: "(unit, unit, pipe) tls_client_net" where
  "tls_link = client_net.extend
     (pipe_client 0 (server_out 0 counting_echo (Secure (ss_new ())) 0) (\<lambda>_. False))
     \<lparr>cn_tls_build = (\<lambda>_. Inr ()), cn_tls_connect = (\<lambda>k d h dl w. (Ready (Inr h), w))\<rparr>"

lemma tls_link_reliable:
  "reliable_conn tls_link () (server_out 0 counting_echo (Secure (ss_new ())) 0) pw_sent pw_got"
  by (rule reliable_conn_cong [OF pipe_client_reliable]) (simp_all add: tls_link_def client_net.extend_def)

lemma tls_link_undisturbed: "undisturbed tls_link"
  using pipe_client_undisturbed by (simp add: undisturbed_def tls_link_def client_net.extend_def)

lemma secure_ok: "server_ok DEFAULT_MAX_BUFFER_SIZE (Secure (ss_new ()))"
  by (simp add: st_on_def st_wf_def ss_view_def ss_new_def vec_simps vec_with_capacity_def DEFAULT_MAX_BUFFER_SIZE_def)

theorem tls_message_round_trip_witness:
  "\<exists>c' w'. cs_handle_message tls_link 5 [1, 2] None connected_tls_client pipe_start = (Ready (Inr [1, 2]), c', w')"
proof -
  have limit: "cs_max_buffer_size connected_tls_client = DEFAULT_MAX_BUFFER_SIZE"
    by (simp add: connected_tls_client_def cs_new_def Let_def)
  show ?thesis
    using tls_message_round_trip [OF tls_link_reliable tls_link_undisturbed connected_tls_client_ready _ secure_ok,
        where es = "[]" and cmd = 5 and data = "[1, 2]" and out = "[1, 2]" and u' = 1 and w = pipe_start and dl = None]
    by (auto simp: acceptable_def counting_echo_def limit DEFAULT_MAX_BUFFER_SIZE_def)
qed

end
