(* ===== verification/Huge_Payload.thy ===== *)
theory Huge_Payload
  imports End_To_End
begin

section \<open>Payloads of four gigabytes and more\<close>

text \<open>
  The size of a payload is cast to 32 bits for its header, and neither side checks it first. What a
  client with a larger request sends, and what the command handler of the server is then shown.
\<close>

context reliable_conn
begin

lemma runs_ct_send_any:
  assumes "8 \<le> vcap b"
    and "drop (length G) (peer (S @ request_bytes cmd (usize_as_u32 (length data)))) = 1 # rest"
    and "Q (Inr ()) (Vec [] (vcap b)) (S @ request_bytes cmd (usize_as_u32 (length data)) @ data, G @ [1])"
  shows "runs sent got Q (ct_send_message N h cmd data cfg a limit) b (S, G)"
  using assms unfolding ct_send_message_def
  by - (rule exec_rules runs_ct_send_request_header runs_ct_receive_ack | simp add: ct_exec)+

end

context wire_transport
begin

text \<open>Whatever becomes of the answer, the state of the command handler is that after the request.\<close>

lemma handler_after_request:
  assumes "ok (ph_transport p)" "sent w = S" "got w = G"
    and "cmd \<noteq> 0" "unat n = length data" "unat n \<le> limit (ph_transport p)"
    and "drop (length G) (peer S) = request_bytes cmd n @ r1"
    and "drop (length G + 8) (peer (S @ [1])) = data @ r2"
    and run: "handle_next T (pure_handler f) dl p w = (r, p', w')"
  shows "ph_command_handler p' = fst (f (ph_command_handler p) cmd data)"
proof -
  have "runs sent got (\<lambda>r c' l'. r = Inr (Some (cmd, n)) \<and> c' = idle (ph_transport p) \<and>
      l' = (S @ [1], G @ request_bytes cmd n)) (tr_read_command T) (ph_transport p) (S, G)"
    by (rule wire_read [OF assms(1,7,6,4)]) simp
  from runsE [OF this assms(2,3), of dl] obtain w1 where read: "tr_read_command T dl (ph_transport p) w =
      (Ready (Inr (Some (cmd, n))), idle (ph_transport p), w1)" "sent w1 = S @ [1]" "got w1 = G @ request_bytes cmd n"
    by auto
  have "runs sent got (\<lambda>r c' l'. r = Inr data \<and> c' = idle (ph_transport p)) (tr_receive_data T n)
      (idle (ph_transport p)) (S @ [1], G @ request_bytes cmd n)"
    by (rule wire_receive [where bs = data and rest = r2]) (use assms in \<open>simp_all add: idle_ok\<close>)
  from runsE [OF this read(2,3), of dl] obtain w2 where receive: "tr_receive_data T n dl (idle (ph_transport p)) w1 =
      (Ready (Inr data), idle (ph_transport p), w2)"
    by auto
  obtain u' res where f: "f (ph_command_handler p) cmd data = (u', res)" by (cases "f (ph_command_handler p) cmd data")
  let ?p = "p\<lparr>ph_transport := idle (ph_transport p), ph_command_handler := u'\<rparr>"
  have "answer T res dl ?p w2 = (r, p', w')"
    using run by (simp add: handle_next_def act_simps read(1) receive pure_handler_def f)
  from ensuresD [OF ensures_answer this] show ?thesis
    using assms(1) by (simp add: f idle_ok)
qed

end

text \<open>C28: a request of four gigabytes or more is executed with a part of its payload. The client announces
  the size modulo \<open>2 ^ 32\<close>, sends the whole payload all the same, and reports no error; the server,
  when the announced size is within its limit, takes that many bytes for the payload, and its command
  handler runs on them. The rest of the payload is left for the server to read as the
  acknowledgement and as further requests.\<close>

theorem huge_request_is_cut:
  assumes "2 ^ 32 \<le> length data" "cmd \<noteq> 0"
    and "reliable_conn N h peer sent got" "8 \<le> vcap b"
    and "drop (length (got v)) (peer (sent v @ request_bytes cmd (usize_as_u32 (length data)))) = 1 # rest"
    and "reliable_conn M j client written read" "st_on j j (conn_view c)"
    and "length data mod 2 ^ 32 \<le> st_max_buffer_size (conn_view c)"
    and "drop (length (read w)) (client (written w)) = request_bytes cmd (usize_as_u32 (length data)) @ ra"
    and "drop (length (read w) + 8) (client (written w @ [1])) = data @ rb"
    and "handle_next (conn_transport M) (pure_handler f) dl (ph_new c u) w = (r, p', w')"
  shows "(\<exists>b' v'. ct_send_message N h cmd data cfg a limit dl b v = (Ready (Inr ()), b', v') \<and>
      sent v' = sent v @ request_bytes cmd (usize_as_u32 (length data)) @ data) \<and>
    ph_command_handler p' = fst (f u cmd (take (length data mod 2 ^ 32) data)) \<and>
    length data mod 2 ^ 32 < length data"
proof (intro conjI)
  have "runs sent got (\<lambda>r b' l'. r = Inr () \<and> fst l' = sent v @ request_bytes cmd (usize_as_u32 (length data)) @ data)
      (ct_send_message N h cmd data cfg a limit) b (sent v, got v)"
    by (rule reliable_conn.runs_ct_send_any [OF assms(3,4,5)]) simp
  then show "\<exists>b' v'. ct_send_message N h cmd data cfg a limit dl b v = (Ready (Inr ()), b', v') \<and>
      sent v' = sent v @ request_bytes cmd (usize_as_u32 (length data)) @ data"
    by (rule runsE [where dl = dl]) auto
  show "length data mod 2 ^ 32 < length data"
  proof -
    have "length data mod 2 ^ 32 < 2 ^ 32" by (rule mod_less_divisor) simp
    then show ?thesis using assms(1) by (rule less_le_trans)
  qed
  show "ph_command_handler p' = fst (f u cmd (take (length data mod 2 ^ 32) data))"
  proof -
    let ?n = "usize_as_u32 (length data)" and ?k = "length data mod 2 ^ 32"
    have n: "unat ?n = ?k" by (rule unat_usize_as_u32)
    have k: "length (take ?k data) = ?k" by simp
    have cut: "data @ rb = take ?k data @ drop ?k data @ rb"
      unfolding append_assoc [symmetric] append_take_drop_id ..
    have ph: "ph_transport (ph_new c u) = c" "ph_command_handler (ph_new c u) = u"
      by (simp_all add: ph_new_def)
    have "ph_command_handler p' = fst (f (ph_command_handler (ph_new c u)) cmd (take ?k data))"
      by (rule wire_transport.handler_after_request [OF reliable_conn.conn_wire [OF assms(6)],
            where p = "ph_new c u" and n = ?n and S = "written w" and G = "read w" and w = w
            and data = "take ?k data" and ?r1.0 = ra and ?r2.0 = "drop ?k data @ rb"])
        (unfold n k ph, fact assms(7), rule refl, rule refl, fact assms(2), rule refl, fact assms(8),
          fact assms(9), rule assms(10) [unfolded cut], fact assms(11))
    then show ?thesis by (simp add: ph_new_def)
  qed
qed

text \<open>One byte more than four gigabytes; a handler that keeps the payload it was given.\<close>

definition huge :: "byte list" where
  "huge = replicate (2 ^ 32 + 1) 7"

definition keep_payload :: "byte list behaviour" where
  "keep_payload u cmd data = (data, Inr (Ok, []))"

lemma huge_length: "length huge = 2 ^ 32 + 1"
  unfolding huge_def by (rule length_replicate)

lemma huge_length_mod: "length huge mod 2 ^ 32 = 1"
  unfolding huge_length by simp

lemma take_huge: "take 1 huge = [7]"
  unfolding huge_def by (simp only: take_replicate) simp

abbreviation client_side :: "(unit, pipe) net" where
  "client_side \<equiv> pipe_net 0 (\<lambda>_. [1]) (\<lambda>_. False)"

abbreviation server_side :: "(unit, pipe) net" where
  "server_side \<equiv> pipe_net 0 (\<lambda>_. request_bytes 5 (usize_as_u32 (length huge)) @ huge) (\<lambda>_. False)"

theorem huge_request_is_cut_witness:
  "(\<exists>b' v'. ct_send_message client_side () 5 huge default_timeout_config True 0 None (Vec [] 8) pipe_start =
      (Ready (Inr ()), b', v') \<and> pw_sent v' = request_bytes 5 (usize_as_u32 (length huge)) @ huge) \<and>
    ph_command_handler (fst (snd (handle_next (conn_transport server_side) (pure_handler keep_payload) None
      (ph_new (Plain (st_new () ())) []) pipe_start))) = [7]"
proof -
  obtain r p' w' where run: "handle_next (conn_transport server_side) (pure_handler keep_payload) None
      (ph_new (Plain (st_new () ())) []) pipe_start = (r, p', w')" by (rule prod_cases3)
  have "2 ^ 32 \<le> length huge" unfolding huge_length by simp
  from huge_request_is_cut [OF this, where cmd = 5 and b = "Vec [] 8" and v = pipe_start and w = pipe_start
      and c = "Plain (st_new () ())" and u = "[]" and f = keep_payload and N = client_side and M = server_side
      and h = "()" and j = "()" and peer = "\<lambda>_. [1]" and rest = "[]" and sent = pw_sent and got = pw_got
      and client = "\<lambda>_. request_bytes 5 (usize_as_u32 (length huge)) @ huge" and written = pw_sent and read = pw_got
      and ra = huge and rb = "[]" and dl = None and cfg = default_timeout_config and a = True and limit = 0, OF _ pipe.reliable_conn_axioms _ _ pipe.reliable_conn_axioms _ _ _ _ run]
  show ?thesis
    unfolding huge_length_mod take_huge run by (simp add: st_new_on st_new_limit DEFAULT_MAX_BUFFER_SIZE_def keep_payload_def)
qed

end
