(* ===== verification/Dialogue.thy ===== *)
theory Dialogue
  imports Connection_Handler
begin

section \<open>Two parties on one stream\<close>

text \<open>
  A dialogue is what one party of a connection writes and reads, in turns. \<open>speaks Q m c tr\<close> says that
  the action \<open>m\<close>, started in the state \<open>c\<close> with the turns \<open>tr\<close> before it, follows them up to a point: it
  completes with a result, a state and remaining turns that satisfy \<open>Q\<close>, on any connection whose peer
  keeps to the dialogue, however the bytes are cut on the way; and whenever the next bytes are not
  there yet, it has written all that is due and waits. As \<open>runs\<close>, it is computed backwards. Parties
  that follow the two sides of one dialogue complete together (\<open>meets_speaks\<close>): this is how the
  example programs and the tests are put together.
\<close>

datatype turn = Gives "byte list" | Takes "byte list"

fun given :: "turn list \<Rightarrow> byte list" where
  "given [] = []"
| "given (Gives bs # t) = bs @ given t"
| "given (Takes bs # t) = given t"

fun taken :: "turn list \<Rightarrow> byte list" where
  "taken [] = []"
| "taken (Gives bs # t) = taken t"
| "taken (Takes bs # t) = bs @ taken t"

fun other_side :: "turn \<Rightarrow> turn" where
  "other_side (Gives bs) = Takes bs"
| "other_side (Takes bs) = Gives bs"

text \<open>A peer that has answered what the turns expect, having been sent \<open>S\<close> and read up to \<open>G\<close>.\<close>

fun agrees :: "(byte list \<Rightarrow> byte list) \<Rightarrow> byte list \<Rightarrow> byte list \<Rightarrow> turn list \<Rightarrow> bool" where
  "agrees peer S G [] = True"
| "agrees peer S G (Gives bs # t) = agrees peer (S @ bs) G t"
| "agrees peer S G (Takes bs # t) = (prefix (G @ bs) (peer S) \<and> agrees peer S (G @ bs) t)"

definition moved :: "turn list \<Rightarrow> pipe \<Rightarrow> pipe" where
  "moved t w = w\<lparr>pw_sent := pw_sent w @ given t, pw_got := pw_got w @ taken t\<rparr>"

lemma given_append [simp]: "given (t @ u) = given t @ given u"
  by (induction t rule: given.induct) simp_all

lemma taken_append [simp]: "taken (t @ u) = taken t @ taken u"
  by (induction t rule: taken.induct) simp_all

lemma other_side_bytes [simp]:
  "given (map other_side t) = taken t" "taken (map other_side t) = given t"
  by (induction t rule: given.induct) simp_all

lemma other_side_twice [simp]: "other_side (other_side x) = x"
  by (cases x) simp_all

lemma agrees_append [simp]:
  "agrees peer S G (t @ u) \<longleftrightarrow> agrees peer S G t \<and> agrees peer (S @ given t) (G @ taken t) u"
  by (induction peer S G t rule: agrees.induct) auto

lemma moved_simps [simp]:
  "pw_sent (moved t w) = pw_sent w @ given t" "pw_got (moved t w) = pw_got w @ taken t"
  "pw_now (moved t w) = pw_now w" "moved u (moved t w) = moved (t @ u) w" "moved [] w = w"
  by (simp_all add: moved_def)

subsection \<open>The judgement\<close>

type_synonym ('c, 'a) party = "(unit, pipe) net \<Rightarrow> ('c, pipe, 'a) act"

text \<open>The peer that has said \<open>S\<close> so far, and what a party does without time passing.\<close>

abbreviation so_far :: "nat \<Rightarrow> byte list \<Rightarrow> (unit, pipe) net" where
  "so_far k S \<equiv> pipe_net k (\<lambda>_. S) (\<lambda>_. False)"

text \<open>A run that has followed some of the turns and completed, and one that has followed all and waits.\<close>

definition went ::
  "('a \<Rightarrow> 'c \<Rightarrow> turn list \<Rightarrow> bool) \<Rightarrow> pipe \<Rightarrow> turn list \<Rightarrow> 'a poll \<times> 'c \<times> pipe \<Rightarrow> bool" where
  "went Q w tr res \<longleftrightarrow> (\<exists>a c' t u. res = (Ready a, c', moved t w) \<and> tr = t @ u \<and> Q a c' u)"

definition stays :: "pipe \<Rightarrow> turn list \<Rightarrow> 'a poll \<times> 'c \<times> pipe \<Rightarrow> bool" where
  "stays w tr res \<longleftrightarrow> (\<exists>c'. res = (Pending, c', moved tr w))"

definition speaks ::
  "('a \<Rightarrow> 'c \<Rightarrow> turn list \<Rightarrow> bool) \<Rightarrow> ('c, 'a) party \<Rightarrow> 'c \<Rightarrow> turn list \<Rightarrow> bool" where
  "speaks Q m c tr \<longleftrightarrow>
     (\<forall>k peer closed dl w. agrees peer (pw_sent w) (pw_got w) tr \<longrightarrow> went Q w tr (m (pipe_net k peer closed) dl c w)) \<and>
     (\<forall>k t bs u w. tr = t @ Takes bs # u \<longrightarrow> bs \<noteq> [] \<longrightarrow>
        stays w t (m (so_far k (pw_got w @ taken t)) (Some (pw_now w)) c w) \<or>
        went (\<lambda>a c' t2. Q a c' (t2 @ Takes bs # u)) w t (m (so_far k (pw_got w @ taken t)) (Some (pw_now w)) c w))"

lemma wentI: "res = (Ready a, c', moved t w) \<Longrightarrow> tr = t @ u \<Longrightarrow> Q a c' u \<Longrightarrow> went Q w tr res"
  unfolding went_def by blast

lemma wentE:
  assumes "went Q w tr res"
  obtains a c' t u where "res = (Ready a, c', moved t w)" "tr = t @ u" "Q a c' u"
  using assms unfolding went_def by blast

lemma went_mono: "went P w tr res \<Longrightarrow> (\<And>a c' u. P a c' u \<Longrightarrow> Q a c' u) \<Longrightarrow> went Q w tr res"
  unfolding went_def by blast

lemma went_moved: "went Q (moved t w) u res \<Longrightarrow> went Q w (t @ u) res"
  unfolding went_def by (metis append_assoc moved_simps(4))

lemma stays_moved: "stays (moved t w) u res \<Longrightarrow> stays w (t @ u) res"
  unfolding stays_def by simp

lemma speaksI:
  assumes "\<And>k peer closed dl w. agrees peer (pw_sent w) (pw_got w) tr \<Longrightarrow> went Q w tr (m (pipe_net k peer closed) dl c w)"
    and "\<And>k t bs u w. tr = t @ Takes bs # u \<Longrightarrow> bs \<noteq> [] \<Longrightarrow>
      stays w t (m (so_far k (pw_got w @ taken t)) (Some (pw_now w)) c w) \<or>
      went (\<lambda>a c' t2. Q a c' (t2 @ Takes bs # u)) w t (m (so_far k (pw_got w @ taken t)) (Some (pw_now w)) c w)"
  shows "speaks Q m c tr"
  using assms unfolding speaks_def by blast

lemma speaks_goes:
  "speaks Q m c tr \<Longrightarrow> agrees peer (pw_sent w) (pw_got w) tr \<Longrightarrow> went Q w tr (m (pipe_net k peer closed) dl c w)"
  unfolding speaks_def by blast

lemma speaks_waits:
  "speaks Q m c (t @ Takes bs # u) \<Longrightarrow> bs \<noteq> [] \<Longrightarrow>
     stays w t (m (so_far k (pw_got w @ taken t)) (Some (pw_now w)) c w) \<or>
     went (\<lambda>a c' t2. Q a c' (t2 @ Takes bs # u)) w t (m (so_far k (pw_got w @ taken t)) (Some (pw_now w)) c w)"
  unfolding speaks_def by blast

lemma speaks_mono:
  assumes "speaks P m c tr" and "\<And>a c' u. P a c' u \<Longrightarrow> Q a c' u"
  shows "speaks Q m c tr"
proof (rule speaksI)
  fix k peer closed dl and w :: pipe assume "agrees peer (pw_sent w) (pw_got w) tr"
  from speaks_goes [OF assms(1) this] show "went Q w tr (m (pipe_net k peer closed) dl c w)"
    by (rule went_mono) (rule assms(2))
next
  fix k t bs u and w :: pipe assume tr: "tr = t @ Takes bs # u" "bs \<noteq> []"
  from speaks_waits [OF assms(1) [unfolded tr(1)] tr(2), of w k]
  show "stays w t (m (so_far k (pw_got w @ taken t)) (Some (pw_now w)) c w) \<or>
      went (\<lambda>a c' t2. Q a c' (t2 @ Takes bs # u)) w t (m (so_far k (pw_got w @ taken t)) (Some (pw_now w)) c w)"
    by (rule disj_forward) (assumption, erule went_mono, rule assms(2))
qed

text \<open>How the runs of the parts make the runs of the whole.\<close>

lemma speaks_ret [talk_rules]: "Q a c tr \<Longrightarrow> speaks Q (\<lambda>N. ret a) c tr"
  by (rule speaksI) (auto simp: act_simps intro!: wentI [where t = "[]"])

lemma speaks_await [talk_rules]:
  assumes "speaks (\<lambda>a c' u. speaks Q (\<lambda>N. k N a) c' u) m c tr"
  shows "speaks Q (\<lambda>N. await (m N) (k N)) c tr"
proof (rule speaksI)
  fix j peer closed dl and w :: pipe assume ag: "agrees peer (pw_sent w) (pw_got w) tr"
  let ?N = "pipe_net j peer closed"
  from speaks_goes [OF assms ag] obtain a c1 t u where m: "m ?N dl c w = (Ready a, c1, moved t w)"
    "tr = t @ u" "speaks Q (\<lambda>N. k N a) c1 u"
    by (rule wentE)
  have "agrees peer (pw_sent (moved t w)) (pw_got (moved t w)) u" using ag m(2) by simp
  from went_moved [OF speaks_goes [OF m(3) this]] show "went Q w tr (await (m ?N) (k ?N) dl c w)"
    using m(1,2) by (simp add: act_simps)
next
  fix j t bs u and w :: pipe assume tr: "tr = t @ Takes bs # u" "bs \<noteq> []"
  let ?N = "so_far j (pw_got w @ taken t)" and ?dl = "Some (pw_now w)"
  from speaks_waits [OF assms [unfolded tr(1)] tr(2), of w j]
  show "stays w t (await (m ?N) (k ?N) ?dl c w) \<or>
      went (\<lambda>a c' t2. Q a c' (t2 @ Takes bs # u)) w t (await (m ?N) (k ?N) ?dl c w)"
  proof
    assume "stays w t (m ?N ?dl c w)"
    then show ?thesis by (auto simp: stays_def act_simps)
  next
    assume "went (\<lambda>a c' t2. speaks Q (\<lambda>N. k N a) c' (t2 @ Takes bs # u)) w t (m ?N ?dl c w)"
    then obtain a c1 t1 t2 where m: "m ?N ?dl c w = (Ready a, c1, moved t1 w)" "t = t1 @ t2"
      "speaks Q (\<lambda>N. k N a) c1 (t2 @ Takes bs # u)"
      by (rule wentE)
    from speaks_waits [OF m(3) tr(2), of "moved t1 w" j] m(2)
    have "stays (moved t1 w) t2 (k ?N a ?dl c1 (moved t1 w)) \<or>
        went (\<lambda>a c' t2. Q a c' (t2 @ Takes bs # u)) (moved t1 w) t2 (k ?N a ?dl c1 (moved t1 w))"
      by simp
    with m(1,2) show ?thesis by (auto simp: act_simps dest: went_moved stays_moved)
  qed
qed

lemma speaks_await_try [talk_rules]:
  assumes "speaks (\<lambda>r c' u. case r of Inr a \<Rightarrow> speaks Q (\<lambda>N. k N a) c' u | Inl e \<Rightarrow> Q (Inl e) c' u) m c tr"
  shows "speaks Q (\<lambda>N. await_try (m N) (k N)) c tr"
  unfolding await_try_def
  by (rule speaks_await, rule speaks_mono [OF assms]) (auto split: sum.splits intro: speaks_ret)

lemma speaks_map_err [talk_rules]:
  assumes "speaks (\<lambda>r c' u. case r of Inr a \<Rightarrow> Q (Inr a) c' u | Inl e \<Rightarrow> Q (Inl (f e)) c' u) m c tr"
  shows "speaks Q (\<lambda>N. map_err f (m N)) c tr"
  unfolding map_err_def
  by (rule speaks_await, rule speaks_mono [OF assms]) (auto split: sum.splits intro: speaks_ret)

text \<open>
  A wrapper that changes the state, the result and the deadline of the action inside it, but when
  the deadline is now.
\<close>

lemma speaks_wrap:
  assumes "speaks (\<lambda>a c' u. Q (h a) (g c') u) m d tr"
    and "\<And>k peer closed dl w a c' w'. m (pipe_net k peer closed) (in_dl dl w) d w = (Ready a, c', w') \<Longrightarrow>
      m' (pipe_net k peer closed) dl c w = (Ready (h a), g c', w')"
    and "\<And>k peer closed w c' w'. m (pipe_net k peer closed) (Some (pw_now w)) d w = (Pending, c', w') \<Longrightarrow>
      m' (pipe_net k peer closed) (Some (pw_now w)) c w = (Pending, g c', w')"
    and "\<And>w. in_dl (Some (pw_now w)) w = Some (pw_now w)"
  shows "speaks Q m' c tr"
proof (rule speaksI)
  fix k peer closed dl and w :: pipe assume "agrees peer (pw_sent w) (pw_got w) tr"
  from speaks_goes [OF assms(1) this] obtain a c' t u where
    "m (pipe_net k peer closed) (in_dl dl w) d w = (Ready a, c', moved t w)" "tr = t @ u" "Q (h a) (g c') u"
    by (rule wentE)
  from wentI [of _ "h a" "g c'" t w tr u Q, OF assms(2) [OF this(1)] this(2,3)]
  show "went Q w tr (m' (pipe_net k peer closed) dl c w)" .
next
  fix k t bs u and w :: pipe assume tr: "tr = t @ Takes bs # u" "bs \<noteq> []"
  let ?N = "so_far k (pw_got w @ taken t)" and ?dl = "Some (pw_now w)"
  from speaks_waits [OF assms(1) [unfolded tr(1)] tr(2), of w k]
  show "stays w t (m' ?N ?dl c w) \<or> went (\<lambda>a c' t2. Q a c' (t2 @ Takes bs # u)) w t (m' ?N ?dl c w)"
  proof (rule disj_forward)
    assume "stays w t (m ?N ?dl d w)"
    then show "stays w t (m' ?N ?dl c w)" unfolding stays_def by (blast dest: assms(3))
  next
    assume "went (\<lambda>a c' t2. Q (h a) (g c') (t2 @ Takes bs # u)) w t (m ?N ?dl d w)"
    then obtain a c' t1 t2 where "m ?N (in_dl ?dl w) d w = (Ready a, c', moved t1 w)" "t = t1 @ t2"
      "Q (h a) (g c') (t2 @ Takes bs # u)"
      unfolding assms(4) by (rule wentE)
    then show "went (\<lambda>a c' t2. Q a c' (t2 @ Takes bs # u)) w t (m' ?N ?dl c w)"
      by (blast intro: wentI dest: assms(2))
  qed
qed

lemma speaks_with_self [talk_rules]: "speaks Q (\<lambda>N. k N c) c tr \<Longrightarrow> speaks Q (\<lambda>N. with_self (k N)) c tr"
  by (rule speaks_wrap [where g = id and h = id and in_dl = "\<lambda>dl w. dl" and m = "\<lambda>N. k N c" and d = c])
     (simp_all add: act_simps)

lemma speaks_set_self [talk_rules]: "speaks Q m (f c) tr \<Longrightarrow> speaks Q (\<lambda>N. set_self f (m N)) c tr"
  by (rule speaks_wrap [where g = id and h = id and in_dl = "\<lambda>dl w. dl" and m = m and d = "f c"])
     (simp_all add: act_simps)

lemma speaks_borrow [talk_rules]:
  "speaks (\<lambda>a b u. Q a (put b c) u) m (get c) tr \<Longrightarrow> speaks Q (\<lambda>N. borrow get put (m N)) c tr"
  by (rule speaks_wrap [where g = "\<lambda>b. put b c" and h = id and in_dl = "\<lambda>dl w. dl" and m = m and d = "get c"])
     (simp_all add: act_simps)

lemma speaks_with_local [talk_rules]:
  "speaks (\<lambda>a b u. Q a c u) m b tr \<Longrightarrow> speaks Q (\<lambda>N. with_local b (\<lambda>_ w. w) (m N)) c tr"
  by (rule speaks_wrap [where g = "\<lambda>b. c" and h = id and in_dl = "\<lambda>dl w. dl" and m = m and d = b])
     (simp_all add: with_local_def)

lemma speaks_with_local_closed [talk_rules]:
  "speaks (\<lambda>a b u. Q a c u) m b tr \<Longrightarrow> speaks Q (\<lambda>N. with_local b (\<lambda>s. net_close N (f s)) (m N)) c tr"
  by (rule speaks_wrap [where g = "\<lambda>b. c" and h = id and in_dl = "\<lambda>dl w. dl" and m = m and d = b])
     (simp_all add: with_local_def)

text \<open>An action does what another one does on an embedded state.\<close>

lemma speaks_lifts:
  assumes "\<And>N. lifts f (m N) (n N)" and "speaks (\<lambda>a d u. \<forall>c'. f c' = d \<longrightarrow> Q a c' u) n (f c) tr"
  shows "speaks Q m c tr"
proof (rule speaksI)
  note run = assms(1) [THEN liftsD]
  fix k peer closed dl and w :: pipe assume "agrees peer (pw_sent w) (pw_got w) tr"
  from speaks_goes [OF assms(2) this, of k closed dl] show "went Q w tr (m (pipe_net k peer closed) dl c w)"
    by (auto simp: run went_def split: prod.splits)
next
  note run = assms(1) [THEN liftsD]
  fix k t bs u and w :: pipe assume tr: "tr = t @ Takes bs # u" "bs \<noteq> []"
  from speaks_waits [OF assms(2) [unfolded tr(1)] tr(2), of w k]
  show "stays w t (m (so_far k (pw_got w @ taken t)) (Some (pw_now w)) c w) \<or>
      went (\<lambda>a c' t2. Q a c' (t2 @ Takes bs # u)) w t (m (so_far k (pw_got w @ taken t)) (Some (pw_now w)) c w)"
    by (fastforce simp: run went_def stays_def split: prod.splits)
qed

text \<open>A timeout never strikes in a dialogue that goes on, and leaves the waiting to what is around it.\<close>

lemma speaks_timed [talk_rules]:
  assumes "speaks (\<lambda>r c' u. case r of Inr a \<Rightarrow> Q (Inr a) c' u | Inl e \<Rightarrow> Q (Inl (conv e)) c' u) m c tr" and "0 < d"
  shows "speaks Q (\<lambda>N. timed N d (m N) conv el) c tr"
proof (rule speaks_wrap [where g = id and h = "map_sum conv id" and m = m and d = c and
      in_dl = "\<lambda>dl w. Some (earlier dl (pw_now w + d))"])
  show "speaks (\<lambda>a c' u. Q (map_sum conv id a) (id c') u) m c tr"
    by (rule speaks_mono [OF assms(1)]) (auto split: sum.splits)
qed (use assms(2) in \<open>auto simp: timed_unfold Let_def split: sum.splits\<close>)

subsection \<open>Reading and writing\<close>

lemma speaks_write [talk_rules]:
  "Q (Inr ()) c tr \<Longrightarrow> speaks Q (\<lambda>N. io (net_write_all N h bs)) c (Gives bs # tr)"
  by (rule speaksI)
     (auto simp: act_simps moved_def Cons_eq_append_conv intro!: wentI [where t = "[Gives bs]"])

lemma speaks_flush [talk_rules]: "Q (Inr ()) c tr \<Longrightarrow> speaks Q (\<lambda>N. io (net_flush N h)) c tr"
  by (rule speaksI) (auto simp: act_simps intro!: wentI [where t = "[]"])

lemma pipe_reads_chunk:
  assumes "prefix (pw_got w @ bs) (peer (pw_sent w))" "bs \<noteq> []" "n = length bs"
  shows "\<exists>b bs'. bs = b @ bs' \<and> b \<noteq> [] \<and>
    pipe_read k peer closed n dl w = (Ready (Inr b), w\<lparr>pw_got := pw_got w @ b\<rparr>)"
proof -
  obtain rest where "peer (pw_sent w) = pw_got w @ bs @ rest" using assms(1) by (auto simp: prefix_def)
  then have "pipe_read k peer closed n dl w =
      (Ready (Inr (take (min n (Suc k)) bs)), w\<lparr>pw_got := pw_got w @ take (min n (Suc k)) bs\<rparr>)"
    using assms(2,3) by (simp add: pipe_read_def Let_def)
  moreover have "take (min n (Suc k)) bs \<noteq> []" using assms(2,3) by simp
  ultimately show ?thesis
    by (intro exI [of _ "take (min n (Suc k)) bs"] exI [of _ "drop (min n (Suc k)) bs"]) simp
qed

lemma fill_from_pipe:
  assumes "prefix (pw_got w @ bs) (peer (pw_sent w))" "filled + length bs = vec_len buf"
  shows "fill_from (pipe_net k peer closed) h filled dl buf w =
    (Ready (Inr ()), Vec (take filled (vdata buf) @ bs) (vcap buf), w\<lparr>pw_got := pw_got w @ bs\<rparr>)"
  using assms
proof (induction "length bs" arbitrary: bs filled buf w rule: less_induct)
  case less
  show ?case
  proof (cases "bs = []")
    case True
    with less.prems show ?thesis by (cases buf) (simp add: fill_from.simps vec_simps)
  next
    case False
    from pipe_reads_chunk [where w = w and bs = bs and peer = peer and n = "vec_len buf - filled" and k = k
        and closed = closed and dl = dl, OF less.prems(1) False] less.prems(2)
    obtain b bs' where b: "bs = b @ bs'" "b \<noteq> []"
      "pipe_read k peer closed (vec_len buf - filled) dl w = (Ready (Inr b), w\<lparr>pw_got := pw_got w @ b\<rparr>)"
      by fastforce
    let ?w = "w\<lparr>pw_got := pw_got w @ b\<rparr>" and ?buf = "vec_write filled b buf"
    have "fill_from (pipe_net k peer closed) h (filled + length b) dl ?buf ?w =
        (Ready (Inr ()), Vec (take (filled + length b) (vdata ?buf) @ bs') (vcap ?buf), ?w\<lparr>pw_got := pw_got ?w @ bs'\<rparr>)"
      by (rule less.hyps) (use less.prems b in \<open>simp_all add: vec_simps\<close>)
    moreover have "filled < vec_len buf" using less.prems(2) False by (cases bs) auto
    ultimately show ?thesis
      using b less.prems(2) by (simp add: fill_from.simps [of _ h filled] vec_write_fill vec_simps)
  qed
qed

lemma fill_from_pipe_waits:
  assumes "filled < vec_len buf"
  shows "fill_from (so_far k (pw_got w)) h filled (Some (pw_now w)) buf w = (Pending, buf, w)"
  using assms by (simp add: fill_from.simps pipe_read_def)

lemma speaks_read_exact_or_closed [talk_rules]:
  assumes "vec_len buf = length bs" and "Q (Inr ()) (Vec bs (vcap buf)) tr"
  shows "speaks Q (\<lambda>N. read_exact_or_closed N h) buf (Takes bs # tr)"
proof (rule speaksI)
  fix k peer closed dl and w :: pipe assume "agrees peer (pw_sent w) (pw_got w) (Takes bs # tr)"
  then show "went Q w (Takes bs # tr) (read_exact_or_closed (pipe_net k peer closed) h dl buf w)"
    using fill_from_pipe [of w bs peer 0 buf k closed h dl] assms
    by (auto simp: read_exact_or_closed_def moved_def intro!: wentI [where t = "[Takes bs]"])
next
  fix k t bs' u and w :: pipe assume tr: "Takes bs # tr = t @ Takes bs' # u" "bs' \<noteq> []"
  show "stays w t (read_exact_or_closed (so_far k (pw_got w @ taken t)) h (Some (pw_now w)) buf w) \<or>
      went (\<lambda>a c' t2. Q a c' (t2 @ Takes bs' # u)) w t
        (read_exact_or_closed (so_far k (pw_got w @ taken t)) h (Some (pw_now w)) buf w)"
  proof (cases t)
    case Nil
    with tr assms(1) fill_from_pipe_waits [of 0 buf k w h] show ?thesis
      by (simp add: read_exact_or_closed_def stays_def)
  next
    case (Cons x t')
    with tr have "t = Takes bs # t'" "tr = t' @ Takes bs' # u" by auto
    with fill_from_pipe [of w bs "\<lambda>_. pw_got w @ taken t" 0 buf k "\<lambda>_. False" h "Some (pw_now w)"] assms
    show ?thesis
      by (intro disjI2) (auto simp: read_exact_or_closed_def moved_def intro!: wentI [where t = "[Takes bs]"])
  qed
qed

lemma speaks_read_exact [talk_rules]:
  assumes "vec_len buf = length bs" and "Q (Inr ()) (Vec bs (vcap buf)) tr"
  shows "speaks Q (\<lambda>N. read_exact N h) buf (Takes bs # tr)"
proof (rule speaks_wrap [where g = id and h = "map_sum plain_read_error id" and in_dl = "\<lambda>dl w. dl" and
      m = "\<lambda>N. read_exact_or_closed N h" and d = buf])
  show "speaks (\<lambda>a c' u. Q (map_sum plain_read_error id a) (id c') u) (\<lambda>N. read_exact_or_closed N h) buf (Takes bs # tr)"
    by (rule speaks_read_exact_or_closed) (use assms in simp_all)
qed (auto simp: read_exact_def read_exact_or_closed_def read_exact_from_fill_from split: sum.splits)

subsection \<open>Two parties together\<close>

text \<open>
  What a party has written once it has been sent \<open>S\<close>, and whether it is done, no time having passed;
  that is the peer of the other one.
\<close>

definition alone :: "nat \<Rightarrow> (unit, 'a) party \<Rightarrow> byte list \<Rightarrow> 'a poll \<times> unit \<times> pipe" where
  "alone k m S = m (so_far k S) (Some 0) () pipe_start"

definition wrote :: "nat \<Rightarrow> (unit, 'a) party \<Rightarrow> byte list \<Rightarrow> byte list" where
  "wrote k m S = pw_sent (snd (snd (alone k m S)))"

definition left :: "nat \<Rightarrow> (unit, 'a) party \<Rightarrow> byte list \<Rightarrow> bool" where
  "left k m S \<longleftrightarrow> fst (alone k m S) \<noteq> Pending"

text \<open>The result of the first party against the second.\<close>

definition meets :: "nat \<Rightarrow> (unit, 'a) party \<Rightarrow> (unit, 'b) party \<Rightarrow> 'a poll" where
  "meets k m n = fst (m (pipe_net k (wrote k n) (left k n)) None () pipe_start)"

lemma agrees_fixed: "prefix (G @ taken t) S \<Longrightarrow> agrees (\<lambda>_. S) S' G t"
  by (induction "\<lambda>_ :: byte list. S" S' G t rule: agrees.induct) (auto simp: prefix_def)

text \<open>
  The other party's turns are answered when it has written, once it has been sent what it takes
  before a turn of its own, at least all up to and including that turn.
\<close>

definition answers :: "nat \<Rightarrow> (unit, 'a) party \<Rightarrow> turn list \<Rightarrow> bool" where
  "answers k n tr \<longleftrightarrow> (\<forall>t bs u. tr = t @ Gives bs # u \<longrightarrow> prefix (given t @ bs) (wrote k n (taken t)))"

lemma next_taken:
  "taken tr = [] \<or> (\<exists>t bs u. tr = t @ Takes bs # u \<and> bs \<noteq> [] \<and> taken t = [])"
proof (induction tr)
  case (Cons x tr)
  show ?case
  proof (cases "\<exists>bs. x = Takes bs \<and> bs \<noteq> []")
    case True
    then obtain bs where "x # tr = [] @ Takes bs # tr" "bs \<noteq> []" "taken [] = []" by auto
    then show ?thesis by blast
  next
    case False
    then have x: "taken (x # t) = taken t" for t by (cases x) auto
    from Cons.IH show ?thesis
    proof
      assume "\<exists>t bs u. tr = t @ Takes bs # u \<and> bs \<noteq> [] \<and> taken t = []"
      then obtain t bs u where "x # tr = (x # t) @ Takes bs # u" "bs \<noteq> []" "taken (x # t) = []" using x by auto
      then show ?thesis by blast
    qed (simp add: x)
  qed
qed simp

lemma speaks_answers:
  assumes "speaks (\<lambda>a c' u. u = []) n () tr"
  shows "answers k n tr"
  unfolding answers_def
proof (intro allI impI)
  fix t bs u assume tr: "tr = t @ Gives bs # u"
  let ?S = "taken t"
  show "prefix (given t @ bs) (wrote k n ?S)"
    using next_taken [of "Gives bs # u"]
  proof
    assume none: "taken (Gives bs # u) = []"
    have "agrees (\<lambda>_. ?S) (pw_sent pipe_start) (pw_got pipe_start) tr"
      by (rule agrees_fixed) (use none tr in simp)
    from speaks_goes [OF assms this, of k "\<lambda>_. False" "Some 0"] show ?thesis
      using tr by (auto simp: wrote_def alone_def elim!: wentE)
  next
    assume "\<exists>v bs' u'. Gives bs # u = v @ Takes bs' # u' \<and> bs' \<noteq> [] \<and> taken v = []"
    then obtain v bs' u' where v: "Gives bs # u = v @ Takes bs' # u'" "bs' \<noteq> []" "taken v = []" by blast
    then obtain v' where v': "v = Gives bs # v'" by (cases v) auto
    have "tr = (t @ v) @ Takes bs' # u'" using tr v(1) by simp
    from speaks_waits [OF assms [unfolded this] v(2), of pipe_start k] v(3) v' show ?thesis
      by (auto simp: wrote_def alone_def stays_def elim!: wentE)
  qed
qed

lemma answers_agrees:
  assumes "answers k n (map other_side tr)"
  shows "agrees (wrote k n) [] [] tr"
proof -
  have "agrees (wrote k n) (given t) (taken t) u" if "tr = t @ u" for t u
    using that
  proof (induction u arbitrary: t)
    case (Cons x u)
    from Cons.IH [of "t @ [x]"] Cons.prems have step: "agrees (wrote k n) (given (t @ [x])) (taken (t @ [x])) u" by simp
    show ?case
    proof (cases x)
      case (Takes bs)
      from assms Cons.prems Takes have "prefix (given (map other_side t) @ bs) (wrote k n (taken (map other_side t)))"
        unfolding answers_def by fastforce
      with step Takes show ?thesis by simp
    qed (use step in simp)
  qed simp
  from this [of "[]" tr] show ?thesis by simp
qed

theorem meets_speaks:
  assumes "speaks (\<lambda>a c' u. P a) m () tr" and "answers k n (map other_side tr)"
  shows "\<exists>a. meets k m n = Ready a \<and> P a"
proof -
  have "agrees (wrote k n) (pw_sent pipe_start) (pw_got pipe_start) tr"
    using answers_agrees [OF assms(2)] by simp
  from speaks_goes [OF assms(1) this, of k "left k n" None] show ?thesis
    unfolding meets_def by (auto elim!: wentE)
qed

text \<open>Both parties of a dialogue complete.\<close>

corollary meets_both:
  assumes "speaks (\<lambda>a c' u. P a \<and> u = []) m () tr" and "speaks (\<lambda>a c' u. R a \<and> u = []) n () (map other_side tr)"
  shows "\<exists>a b. meets k m n = Ready a \<and> P a \<and> meets k n m = Ready b \<and> R b"
proof -
  have "answers k m tr" "answers k n (map other_side tr)"
    by (rule speaks_answers, rule speaks_mono [OF assms(1)], simp)
       (rule speaks_answers, rule speaks_mono [OF assms(2)], simp)
  moreover have "map other_side (map other_side tr) = tr" by (simp add: comp_def)
  moreover have "speaks (\<lambda>a c' u. P a) m () tr" "speaks (\<lambda>a c' u. R a) n () (map other_side tr)"
    by (rule speaks_mono [OF assms(1)], simp) (rule speaks_mono [OF assms(2)], simp)
  ultimately show ?thesis
    using meets_speaks [of P m tr k n] meets_speaks [of R n "map other_side tr" k m] by metis
qed

subsection \<open>Parties that go on for ever\<close>

text \<open>The loop of a server is never done; it follows the turns and then waits for the next request.\<close>

definition talks :: "('c, 'a) party \<Rightarrow> 'c \<Rightarrow> turn list \<Rightarrow> bool" where
  "talks m c tr \<longleftrightarrow> (\<forall>k t u w. tr = t @ u \<longrightarrow> (\<forall>x u'. u = x # u' \<longrightarrow> (\<exists>bs. x = Takes bs \<and> bs \<noteq> [])) \<longrightarrow>
     stays w t (m (so_far k (pw_got w @ taken t)) (Some (pw_now w)) c w))"

lemma talksI:
  assumes "\<And>k w. stays w tr (m (so_far k (pw_got w @ taken tr)) (Some (pw_now w)) c w)"
    and "\<And>k t bs u w. tr = t @ Takes bs # u \<Longrightarrow> bs \<noteq> [] \<Longrightarrow>
      stays w t (m (so_far k (pw_got w @ taken t)) (Some (pw_now w)) c w)"
  shows "talks m c tr"
  unfolding talks_def
proof (intro allI impI)
  fix k t u and w :: pipe
  assume tr: "tr = t @ u" and u: "\<forall>x u'. u = x # u' \<longrightarrow> (\<exists>bs. x = Takes bs \<and> bs \<noteq> [])"
  show "stays w t (m (so_far k (pw_got w @ taken t)) (Some (pw_now w)) c w)"
  proof (cases u)
    case Nil
    with tr assms(1) show ?thesis by simp
  next
    case (Cons x u')
    with tr u assms(2) show ?thesis by blast
  qed
qed

lemma talks_waits:
  "talks m c (t @ Takes bs # u) \<Longrightarrow> bs \<noteq> [] \<Longrightarrow> stays w t (m (so_far k (pw_got w @ taken t)) (Some (pw_now w)) c w)"
  unfolding talks_def by auto

lemma talks_end: "talks m c tr \<Longrightarrow> stays w tr (m (so_far k (pw_got w @ taken tr)) (Some (pw_now w)) c w)"
  unfolding talks_def by auto

lemma talks_answers:
  assumes "talks n () tr"
  shows "answers k n tr"
  unfolding answers_def
proof (intro allI impI)
  fix t bs u assume tr: "tr = t @ Gives bs # u"
  show "prefix (given t @ bs) (wrote k n (taken t))"
    using next_taken [of "Gives bs # u"]
  proof
    assume "taken (Gives bs # u) = []"
    with talks_end [OF assms, of pipe_start k] tr show ?thesis by (auto simp: wrote_def alone_def stays_def)
  next
    assume "\<exists>v bs' u'. Gives bs # u = v @ Takes bs' # u' \<and> bs' \<noteq> [] \<and> taken v = []"
    then obtain v bs' u' where v: "Gives bs # u = v @ Takes bs' # u'" "bs' \<noteq> []" "taken v = []" by blast
    then obtain v' where v': "v = Gives bs # v'" by (cases v) auto
    have "tr = (t @ v) @ Takes bs' # u'" using tr v(1) by simp
    from talks_waits [OF assms [unfolded this] v(2), of pipe_start k] v(3) v' show ?thesis
      by (auto simp: wrote_def alone_def stays_def)
  qed
qed

lemma talks_await:
  assumes "speaks (\<lambda>a c' u. talks (\<lambda>N. k N a) c' u) m c tr"
  shows "talks (\<lambda>N. await (m N) (k N)) c tr"
proof (rule talksI)
  fix j and w :: pipe
  let ?N = "so_far j (pw_got w @ taken tr)" and ?dl = "Some (pw_now w)"
  have "agrees (\<lambda>_. pw_got w @ taken tr) (pw_sent w) (pw_got w) tr" by (rule agrees_fixed) simp
  from speaks_goes [OF assms this] obtain a c1 t u where m: "m ?N ?dl c w = (Ready a, c1, moved t w)" "tr = t @ u"
    "talks (\<lambda>N. k N a) c1 u"
    by (rule wentE)
  from talks_end [OF m(3), of "moved t w" j] m(1,2) show "stays w tr (await (m ?N) (k ?N) ?dl c w)"
    by (simp add: act_simps stays_moved)
next
  fix j t bs u and w :: pipe assume tr: "tr = t @ Takes bs # u" "bs \<noteq> []"
  let ?N = "so_far j (pw_got w @ taken t)" and ?dl = "Some (pw_now w)"
  from speaks_waits [OF assms [unfolded tr(1)] tr(2), of w j]
  show "stays w t (await (m ?N) (k ?N) ?dl c w)"
  proof
    assume "stays w t (m ?N ?dl c w)"
    then show ?thesis by (auto simp: stays_def act_simps)
  next
    assume "went (\<lambda>a c' t2. talks (\<lambda>N. k N a) c' (t2 @ Takes bs # u)) w t (m ?N ?dl c w)"
    then obtain a c1 t1 t2 where m: "m ?N ?dl c w = (Ready a, c1, moved t1 w)" "t = t1 @ t2"
      "talks (\<lambda>N. k N a) c1 (t2 @ Takes bs # u)"
      by (rule wentE)
    from talks_waits [OF m(3) tr(2), of "moved t1 w" j] m(1,2) show ?thesis
      by (simp add: act_simps stays_moved)
  qed
qed

lemma talks_await_try:
  assumes "speaks (\<lambda>r c' u. case r of Inr a \<Rightarrow> talks (\<lambda>N. k N a) c' u | Inl e \<Rightarrow> False) m c tr"
  shows "talks (\<lambda>N. await_try (m N) (k N)) c tr"
  unfolding await_try_def
  by (rule talks_await, rule speaks_mono [OF assms]) (auto split: sum.splits)

text \<open>What waits goes on waiting, whatever is to come after it or is wrapped around it.\<close>

lemma talks_waiting: "talks m c tr \<Longrightarrow> talks (\<lambda>N. await_try (m N) (k N)) c tr"
proof (rule talksI)
  have stay: "stays w t (await_try m' k' dl c w)" if "stays w t (m' dl c w)" for m' k' dl t and w :: pipe
    using that by (auto simp: stays_def act_simps)
  assume m: "talks m c tr"
  show "stays w tr (await_try (m (so_far j (pw_got w @ taken tr))) (k (so_far j (pw_got w @ taken tr))) (Some (pw_now w)) c w)"
    for j and w :: pipe by (rule stay, rule talks_end [OF m])
  show "stays w t (await_try (m (so_far j (pw_got w @ taken t))) (k (so_far j (pw_got w @ taken t))) (Some (pw_now w)) c w)"
    if "tr = t @ Takes bs # u" "bs \<noteq> []" for j t bs u and w :: pipe
    by (rule stay, rule talks_waits [OF m [unfolded that(1)] that(2)])
qed

lemma talks_wrapped:
  assumes "talks m b tr" and "\<And>k peer closed dl w b' w'. m (pipe_net k peer closed) dl b w = (Pending, b', w') \<Longrightarrow>
      \<exists>c'. n (pipe_net k peer closed) dl c w = (Pending, c', w')"
  shows "talks n c tr"
proof (rule talksI)
  show "stays w tr (n (so_far k (pw_got w @ taken tr)) (Some (pw_now w)) c w)" for k and w :: pipe
    using talks_end [OF assms(1), of w k] assms(2) unfolding stays_def by blast
  show "stays w t (n (so_far k (pw_got w @ taken t)) (Some (pw_now w)) c w)"
    if "tr = t @ Takes bs # u" "bs \<noteq> []" for k t bs u and w :: pipe
    using talks_waits [OF assms(1) [unfolded that(1)] that(2), of w k] assms(2) unfolding stays_def by blast
qed

lemma talks_lifts:
  assumes "\<And>N. lifts f (m N) (n N)" and "talks n (f c) tr"
  shows "talks m c tr"
  by (rule talks_wrapped [OF assms(2)])
     (rule ccontr, use assms(1) [THEN liftsD, of _ _ c] in \<open>auto split: prod.splits\<close>)

end
