(* ===== verification/Server.thy ===== *)
theory Server
  imports Connection_Handler
begin

section \<open>The server (server.rs)\<close>

text \<open>
  \<open>Server\<close>: its settings, the accept loop that hands every connection to a task of its own, and the
  drain that waits for the tasks after a shutdown. Listening, the connection semaphore, tasks and
  the TLS acceptor are the runtime's, a record of operations; the handles of the spawned tasks are
  the state the loop keeps. Spawning takes the permit of the connection along; a permit that was
  acquired and not handed to a task is released at the end of the iteration.
\<close>

definition ACCEPT_ERROR_BACKOFF :: duration where "ACCEPT_ERROR_BACKOFF = from_millis 100"
definition DEFAULT_DRAIN_TIMEOUT :: duration where "DEFAULT_DRAIN_TIMEOUT = from_secs 5"

record ('l, 'acc) server =
  sv_address :: string
  sv_listener :: "'l option"
  sv_is_tls :: bool
  sv_tls_acceptor :: "'acc option"
  sv_max_buffer_size :: usize
  sv_factory :: bool
  sv_drain_timeout :: duration
  sv_max_connections :: nat

record ('h, 'l, 'acc, 'w) runtime = "('h, 'w) net" +
  rt_bind :: "string \<Rightarrow> ('w, io_error + 'l) fut"
  rt_accept :: "'l \<Rightarrow> ('w, io_error + 'h) fut"
  rt_sem_new :: "nat \<Rightarrow> 'w \<Rightarrow> 'w"
  rt_sem_acquire :: "('w, bool) fut"
  rt_sem_release :: "'w \<Rightarrow> 'w"
  rt_spawn :: "('h, 'acc) connection_handler \<Rightarrow> 'w \<Rightarrow> nat \<times> 'w"
  rt_finished :: "nat \<Rightarrow> 'w \<Rightarrow> bool"
  rt_join :: "nat \<Rightarrow> ('w, unit) fut"
  rt_abort :: "nat \<Rightarrow> 'w \<Rightarrow> 'w"
  rt_shutdown_rx :: "'w watch"
  rt_shutdown_send :: "bool \<Rightarrow> 'w \<Rightarrow> 'w"
  rt_build_acceptor :: "byte list \<Rightarrow> string \<Rightarrow> tls_error + 'acc"

definition sv_new :: "string \<Rightarrow> usize \<Rightarrow> ('l, 'acc) server" where
  "sv_new address max_buffer_size =
     \<lparr>sv_address = address, sv_listener = None, sv_is_tls = False, sv_tls_acceptor = None,
      sv_max_buffer_size = max_buffer_size, sv_factory = False,
      sv_drain_timeout = DEFAULT_DRAIN_TIMEOUT, sv_max_connections = 1024\<rparr>"

definition sv_set_secure ::
  "('h, 'l, 'acc, 'w) runtime \<Rightarrow> byte list \<Rightarrow> string \<Rightarrow> ('l, 'acc) server \<Rightarrow>
     (tls_error + unit) \<times> ('l, 'acc) server" where
  "sv_set_secure R identity password s =
     (case rt_build_acceptor R identity password of
        Inl e \<Rightarrow> (Inl e, s)
      | Inr acceptor \<Rightarrow> (Inr (), s\<lparr>sv_is_tls := True, sv_tls_acceptor := Some acceptor\<rparr>))"

definition sv_set_factory :: "('l, 'acc) server \<Rightarrow> ('l, 'acc) server" where
  "sv_set_factory s = s\<lparr>sv_factory := True\<rparr>"

definition sv_set_max_connections :: "nat \<Rightarrow> ('l, 'acc) server \<Rightarrow> ('l, 'acc) server" where
  "sv_set_max_connections n s = s\<lparr>sv_max_connections := n\<rparr>"

definition sv_set_drain_timeout :: "duration \<Rightarrow> ('l, 'acc) server \<Rightarrow> ('l, 'acc) server" where
  "sv_set_drain_timeout d s = s\<lparr>sv_drain_timeout := d\<rparr>"

definition sv_shutdown :: "('h, 'l, 'acc, 'w) runtime \<Rightarrow> 'w \<Rightarrow> 'w" where
  "sv_shutdown R w = rt_shutdown_send R True w"

text \<open>The handle is a clone of the sender: what is left of it is how to send through it.\<close>

definition sv_shutdown_handle :: "('h, 'l, 'acc, 'w) runtime \<Rightarrow> bool \<Rightarrow> 'w \<Rightarrow> 'w" where
  "sv_shutdown_handle R = rt_shutdown_send R"

subsection \<open>The accept loop\<close>

definition world :: "('w \<Rightarrow> 'w) \<Rightarrow> ('c, 'w, 'a) act \<Rightarrow> ('c, 'w, 'a) act" where
  "world f k = (\<lambda>dl c w. k dl c (f w))"

text \<open>The handler of a new connection, with the acceptor when TLS is on.\<close>

definition new_handler :: "('l, 'acc) server \<Rightarrow> 'h \<Rightarrow> ('h, 'acc) connection_handler" where
  "new_handler s stream =
     (let client = ch_new stream (sv_max_buffer_size s) in
      case sv_tls_acceptor s of
        Some tls_acceptor \<Rightarrow> if sv_is_tls s then ch_set_tls_acceptor tls_acceptor client else client
      | None \<Rightarrow> client)"

definition retain_running ::
  "('h, 'l, 'acc, 'w) runtime \<Rightarrow> (nat list, 'w, 'a) act \<Rightarrow> (nat list, 'w, 'a) act" where
  "retain_running R k = (\<lambda>dl handles w. k dl (filter (\<lambda>h. \<not> rt_finished R h w) handles) w)"

definition spawn_connection ::
  "('h, 'l, 'acc, 'w) runtime \<Rightarrow> ('l, 'acc) server \<Rightarrow> 'h \<Rightarrow> (nat list, 'w, 'a) act \<Rightarrow> (nat list, 'w, 'a) act"
where
  "spawn_connection R s stream k = (\<lambda>dl handles w.
     case rt_spawn R (new_handler s stream) w of (h, w') \<Rightarrow> k dl (handles @ [h]) w')"

primrec accept_loop ::
  "('h, 'l, 'acc, 'w) runtime \<Rightarrow> ('l, 'acc) server \<Rightarrow> 'l \<Rightarrow> nat \<Rightarrow> (nat list, 'w, unit option) act" where
  "accept_loop R s listener 0 = ret None"
| "accept_loop R s listener (Suc fuel) = retain_running R (
     await (if sv_max_connections s \<noteq> 0 then io (rt_sem_acquire R) else ret False) (\<lambda>permit.
       if \<not> permit then ret (Some ())
       else
         await (select_changed (rt_shutdown_rx R) (io (rt_accept R listener))) (\<lambda>accept_result.
           case accept_result of
             Inl signal \<Rightarrow> world (rt_sem_release R)
               (if signal then ret (Some ()) else accept_loop R s listener fuel)
           | Inr (Inr stream) \<Rightarrow> spawn_connection R s stream (accept_loop R s listener fuel)
           | Inr (Inl e) \<Rightarrow>
               await (select_changed (rt_shutdown_rx R) (io (net_sleep R ACCEPT_ERROR_BACKOFF))) (\<lambda>r.
                 world (rt_sem_release R)
                   (case r of
                      Inr _ \<Rightarrow> accept_loop R s listener fuel
                    | Inl signal \<Rightarrow> if signal then ret (Some ()) else accept_loop R s listener fuel)))))"

subsection \<open>Draining\<close>

definition abort_all :: "('h, 'l, 'acc, 'w) runtime \<Rightarrow> nat list \<Rightarrow> ('c, 'w, unit) act" where
  "abort_all R handles = world (fold (rt_abort R) handles) (ret ())"

primrec drain_loop ::
  "('h, 'l, 'acc, 'w) runtime \<Rightarrow> duration \<Rightarrow> nat \<Rightarrow> nat list \<Rightarrow> ('c, 'w, unit) act" where
  "drain_loop R drain_timeout drain_start [] = ret ()"
| "drain_loop R drain_timeout drain_start (h # hs) = (\<lambda>dl c w.
     let elapsed = net_now R w - drain_start in
     if elapsed \<ge> drain_timeout then abort_all R (h # hs) dl c w
     else
       (let remaining = drain_timeout - elapsed in
        await (timeout R remaining (io (rt_join R h))) (\<lambda>r.
          case r of
            Inr _ \<Rightarrow> drain_loop R drain_timeout drain_start hs
          | Inl _ \<Rightarrow> abort_all R (h # hs)) dl c w))"

definition drain ::
  "('h, 'l, 'acc, 'w) runtime \<Rightarrow> duration \<Rightarrow> nat list \<Rightarrow> ('c, 'w, unit) act" where
  "drain R drain_timeout handles = (\<lambda>dl c w. drain_loop R drain_timeout (net_now R w) handles dl c w)"

text \<open>Serving on a bound listener, over the handles of the connection tasks.\<close>

definition sv_serve ::
  "('h, 'l, 'acc, 'w) runtime \<Rightarrow> nat \<Rightarrow> ('l, 'acc) server \<Rightarrow> 'l \<Rightarrow> (nat list, 'w, box_error + unit option) act" where
  "sv_serve R fuel s listener =
     await (accept_loop R s listener fuel) (\<lambda>ended. with_self (\<lambda>handles.
       case ended of
         None \<Rightarrow> ret (Inr None)
       | Some _ \<Rightarrow> await (drain R (sv_drain_timeout s) handles) (\<lambda>_. ret (Inr (Some ())))))"

definition sv_run ::
  "('h, 'l, 'acc, 'w) runtime \<Rightarrow> nat \<Rightarrow> (('l, 'acc) server, 'w, box_error + unit option) act" where
  "sv_run R fuel = with_self (\<lambda>s.
     if \<not> sv_factory s then ret (Inl (BoxStr (lit ''Protocol Command Handler is not set.'')))
     else
       await_try (map_err BoxIo (io (rt_bind R (sv_address s)))) (\<lambda>listener.
         set_self (\<lambda>s. s\<lparr>sv_listener := Some listener\<rparr>) (
         (if sv_max_connections s \<noteq> 0 then world (rt_sem_new R (sv_max_connections s)) else id) (
         with_local [] (\<lambda>_ w. w) (sv_serve R fuel (s\<lparr>sv_listener := Some listener\<rparr>) listener)))))"

subsection \<open>Facts about draining and the accept loop\<close>

lemma drain_zero: "drain R 0 handles dl c w = (Ready (), c, fold (rt_abort R) handles w)"
  by (cases handles) (simp_all add: drain_def abort_all_def world_def act_simps)

text \<open>
  Within the clock's laws the drain is over by its timeout. A join or an abort does not move the
  clock beyond the deadline it runs under.
\<close>

lemma drain_loop_bound:
  assumes "\<And>h. fut_timely (net_now R) (rt_join R h)"
    and "\<And>h. fut_moves (\<lambda>w w'. net_now R w \<le> net_now R w') (rt_join R h)"
    and "\<And>h w. net_now R (rt_abort R h w) = net_now R w"
    and "start \<le> net_now R w" "net_now R w \<le> start + tmo"
    and "drain_loop R tmo start handles None c w = (r, c', w')"
  shows "r = Ready () \<and> net_now R w' \<le> start + tmo"
  using assms(4-6)
proof (induction handles arbitrary: w)
  case Nil
  then show ?case by (auto simp: act_simps)
next
  case (Cons h hs)
  have abort: "net_now R (fold (rt_abort R) hs w) = net_now R w" for hs w
    by (induction hs arbitrary: w) (simp_all add: assms(3))
  show ?case
  proof (cases "net_now R w - start \<ge> tmo")
    case True
    with Cons.prems show ?thesis by (auto simp: abort_all_def world_def act_simps abort assms(3))
  next
    case False
    let ?t = "net_now R w + (tmo - (net_now R w - start))"
    obtain r1 w1 where j: "rt_join R h (Some ?t) w = (r1, w1)" by (cases "rt_join R h (Some ?t) w")
    from assms(1) j have "net_now R w1 \<le> max ?t (net_now R w)" unfolding fut_timely_def by blast
    moreover from assms(2) j have "net_now R w \<le> net_now R w1" unfolding fut_moves_def by blast
    ultimately have w1: "start \<le> net_now R w1" "net_now R w1 \<le> start + tmo"
      using False Cons.prems(1,2) by auto
    from False Cons.prems(3) j Cons.IH [OF w1] w1(2) show ?thesis
      by (auto simp: abort_all_def world_def act_simps timeout_def Let_def abort assms(3) split: poll.splits)
  qed
qed

text \<open>With no limit on connections configured, the loop is over before it accepts anything.\<close>

lemma accept_loop_unlimited:
  assumes "sv_max_connections s = 0"
  shows "accept_loop R s listener (Suc fuel) dl handles w =
    (Ready (Some ()), filter (\<lambda>h. \<not> rt_finished R h w) handles, w)"
  using assms by (simp add: retain_running_def act_simps)

subsection \<open>Connection slots\<close>

text \<open>
  What the code relies on of the runtime's semaphore and tasks, over two ghost counts, the free
  permits and the connection tasks not yet over: acquiring takes one permit when it succeeds,
  spawning starts a task that keeps the permit handed to it, and whatever waits lets tasks end, each
  giving its permit back. So free permits and tasks together only change where the server acts.
\<close>

definition slots_kept ::
  "('h, 'l, 'acc, 'w) runtime \<Rightarrow> ('w \<Rightarrow> nat) \<Rightarrow> ('w \<Rightarrow> nat) \<Rightarrow> bool" where
  "slots_kept R free live \<longleftrightarrow>
     (\<forall>n w. free (rt_sem_new R n w) = n \<and> live (rt_sem_new R n w) = live w) \<and>
     (\<forall>dl w r w'. rt_sem_acquire R dl w = (r, w') \<longrightarrow>
        free w' + live w' + (if r = Ready True then 1 else 0) = free w + live w) \<and>
     (\<forall>w. free (rt_sem_release R w) = Suc (free w) \<and> live (rt_sem_release R w) = live w) \<and>
     (\<forall>c w h w'. rt_spawn R c w = (h, w') \<longrightarrow> free w' = free w \<and> live w' = Suc (live w)) \<and>
     (\<forall>l dl w r w'. rt_accept R l dl w = (r, w') \<longrightarrow> free w' + live w' = free w + live w) \<and>
     (\<forall>d dl w r w'. net_sleep R d dl w = (r, w') \<longrightarrow> free w' + live w' = free w + live w) \<and>
     (\<forall>w v w'. wt_observe (rt_shutdown_rx R) w = (v, w') \<longrightarrow> free w' + live w' = free w + live w) \<and>
     (\<forall>h dl w r w'. rt_join R h dl w = (r, w') \<longrightarrow> free w' + live w' = free w + live w) \<and>
     (\<forall>h w. free (rt_abort R h w) + live (rt_abort R h w) = free w + live w) \<and>
     (\<forall>a dl w r w'. rt_bind R a dl w = (r, w') \<longrightarrow> live w' = live w)"

lemma slots_keptD:
  assumes "slots_kept R free live"
  shows "free (rt_sem_new R n w) = n" "live (rt_sem_new R n w) = live w"
    and "rt_sem_acquire R dl w = (ra, w') \<Longrightarrow>
      free w' + live w' + (if ra = Ready True then 1 else 0) = free w + live w"
    and "free (rt_sem_release R w) = Suc (free w)" "live (rt_sem_release R w) = live w"
    and "rt_spawn R c w = (h, w') \<Longrightarrow> free w' + live w' = Suc (free w + live w)"
    and "rt_accept R l dl w = (rb, w') \<Longrightarrow> free w' + live w' = free w + live w"
    and "net_sleep R d dl w = (rc, w') \<Longrightarrow> free w' + live w' = free w + live w"
    and "wt_observe (rt_shutdown_rx R) w = (v, w') \<Longrightarrow> free w' + live w' = free w + live w"
    and "rt_join R h dl w = (rj, w') \<Longrightarrow> free w' + live w' = free w + live w"
    and "free (rt_abort R h w) + live (rt_abort R h w) = free w + live w"
    and "rt_bind R a dl w = (rd, w') \<Longrightarrow> live w' = live w"
  using assms unfolding slots_kept_def by (elim conjE; metis add_Suc_right)+

text \<open>
  \<open>within k m\<close>: with \<open>k\<close> permits in the hand of the caller the action \<open>m\<close> never drives the permits and
  the tasks above the number of permits there are, wherever it stops.
\<close>

definition within ::
  "('w \<Rightarrow> nat) \<Rightarrow> nat \<Rightarrow> nat \<Rightarrow> ('c, 'w, 'a) act \<Rightarrow> bool" where
  "within count n k m \<longleftrightarrow>
     (\<forall>dl c w r c' w'. count w + k \<le> n \<longrightarrow> m dl c w = (r, c', w') \<longrightarrow> count w' \<le> n)"

definition keeps_count :: "('w \<Rightarrow> nat) \<Rightarrow> ('c, 'w, 'a) act \<Rightarrow> bool" where
  "keeps_count count m \<longleftrightarrow> (\<forall>dl c w r c' w'. m dl c w = (r, c', w') \<longrightarrow> count w' = count w)"

lemma keeps_countD: "keeps_count count m \<Longrightarrow> m dl c w = (r, c', w') \<Longrightarrow> count w' = count w"
  unfolding keeps_count_def by blast

lemma keeps_count_io:
  "(\<And>dl w r w'. f dl w = (r, w') \<Longrightarrow> count w' = count w) \<Longrightarrow> keeps_count count (io f)"
  by (auto simp: keeps_count_def act_simps split: prod.splits)

lemma keeps_count_select:
  assumes "keeps_count count m" "\<And>w v w'. wt_observe W w = (v, w') \<Longrightarrow> count w' = count w"
  shows "keeps_count count (select_changed W m)"
  using assms unfolding keeps_count_def select_changed_def
  by (fastforce split: option.splits prod.splits poll.splits if_splits)

lemma withinI:
  "(\<And>dl c w r c' w'. count w + k \<le> n \<Longrightarrow> m dl c w = (r, c', w') \<Longrightarrow> count w' \<le> n) \<Longrightarrow> within count n k m"
  unfolding within_def by blast

lemma withinD: "within count n k m \<Longrightarrow> m dl c w = (r, c', w') \<Longrightarrow> count w + k \<le> n \<Longrightarrow> count w' \<le> n"
  unfolding within_def by blast

lemma within_ret: "within count n k (ret a)"
  by (auto simp: within_def act_simps)

lemma within_await:
  assumes "keeps_count count m" "\<And>a. within count n k (f a)"
  shows "within count n k (await m f)"
proof (rule withinI)
  fix dl c w r c' w'
  assume le: "count w + k \<le> n" and run: "await m f dl c w = (r, c', w')"
  obtain r1 c1 w1 where m: "m dl c w = (r1, c1, w1)" by (cases "m dl c w")
  from assms(1) m have "count w1 + k \<le> n" using le by (simp add: keeps_count_def)
  with run m assms(2) show "count w' \<le> n"
    by (cases r1) (auto simp: act_simps within_def)
qed

lemma within_world:
  "(\<And>w. count (g w) + j \<le> count w + k) \<Longrightarrow> within count n j m \<Longrightarrow> within count n k (world g m)"
proof (rule withinI)
  fix dl c w r c' w'
  assume le: "\<And>w. count (g w) + j \<le> count w + k" "within count n j m" "count w + k \<le> n"
    and run: "world g m dl c w = (r, c', w')"
  from le(1) [of w] le(3) have "count (g w) + j \<le> n" by linarith
  with le(2) run show "count w' \<le> n" by (auto simp: world_def dest: withinD)
qed

lemma within_accept_loop:
  assumes "slots_kept R free live"
  shows "within (\<lambda>w. free w + live w) n 0 (accept_loop R s listener fuel)"
proof (induction fuel)
  case 0
  then show ?case by (simp add: within_ret)
next
  case (Suc fuel)
  let ?count = "\<lambda>w. free w + live w" and ?next = "accept_loop R s listener fuel"
  note laws = slots_keptD [OF assms]
  have selects: "keeps_count ?count (select_changed (rt_shutdown_rx R) (io (rt_accept R listener)))"
    "keeps_count ?count (select_changed (rt_shutdown_rx R) (io (net_sleep R ACCEPT_ERROR_BACKOFF)))"
    by (rule keeps_count_select, rule keeps_count_io, erule laws, erule laws)+
  have release: "within ?count n (Suc 0) (world (rt_sem_release R) m)" if "within ?count n 0 m" for m :: "(nat list, 'b, unit option) act"
    by (rule within_world [OF _ that]) (simp add: laws)
  have spawn: "within ?count n (Suc 0) (spawn_connection R s stream ?next)" for stream
  proof (rule withinI)
    fix dl c w r c' w'
    assume le: "?count w + Suc 0 \<le> n" and run: "spawn_connection R s stream ?next dl c w = (r, c', w')"
    obtain h ws where sp: "rt_spawn R (new_handler s stream) w = (h, ws)" by (cases "rt_spawn R (new_handler s stream) w")
    from sp have "?count ws = Suc (?count w)" by (rule laws)
    with le run sp show "?count w' \<le> n"
      by (auto simp: spawn_connection_def dest: withinD [OF Suc.IH])
  qed
  have accepted: "within ?count n (Suc 0)
      (await (select_changed (rt_shutdown_rx R) (io (rt_accept R listener))) (\<lambda>accept_result.
           case accept_result of
             Inl signal \<Rightarrow> world (rt_sem_release R) (if signal then ret (Some ()) else ?next)
           | Inr (Inr stream) \<Rightarrow> spawn_connection R s stream ?next
           | Inr (Inl e) \<Rightarrow>
               await (select_changed (rt_shutdown_rx R) (io (net_sleep R ACCEPT_ERROR_BACKOFF))) (\<lambda>r.
                 world (rt_sem_release R)
                   (case r of
                      Inr _ \<Rightarrow> ?next
                    | Inl signal \<Rightarrow> if signal then ret (Some ()) else ?next))))"
    by (auto split: sum.split intro!: within_await selects release spawn within_ret Suc.IH)
  have acquire: "within ?count n 0 (await (io (rt_sem_acquire R))
      (\<lambda>permit. if \<not> permit then ret (Some ()) else m))" if "within ?count n (Suc 0) m" for m :: "(nat list, 'b, unit option) act"
  proof (rule withinI)
    fix dl c w r c' w'
    assume le: "?count w + 0 \<le> n" and run: "await (io (rt_sem_acquire R))
      (\<lambda>permit. if \<not> permit then ret (Some ()) else m) dl c w = (r, c', w')"
    obtain ra wa where acq: "rt_sem_acquire R dl w = (ra, wa)" by (cases "rt_sem_acquire R dl w")
    from acq have "?count wa + (if ra = Ready True then 1 else 0) = ?count w" by (rule laws)
    with le run acq show "?count w' \<le> n"
      by (cases ra) (auto simp: act_simps dest: withinD [OF that] split: if_splits)
  qed
  show ?case
    using acquire [OF accepted] unfolding within_def accept_loop.simps(2) retain_running_def
    by (fastforce simp: act_simps split: if_splits)
qed

lemma keeps_count_drain_loop:
  fixes R :: "('h, 'l, 'acc, 'w) runtime"
  assumes "slots_kept R free live"
  shows "keeps_count (\<lambda>w. free w + live w) (drain_loop R tmo start handles :: ('c, 'w, unit) act)"
proof (induction handles)
  case Nil
  then show ?case by (simp add: keeps_count_def act_simps)
next
  case (Cons h hs)
  note laws = slots_keptD [OF assms]
  have abort: "free (fold (rt_abort R) hs w) + live (fold (rt_abort R) hs w) = free w + live w" for hs w
    by (induction hs arbitrary: w) (simp_all add: laws)
  have aborts: "abort_all R hs dl c w = (r, c', w') \<Longrightarrow> free w' + live w' = free w + live w" for hs dl c w r c' w'
    by (auto simp: abort_all_def world_def act_simps abort)
  show ?case
    unfolding keeps_count_def
  proof (intro allI impI)
    fix dl w r w' and c c' :: 'c
    assume run: "drain_loop R tmo start (h # hs) dl c w = (r, c', w')"
    let ?d = "tmo - (net_now R w - start)"
    let ?dl = "Some (earlier dl (net_now R w + ?d))"
    obtain rj wj where j: "rt_join R h ?dl w = (rj, wj)" by (cases "rt_join R h ?dl w")
    from j have wj: "free wj + live wj = free w + live w" by (rule laws)
    have IH: "free w' + live w' = free wj + live wj" if "drain_loop R tmo start hs dl c wj = (r, c', w')"
      using keeps_countD [OF Cons.IH that] by simp
    from run j wj show "free w' + live w' = free w + live w"
      by (cases rj) (auto simp: Let_def act_simps timeout_def IH split: if_splits dest: aborts)
  qed
qed

lemma within_sv_serve:
  assumes "slots_kept R free live"
  shows "within (\<lambda>w. free w + live w) n 0 (sv_serve R fuel s l)"
proof (rule withinI)
  let ?count = "\<lambda>w. free w + live w"
  fix dl handles w r handles' w'
  assume le: "?count w + 0 \<le> n" and run: "sv_serve R fuel s l dl handles w = (r, handles', w')"
  obtain ra ha wa where acc: "accept_loop R s l fuel dl handles w = (ra, ha, wa)" by (cases "accept_loop R s l fuel dl handles w")
  have wa: "?count wa \<le> n" using withinD [OF within_accept_loop [OF assms] acc] le by simp
  obtain rd hd' wd where dr: "drain R (sv_drain_timeout s) ha dl ha wa = (rd, hd', wd)" by (cases "drain R (sv_drain_timeout s) ha dl ha wa")
  have "?count wd = ?count wa"
    using keeps_countD [OF keeps_count_drain_loop [OF assms] dr [unfolded drain_def]] by simp
  with run acc dr wa show "?count w' \<le> n"
    by (auto simp: sv_serve_def act_simps split: poll.splits option.splits)
qed

subsection \<open>Properties of the server\<close>

text \<open>A runtime on which binding succeeds, nobody connects, and tasks are over when joined.\<close>

definition idle_runtime :: "(unit, unit, unit, pipe) runtime" where
  "idle_runtime =
     \<lparr>net_now = pw_now, net_read = (\<lambda>h. pipe_read 0 (\<lambda>_. []) (\<lambda>_. True)),
      net_write_all = (\<lambda>h bs dl w. (Ready (Inr ()), w)), net_flush = (\<lambda>h dl w. (Ready (Inr ()), w)),
      net_shutdown = (\<lambda>h dl w. (Ready (Inr ()), w)), net_close = (\<lambda>h w. w), net_sleep = pipe_sleep,
      rt_bind = (\<lambda>a dl w. (Ready (Inr ()), w)), rt_accept = (\<lambda>l dl w. (Pending, wait_until dl w)),
      rt_sem_new = (\<lambda>n w. w), rt_sem_acquire = (\<lambda>dl w. (Ready True, w)), rt_sem_release = (\<lambda>w. w),
      rt_spawn = (\<lambda>c w. (0, w)), rt_finished = (\<lambda>h w. False), rt_join = (\<lambda>h dl w. (Pending, wait_until dl w)),
      rt_abort = (\<lambda>h w. w), rt_shutdown_rx = no_signal, rt_shutdown_send = (\<lambda>b w. w),
      rt_build_acceptor = (\<lambda>i p. Inl 0)\<rparr>"

text \<open>After the accept loop has stopped, \<open>run\<close> returns: the drain is over at the latest when the drain
  timeout has passed, whatever the connection tasks do, even if none of them ever ends.\<close>

theorem drain_keeps_its_timeout:
  assumes "\<And>h. fut_timely (net_now R) (rt_join R h)"
    and "\<And>h. fut_moves (\<lambda>w w'. net_now R w \<le> net_now R w') (rt_join R h)"
    and "\<And>h w. net_now R (rt_abort R h w) = net_now R w"
    and "drain R tmo handles None c w = (r, c', w')"
  shows "r = Ready () \<and> net_now R w' \<le> net_now R w + tmo"
  using drain_loop_bound [OF assms(1-3) order_refl _ assms(4) [unfolded drain_def]] by simp

theorem drain_keeps_its_timeout_witness:
  "case drain idle_runtime (from_secs 5) [0, 0, 0] None () pipe_start of
     (r, c', w') \<Rightarrow> r = Ready () \<and> pw_now w' \<le> from_secs 5"
proof -
  obtain r c' w' where run: "drain idle_runtime (from_secs 5) [0, 0, 0] None () pipe_start = (r, c', w')"
    by (cases "drain idle_runtime (from_secs 5) [0, 0, 0] None () pipe_start")
  have "r = Ready () \<and> net_now idle_runtime w' \<le> net_now idle_runtime pipe_start + from_secs 5"
  proof (rule drain_keeps_its_timeout [OF _ _ _ run])
    show "fut_timely (net_now idle_runtime) (rt_join idle_runtime h)" for h
      unfolding idle_runtime_def fut_timely_def by (auto split: option.splits)
    show "fut_moves (\<lambda>w w'. net_now idle_runtime w \<le> net_now idle_runtime w') (rt_join idle_runtime h)" for h
    proof -
      have "pw_now w \<le> pw_now (wait_until dl w)" for dl w by (cases dl) simp_all
      then show ?thesis unfolding idle_runtime_def fut_moves_def by auto
    qed
  qed (simp add: idle_runtime_def)
  with run show ?thesis by (simp add: idle_runtime_def)
qed

text \<open>A limit of zero connections, documented as no limit, makes \<open>run\<close> return successfully as soon
  as it has bound its address: no connection is ever accepted.\<close>

theorem no_limit_serves_nobody:
  assumes "sv_factory s" "sv_max_connections s = 0" "rt_bind R (sv_address s) dl w = (Ready (Inr l), w1)"
  shows "sv_run R (Suc fuel) dl s w = (Ready (Inr (Some ())), s\<lparr>sv_listener := Some l\<rparr>, w1)"
  using assms
  by (simp add: sv_run_def sv_serve_def act_simps with_local_def retain_running_def drain_def)

theorem no_limit_serves_nobody_witness:
  "sv_run idle_runtime 1 None (sv_set_max_connections 0 (sv_set_factory (sv_new ''a'' 0))) pipe_start =
     (Ready (Inr (Some ())), (sv_set_max_connections 0 (sv_set_factory (sv_new ''a'' 0)))\<lparr>sv_listener := Some ()\<rparr>,
      pipe_start)"
  using no_limit_serves_nobody [of "sv_set_max_connections 0 (sv_set_factory (sv_new ''a'' 0))" idle_runtime None
      pipe_start "()" pipe_start 0]
  by (simp add: sv_set_max_connections_def sv_set_factory_def sv_new_def idle_runtime_def)

text \<open>A drain timeout of zero, documented as waiting forever, waits for nobody: every connection task
  is aborted at once and the clock has not moved.\<close>

theorem zero_drain_timeout_aborts_all:
  "drain R 0 handles dl c w = (Ready (), c, fold (rt_abort R) handles w)"
  by (rule drain_zero)

text \<open>C19: never more connections than allowed. From a runtime without connection tasks, however many
  clients come and whatever the tasks do, \<open>run\<close> has at most \<open>max_connections\<close> connection tasks alive
  wherever one looks: after any number of iterations, when it waits, and when it has returned.\<close>

theorem connections_within_limit:
  fixes R :: "('h, 'l, 'acc, 'w) runtime"
  assumes "slots_kept R free live" and "sv_max_connections s \<noteq> 0" and "live w = 0"
    and "sv_run R fuel dl s w = (r, s', w')"
  shows "live w' \<le> sv_max_connections s"
proof (cases "sv_factory s")
  case False
  with assms(3,4) show ?thesis by (auto simp: sv_run_def act_simps)
next
  case True
  note laws = slots_keptD [OF assms(1)]
  let ?count = "\<lambda>w. free w + live w" and ?n = "sv_max_connections s"
  obtain rb wb where bind: "rt_bind R (sv_address s) dl w = (rb, wb)" by (cases "rt_bind R (sv_address s) dl w")
  with assms(3) have wb: "live wb = 0" by (simp add: laws(12))
  show ?thesis
  proof (cases "\<exists>l. rb = Ready (Inr l)")
    case no: False
    with True assms(4) bind wb show ?thesis
      by (auto simp: sv_run_def act_simps split: poll.splits sum.splits)
  next
    case yes: True
    then obtain l where l: "rb = Ready (Inr l)" ..
    let ?w = "rt_sem_new R ?n wb" and ?s = "s\<lparr>sv_listener := Some l\<rparr>"
    obtain rm hm where m: "sv_serve R fuel ?s l dl [] ?w = (rm, hm, w')"
      using assms(2,4) True bind l
      by (cases "sv_serve R fuel ?s l dl [] ?w") (auto simp: sv_run_def act_simps with_local_def world_def)
    have "?count ?w \<le> ?n" using wb by (simp add: laws)
    with withinD [OF within_sv_serve [OF assms(1)] m] have "?count w' \<le> ?n" by simp
    then show ?thesis by simp
  qed
qed

text \<open>A runtime where clients keep coming and no connection ever ends: permits and tasks are all there is.\<close>

definition busy_runtime :: "(unit, unit, unit, nat \<times> nat) runtime" where
  "busy_runtime =
     \<lparr>net_now = (\<lambda>w. 0), net_read = (\<lambda>h n dl w. (Pending, w)), net_write_all = (\<lambda>h bs dl w. (Ready (Inr ()), w)),
      net_flush = (\<lambda>h dl w. (Ready (Inr ()), w)), net_shutdown = (\<lambda>h dl w. (Ready (Inr ()), w)),
      net_close = (\<lambda>h w. w), net_sleep = (\<lambda>d dl w. (Ready (), w)),
      rt_bind = (\<lambda>a dl w. (Ready (Inr ()), w)), rt_accept = (\<lambda>l dl w. (Ready (Inr ()), w)),
      rt_sem_new = (\<lambda>n (free, live). (n, live)),
      rt_sem_acquire = (\<lambda>dl (free, live). if free = 0 then (Pending, free, live) else (Ready True, free - 1, live)),
      rt_sem_release = (\<lambda>(free, live). (Suc free, live)), rt_spawn = (\<lambda>c (free, live). (live, free, Suc live)),
      rt_finished = (\<lambda>h w. False), rt_join = (\<lambda>h dl w. (Pending, w)), rt_abort = (\<lambda>h w. w),
      rt_shutdown_rx = \<lparr>wt_changes = (\<lambda>w. None), wt_observe = (\<lambda>w. (False, w))\<rparr>, rt_shutdown_send = (\<lambda>b w. w),
      rt_build_acceptor = (\<lambda>i p. Inl 0)\<rparr>"

lemma busy_runtime_slots: "slots_kept busy_runtime fst snd"
  by (auto simp: slots_kept_def busy_runtime_def split: if_splits)

text \<open>With a limit of two the third client is left in the backlog: the loop waits with two tasks alive.\<close>

theorem connections_within_limit_witness:
  "case sv_run busy_runtime 5 None (sv_set_max_connections 2 (sv_set_factory (sv_new ''a'' 0))) (0, 0) of
     (r, s', w') \<Rightarrow> r = Pending \<and> snd w' = 2 \<and> snd w' \<le> 2"
proof -
  let ?s = "sv_set_max_connections 2 (sv_set_factory (sv_new ''a'' 0)) :: (unit, unit) server"
  obtain r s' w' where run: "sv_run busy_runtime 5 None ?s (0, 0) = (r, s', w')"
    by (cases "sv_run busy_runtime 5 None ?s (0, 0)")
  have "snd w' \<le> 2"
    using connections_within_limit [OF busy_runtime_slots _ _ run]
    by (simp add: sv_set_max_connections_def sv_set_factory_def sv_new_def)
  moreover have "r = Pending \<and> snd w' = 2"
    using run
    by (auto simp add: sv_run_def sv_serve_def act_simps with_local_def retain_running_def spawn_connection_def
        select_changed_def world_def busy_runtime_def sv_set_max_connections_def sv_set_factory_def sv_new_def
        numeral_eq_Suc)
  ultimately show ?thesis using run by simp
qed

end
