(* ===== verification/Rust_Text.thy ===== *)
theory Rust_Text
  imports Prelude
begin

section \<open>Strings of the standard library\<close>

text \<open>
  The example programs turn payloads into text and back. A Rust \<open>String\<close> is its UTF-8 bytes. This
  theory holds \<open>String::from_utf8_lossy\<close>, which replaces every maximal ill-formed piece by U+FFFD,
  and the rendering of numbers by \<open>format!\<close>.
\<close>

definition ascii :: "string \<Rightarrow> byte list" where
  "ascii s = map of_char s"

lemma ascii_append [simp]: "ascii (s @ t) = ascii s @ ascii t"
  by (simp add: ascii_def)

text \<open>Numbers in decimal.\<close>

fun decimal :: "nat \<Rightarrow> byte list" where
  "decimal n = (if n < 10 then [word_of_nat (48 + n)] else decimal (n div 10) @ [word_of_nat (48 + n mod 10)])"

declare decimal.simps [simp del]

subsection \<open>Well-formed UTF-8\<close>

definition continuation :: "byte \<Rightarrow> bool" where
  "continuation b \<longleftrightarrow> 0x80 \<le> b \<and> b \<le> 0xBF"

text \<open>The second byte of a sequence of three or of four, by its first.\<close>

definition second_of_three :: "byte \<Rightarrow> byte \<Rightarrow> bool" where
  "second_of_three a b \<longleftrightarrow>
     (a = 0xE0 \<and> 0xA0 \<le> b \<and> b \<le> 0xBF) \<or> (0xE1 \<le> a \<and> a \<le> 0xEC \<and> continuation b) \<or>
     (a = 0xED \<and> 0x80 \<le> b \<and> b \<le> 0x9F) \<or> (0xEE \<le> a \<and> a \<le> 0xEF \<and> continuation b)"

definition second_of_four :: "byte \<Rightarrow> byte \<Rightarrow> bool" where
  "second_of_four a b \<longleftrightarrow>
     (a = 0xF0 \<and> 0x90 \<le> b \<and> b \<le> 0xBF) \<or> (0xF1 \<le> a \<and> a \<le> 0xF3 \<and> continuation b) \<or>
     (a = 0xF4 \<and> 0x80 \<le> b \<and> b \<le> 0x8F)"

text \<open>
  One step of the decoder: whether the bytes begin with a character, and how many bytes that
  character, or the ill-formed piece in its place, has.
\<close>

definition next_is :: "(byte \<Rightarrow> bool) \<Rightarrow> byte list \<Rightarrow> bool" where
  "next_is P bs \<longleftrightarrow> (case bs of [] \<Rightarrow> False | b # _ \<Rightarrow> P b)"

definition utf8_step :: "byte \<Rightarrow> byte list \<Rightarrow> bool \<times> nat" where
  "utf8_step a bs =
     (if a < 0x80 then (True, 1)
      else if 0xC2 \<le> a \<and> a \<le> 0xDF then (if next_is continuation bs then (True, 2) else (False, 1))
      else if 0xE0 \<le> a \<and> a \<le> 0xEF then
        (if \<not> next_is (second_of_three a) bs then (False, 1)
         else if \<not> next_is continuation (drop 1 bs) then (False, 2) else (True, 3))
      else if 0xF0 \<le> a \<and> a \<le> 0xF4 then
        (if \<not> next_is (second_of_four a) bs then (False, 1)
         else if \<not> next_is continuation (drop 1 bs) then (False, 2)
         else if \<not> next_is continuation (drop 2 bs) then (False, 3) else (True, 4))
      else (False, 1))"

definition replacement :: "byte list" where
  "replacement = [0xEF, 0xBF, 0xBD]"

function utf8_lossy :: "byte list \<Rightarrow> byte list" where
  "utf8_lossy [] = []"
| "utf8_lossy (a # bs) =
     (case utf8_step a bs of (ok, n) \<Rightarrow>
        (if ok then take n (a # bs) else replacement) @ utf8_lossy (drop (n - 1) bs))"
  by pat_completeness auto
termination
  by (relation "measure length") auto

function utf8_valid :: "byte list \<Rightarrow> bool" where
  "utf8_valid [] = True"
| "utf8_valid (a # bs) =
     (case utf8_step a bs of (ok, n) \<Rightarrow> ok \<and> utf8_valid (drop (n - 1) bs))"
  by pat_completeness auto
termination
  by (relation "measure length") auto

lemma utf8_lossy_valid: "utf8_valid bs \<Longrightarrow> utf8_lossy bs = bs"
proof (induction bs rule: utf8_valid.induct)
  case (2 a bs)
  obtain ok n where s: "utf8_step a bs = (ok, n)" by (cases "utf8_step a bs")
  have n: "1 \<le> n" using s by (auto simp: utf8_step_def split: if_splits)
  from 2 s have "ok" "utf8_lossy (drop (n - 1) bs) = drop (n - 1) bs" by auto
  then show ?case
    using s n by (cases n) auto
qed simp

lemma utf8_valid_ascii: "(\<And>b. b \<in> set bs \<Longrightarrow> b < 0x80) \<Longrightarrow> utf8_valid bs"
  by (induction bs) (simp_all add: utf8_step_def)

text \<open>What is handed back is always text.\<close>

lemma utf8_step_append:
  assumes "utf8_step a bs = (True, n)"
  shows "utf8_step a (take (n - 1) bs @ cs) = (True, n)" and "n - 1 \<le> length bs"
proof -
  have next_take: "next_is P (take (Suc k) xs @ ys) = next_is P (take (Suc k) xs)"
    if "next_is P xs" for P k and xs ys :: "byte list"
    using that by (cases xs) (simp_all add: next_is_def)
  show "n - 1 \<le> length bs"
    using assms by (auto simp: utf8_step_def next_is_def split: if_splits list.splits)
  show "utf8_step a (take (n - 1) bs @ cs) = (True, n)"
    using assms
    by (cases bs; cases "tl bs"; cases "tl (tl bs)")
       (auto simp: utf8_step_def next_is_def split: if_splits)
qed

lemma utf8_lossy_is_valid: "utf8_valid (utf8_lossy bs)"
proof (induction bs rule: utf8_lossy.induct)
  case (2 a bs)
  obtain ok n where s: "utf8_step a bs = (ok, n)" by (cases "utf8_step a bs")
  note IH = "2.IH" [OF s [symmetric]]
  show ?case
  proof (cases ok)
    case True
    with s have n: "utf8_step a bs = (True, n)" by simp
    then have "1 \<le> n" by (auto simp: utf8_step_def split: if_splits)
    then obtain k where k: "n = Suc k" by (cases n) auto
    show ?thesis
      using utf8_step_append(1) [OF n, of "utf8_lossy (drop (n - 1) bs)"] utf8_step_append(2) [OF n] IH n
      by (simp add: k)
  next
    case False
    then show ?thesis
      using s IH by (simp add: replacement_def utf8_step_def next_is_def second_of_three_def continuation_def)
  qed
qed simp

lemma utf8_lossy_idem: "utf8_lossy (utf8_lossy bs) = utf8_lossy bs"
  by (rule utf8_lossy_valid [OF utf8_lossy_is_valid])

end
