(* ===== verification/Example_Servers.thy ===== *)
theory Example_Servers
  imports Server Rust_Text End_To_End
begin

section \<open>The example servers (examples/)\<close>

text \<open>
  The servers of the repository's examples. Those of \<open>transport/\<close> drive a \<open>ServerTL\<close> or a \<open>ServerTLS\<close>
  themselves in a \<open>while let Some(..) = read_command()\<close> loop; those of \<open>framework/\<close> and \<open>prost/\<close> hand
  a command handler to \<open>Server\<close>. What they print is left out. A call of \<open>unwrap()\<close> on an error
  panics the task: the result is that error. The loops take fuel, \<open>None\<close> is running out of it. The
  creation of certificates, the signal handler and \<open>to_uppercase\<close> are parameters.
\<close>

definition echo_text :: "string \<Rightarrow> byte list \<Rightarrow> byte list" where
  "echo_text label data = ascii label @ utf8_lossy data"

subsection \<open>simple_server.rs\<close>

text \<open>One connection: an error of \<open>read_command\<close> leaves \<open>main\<close>, any other error only the loop.\<close>

primrec simple_session ::
  "('h, 'w, 'z) net_scheme \<Rightarrow> nat \<Rightarrow> ('h server_tl, 'w, error + unit option) act" where
  "simple_session N 0 = ret (Inr None)"
| "simple_session N (Suc fuel) =
     await_try (st_read_command N) (\<lambda>info.
       case info of
         None \<Rightarrow> ret (Inr (Some ()))
       | Some (cmd, data_size) \<Rightarrow>
           await (st_receive_data N data_size) (\<lambda>received.
             case received of
               Inl e \<Rightarrow> ret (Inr (Some ()))
             | Inr data \<Rightarrow>
                 await (st_send_data N 1 (Some (echo_text ''Echo: '' data))) (\<lambda>sent.
                   case sent of
                     Inl e \<Rightarrow> ret (Inr (Some ()))
                   | Inr _ \<Rightarrow> simple_session N fuel)))"

text \<open>Accepting one client after the other, with \<open>?\<close> on \<open>accept\<close> and on the session's errors.\<close>

primrec simple_accept_loop ::
  "('h, 'l, 'acc, 'w) runtime \<Rightarrow> 'l \<Rightarrow> nat \<Rightarrow> nat \<Rightarrow> ('c, 'w, box_error + unit option) act" where
  "simple_accept_loop R listener fuel 0 = ret (Inr None)"
| "simple_accept_loop R listener fuel (Suc n) =
     await_try (map_err BoxIo (io (rt_accept R listener))) (\<lambda>stream.
     await_try (map_err BoxError (with_local (st_new stream stream) (\<lambda>s. net_close R (st_reader s))
                  (simple_session R fuel)))
       (\<lambda>ended. if ended = None then ret (Inr None) else simple_accept_loop R listener fuel n))"

definition simple_server_main ::
  "('h, 'l, 'acc, 'w) runtime \<Rightarrow> nat \<Rightarrow> nat \<Rightarrow> ('c, 'w, box_error + unit option) act" where
  "simple_server_main R fuel n =
     await_try (map_err BoxIo (io (rt_bind R ''127.0.0.1:8080''))) (\<lambda>listener.
       simple_accept_loop R listener fuel n)"

subsection \<open>tls_server.rs\<close>

primrec tls_session ::
  "('h, 'w, 'z) net_scheme \<Rightarrow> nat \<Rightarrow> ('h server_tls, 'w, error + unit option) act" where
  "tls_session N 0 = ret (Inr None)"
| "tls_session N (Suc fuel) =
     await_try (ss_read_command N) (\<lambda>info.
       case info of
         None \<Rightarrow> ret (Inr (Some ()))
       | Some (cmd, data_size) \<Rightarrow>
           await (ss_receive_data N data_size) (\<lambda>received.
             case received of
               Inl e \<Rightarrow> ret (Inr (Some ()))
             | Inr data \<Rightarrow>
                 await (ss_send_data N 1 (Some (echo_text ''TLS Echo: '' data))) (\<lambda>sent.
                   case sent of
                     Inl e \<Rightarrow> ret (Inr (Some ()))
                   | Inr _ \<Rightarrow> tls_session N fuel)))"

text \<open>The task of a connection: a failed handshake ends it quietly, an error of \<open>read_command\<close> by a panic.\<close>

definition tls_server_task ::
  "('h, 'acc, 'w) server_env \<Rightarrow> 'acc \<Rightarrow> 'h \<Rightarrow> nat \<Rightarrow> ('c, 'w, error + unit option) act" where
  "tls_server_task E acceptor stream fuel =
     await (io (se_tls_accept E acceptor stream)) (\<lambda>r.
       case r of
         Inl e \<Rightarrow> ret (Inr (Some ()))
       | Inr tls_stream \<Rightarrow>
           with_local (ss_new tls_stream) (\<lambda>s. net_close (se_net E) (ss_tls_stream s))
             (tls_session (se_net E) fuel))"

primrec tls_accept_loop ::
  "('h, 'l, 'acc, 'w) runtime \<Rightarrow> ('h \<Rightarrow> 'w \<Rightarrow> 'w) \<Rightarrow> 'l \<Rightarrow> nat \<Rightarrow> ('c, 'w, box_error + unit option) act" where
  "tls_accept_loop R spawn_task listener 0 = ret (Inr None)"
| "tls_accept_loop R spawn_task listener (Suc n) =
     await_try (map_err BoxIo (io (rt_accept R listener))) (\<lambda>stream.
       world (spawn_task stream) (tls_accept_loop R spawn_task listener n))"

definition tls_server_main ::
  "('h, 'l, 'acc, 'w) runtime \<Rightarrow> ('h \<Rightarrow> 'w \<Rightarrow> 'w) \<Rightarrow> nat \<Rightarrow> ('c, 'w, box_error + unit option) act" where
  "tls_server_main R spawn_task n =
     await_try (map_err BoxIo (io (rt_bind R ''127.0.0.1:8443''))) (\<lambda>listener.
       tls_accept_loop R spawn_task listener n)"

subsection \<open>The servers of ping_example.rs and ping_tls_example.rs\<close>

primrec ping_session ::
  "('h, 'w, 'z) net_scheme \<Rightarrow> nat \<Rightarrow> ('h server_tl, 'w, error + unit option) act" where
  "ping_session N 0 = ret (Inr None)"
| "ping_session N (Suc fuel) =
     await_try (st_read_command N) (\<lambda>info.
       case info of
         None \<Rightarrow> ret (Inr (Some ()))
       | Some (command, data_size) \<Rightarrow>
           await_try (if data_size > 0 then st_receive_data N data_size else ret (Inr [])) (\<lambda>data.
           await_try (st_send_data N 1 (Some (echo_text ''Echo: '' data))) (\<lambda>_. ping_session N fuel)))"

primrec ping_tls_session ::
  "('h, 'w, 'z) net_scheme \<Rightarrow> nat \<Rightarrow> ('h server_tls, 'w, error + unit option) act" where
  "ping_tls_session N 0 = ret (Inr None)"
| "ping_tls_session N (Suc fuel) =
     await_try (ss_read_command N) (\<lambda>info.
       case info of
         None \<Rightarrow> ret (Inr (Some ()))
       | Some (command, data_size) \<Rightarrow>
           await_try (if data_size > 0 then ss_receive_data N data_size else ret (Inr [])) (\<lambda>data.
           await_try (ss_send_data N 1 (Some (echo_text ''Echo: '' data))) (\<lambda>_. ping_tls_session N fuel)))"

text \<open>Both use a short header timeout, above the interval at which the client is to ping.\<close>

definition ping_example_config :: timeout_config where
  "ping_example_config = default_timeout_config\<lparr>tc_read_header := from_millis 500\<rparr>"

text \<open>The tasks accept one connection and count it; the counter is their state.\<close>

definition ping_server_task ::
  "('h, 'l, 'acc, 'w) runtime \<Rightarrow> 'l \<Rightarrow> nat \<Rightarrow> (nat, 'w, error + unit option) act" where
  "ping_server_task R listener fuel =
     await_try (map_err error_from_io (io (rt_accept R listener))) (\<lambda>stream.
     set_self Suc (
       with_local (st_set_timeout_config ping_example_config (st_new stream stream))
         (\<lambda>s. net_close R (st_reader s)) (ping_session R fuel)))"

definition ping_tls_server_task ::
  "('h, 'l, 'acc, 'w) runtime \<Rightarrow> ('h, 'acc, 'w) server_env \<Rightarrow> 'acc \<Rightarrow> 'l \<Rightarrow> nat \<Rightarrow>
     (nat, 'w, error + unit option) act" where
  "ping_tls_server_task R E acceptor listener fuel =
     await_try (map_err error_from_io (io (rt_accept R listener))) (\<lambda>stream.
     await_try (map_err error_from_tls (io (se_tls_accept E acceptor stream))) (\<lambda>tls_stream.
     set_self Suc (
       with_local (ss_set_timeout_config ping_example_config (ss_new tls_stream))
         (\<lambda>s. net_close (se_net E) (ss_tls_stream s)) (ping_tls_session (se_net E) fuel))))"

subsection \<open>high_level_server.rs\<close>

text \<open>
  The handler counts the requests of its connection, and in a counter shared by all connections
  those of the server. The pair is the handler and the content of the shared counter; both are
  64-bit numbers.
\<close>

type_synonym u64 = "64 word"

definition CMD_ECHO :: u32 where "CMD_ECHO = 1"
definition CMD_UPPERCASE :: u32 where "CMD_UPPERCASE = 2"
definition CMD_FINISH :: u32 where "CMD_FINISH = 3"
definition CMD_STATS :: u32 where "CMD_STATS = 4"

lemmas cmd_defs = CMD_ECHO_def CMD_UPPERCASE_def CMD_FINISH_def CMD_STATS_def

lemma cmd_distinct [simp]: "CMD_STATS \<noteq> CMD_ECHO" "CMD_STATS \<noteq> CMD_UPPERCASE" "CMD_STATS \<noteq> CMD_FINISH"
  by (simp_all add: cmd_defs)

record echo_handler =
  eh_requests :: u64

definition stats_text :: "u64 \<Rightarrow> u64 \<Rightarrow> byte list" where
  "stats_text requests all_requests =
     ascii ''This connection: '' @ decimal (unat requests) @
     ascii '' requests | Total across all connections: '' @ decimal (unat all_requests)"

definition echo_run :: "(byte list \<Rightarrow> byte list) \<Rightarrow> (echo_handler \<times> u64) behaviour" where
  "echo_run to_uppercase u command data =
     (let self = (fst u)\<lparr>eh_requests := eh_requests (fst u) + 1\<rparr>; total_requests = snd u + 1 in
      ((self, total_requests),
       if command = CMD_ECHO then Inr (Ok, data)
       else if command = CMD_UPPERCASE then Inr (Ok, to_uppercase (utf8_lossy data))
       else if command = CMD_FINISH then Inr (Finish, ascii ''Goodbye!'')
       else if command = CMD_STATS then Inr (Ok, stats_text (eh_requests self) total_requests)
       else Inl (error_from_str (Fmt ''unknown command: {}'' [unat command]))))"

text \<open>\<open>main\<close>: a server of ten megabytes, with a task that shuts it down on a signal.\<close>

definition high_level_server_main ::
  "('h, 'l, 'acc, 'w) runtime \<Rightarrow> ('w \<Rightarrow> 'w) \<Rightarrow> nat \<Rightarrow> ('c, 'w, box_error + unit option) act" where
  "high_level_server_main R spawn_ctrl_c fuel =
     world spawn_ctrl_c
       (with_local (sv_set_factory (sv_new ''127.0.0.1:8080'' (10 * 1024 * 1024))) (\<lambda>_ w. w) (sv_run R fuel))"

subsection \<open>The protobuf server (prost/server.rs, prost/types.rs)\<close>

text \<open>Encoding and decoding messages is the \<open>prost\<close> package, a parameter.\<close>

record greet_request =
  gq_name :: "byte list"
  gq_times :: u32

record greet_response =
  gr_greetings :: "byte list list"
  gr_total_greetings :: u64

datatype stats_request = StatsRequest

record stats_response =
  sr_total_requests :: u64
  sr_active_connections :: u64

record prost =
  pr_encode_greet_request :: "greet_request \<Rightarrow> nat + byte list"
  pr_decode_greet_request :: "byte list \<Rightarrow> nat + greet_request"
  pr_encode_greet_response :: "greet_response \<Rightarrow> nat + byte list"
  pr_decode_greet_response :: "byte list \<Rightarrow> nat + greet_response"
  pr_encode_stats_request :: "stats_request \<Rightarrow> nat + byte list"
  pr_decode_stats_request :: "byte list \<Rightarrow> nat + stats_request"
  pr_encode_stats_response :: "stats_response \<Rightarrow> nat + byte list"
  pr_decode_stats_response :: "byte list \<Rightarrow> nat + stats_response"

definition CMD_GREET :: u32 where "CMD_GREET = 1"
definition CMD_PROST_STATS :: u32 where "CMD_PROST_STATS = 2"

definition greeting :: "byte list \<Rightarrow> nat \<Rightarrow> byte list" where
  "greeting name i = ascii ''Hello, '' @ name @ ascii ''! (greeting #'' @ decimal (i + 1) @ ascii '')''"

record greeter_handler =
  gh_total_requests :: u64
  gh_total_greetings :: u64

text \<open>Both counters are shared by all connections; the record is their content.\<close>

definition greeter_run :: "prost \<Rightarrow> greeter_handler behaviour" where
  "greeter_run P u command data =
     (let self = u\<lparr>gh_total_requests := gh_total_requests u + 1\<rparr> in
      if command = CMD_GREET then
        (case pr_decode_greet_request P data of
           Inl e \<Rightarrow> (self, Inl (error_from_str (Fmt ''Failed to decode GreetRequest: {}'' [e])))
         | Inr request \<Rightarrow>
             let times = (if gq_times request = 0 then 1 else gq_times request);
                 greetings = map (greeting (gq_name request)) [0..<unat times];
                 all_greetings = gh_total_greetings self + ucast times;
                 self = self\<lparr>gh_total_greetings := all_greetings\<rparr>
             in case pr_encode_greet_response P \<lparr>gr_greetings = greetings, gr_total_greetings = all_greetings\<rparr> of
                  Inl e \<Rightarrow> (self, Inl (error_from_str (Fmt ''Failed to encode GreetResponse: {}'' [e])))
                | Inr buf \<Rightarrow> (self, Inr (Ok, buf)))
      else if command = CMD_PROST_STATS then
        (case pr_decode_stats_request P data of
           Inl e \<Rightarrow> (self, Inl (error_from_str (Fmt ''Failed to decode StatsRequest: {}'' [e])))
         | Inr _ \<Rightarrow>
             (case pr_encode_stats_response P
                     \<lparr>sr_total_requests = gh_total_requests self, sr_active_connections = 0\<rparr> of
                Inl e \<Rightarrow> (self, Inl (error_from_str (Fmt ''Failed to encode StatsResponse: {}'' [e])))
              | Inr buf \<Rightarrow> (self, Inr (Ok, buf))))
      else (self, Inl (error_from_str (Fmt ''Unknown command: {}'' [unat command]))))"

definition prost_server_main ::
  "('h, 'l, 'acc, 'w) runtime \<Rightarrow> ('w \<Rightarrow> 'w) \<Rightarrow> nat \<Rightarrow> ('c, 'w, box_error + unit option) act" where
  "prost_server_main R spawn_ctrl_c fuel =
     world spawn_ctrl_c
       (with_local (sv_set_factory (sv_new ''127.0.0.1:9090'' (10 * 1024 * 1024))) (\<lambda>_ w. w) (sv_run R fuel))"

subsection \<open>The server of shutdown_example.rs\<close>

definition slow_run :: "('h, 'w, 'z) net_scheme \<Rightarrow> (unit, 'w) command_handler" where
  "slow_run N command data = await (io (net_sleep N (from_millis 200))) (\<lambda>_. ret (Inr (Ok, data)))"

definition shutdown_example_server ::
  "('h, 'l, 'acc, 'w) runtime \<Rightarrow> nat \<Rightarrow> ('c, 'w, box_error + unit option) act" where
  "shutdown_example_server R fuel =
     with_local (sv_set_factory (sv_new ''127.0.0.1:8081'' (1024 * 1024))) (\<lambda>_ w. w) (sv_run R fuel)"

subsection \<open>A ping ends the loops of the examples\<close>

abbreviation echoes :: "string \<Rightarrow> unit behaviour" where
  "echoes label \<equiv> (\<lambda>u cmd data. (u, Inr (Ok, echo_text label data)))"

context reliable_conn
begin

lemma runs_ping_session:
  assumes "peer = (\<lambda>_. S)" "st_on h h s" "st_max_buffer_size s = limit" "\<forall>rq \<in> set rqs. acceptable limit rq"
    and "S = G @ in_bytes (map Message rqs @ [KeepAlive]) @ rest" "length rqs < fuel"
    and "\<And>s'. Q (Inr (Some ())) s' (Out @ out_bytes (echoes ''Echo: '') () (map Message rqs @ [KeepAlive]),
      G @ in_bytes (map Message rqs @ [KeepAlive]))"
  shows "runs sent got Q (ping_session N fuel) s (Out, G)"
  using assms(2-7)
proof (induction rqs arbitrary: fuel s Out G)
  case Nil
  then obtain k where k: "fuel = Suc k" by (cases fuel) auto
  show ?case
    using Nil unfolding k ping_session.simps
    by - (rule runs_await_try, rule runs_st_read_command_ping,
      auto simp: assms(1) st_on_def intro!: runs_ret)
next
  case (Cons rq rqs)
  then obtain k where k: "fuel = Suc k" "length rqs < k" by (cases fuel) auto
  obtain cmd data where rq: "rq = (cmd, data)" by (cases rq)
  define n where "n = usize_as_u32 (length data)"
  let ?e = "echo_text ''Echo: '' data"
  from Cons.prems(3) rq have acc: "cmd \<noteq> 0" "length data \<le> limit" "unat n = length data"
    by (simp_all add: acceptable_def n_def unat_usize_as_u32_small)
  have S: "S = G @ request_bytes cmd n @ data @ 1 # in_bytes (map Message rqs @ [KeepAlive]) @ rest"
    using Cons.prems(4) by (simp add: req_header_def rq n_def)
  have IH: "runs sent got Q (ping_session N k) (st_idle s')
      (Out @ 1 # response_bytes 1 (usize_as_u32 (length ?e)) @ ?e, G @ request_bytes cmd n @ data @ [1])"
    if "st_on h h s'" "st_max_buffer_size s' = limit" for s'
    by (rule Cons.IH) (use that Cons.prems(3,6) k(2) S in \<open>auto simp: st_on_def answer_to_def req_header_def resp_header_def rq n_def\<close>)
  have send: "runs sent got Q (await_try (st_send_data N 1 (Some ?e)) (\<lambda>_. ping_session N k)) s'
      (Out @ [1], G @ request_bytes cmd n @ data)" if "st_on h h s'" "st_max_buffer_size s' = limit" for s'
    using that
    by (intro runs_await_try runs_st_send_data) (auto simp: assms(1) S st_on_def IH)
  show ?case
    unfolding k ping_session.simps
    apply (rule runs_await_try, rule runs_st_read_command [where c = cmd and n = n])
    using Cons.prems(1,2) S acc apply (simp_all add: assms(1) st_on_def)
    apply (intro conjI impI)
     apply (rule runs_await_try, rule runs_st_receive_data [where bs = data])
    using S acc apply (simp_all add: assms(1))
     apply (rule send, simp add: st_on_def, simp)
    using send [of "st_idle s"] apply (simp add: st_on_def)
    done
qed

lemma runs_simple_session:
  assumes "peer = (\<lambda>_. S)" "st_on h h s" "st_max_buffer_size s = limit" "\<forall>rq \<in> set rqs. acceptable limit rq"
    and "S = G @ in_bytes (map Message rqs @ [KeepAlive]) @ rest" "length rqs < fuel"
    and "\<And>s'. Q (Inr (Some ())) s' (Out @ out_bytes (echoes ''Echo: '') () (map Message rqs @ [KeepAlive]),
      G @ in_bytes (map Message rqs @ [KeepAlive]))"
  shows "runs sent got Q (simple_session N fuel) s (Out, G)"
  using assms(2-7)
proof (induction rqs arbitrary: fuel s Out G)
  case Nil
  then obtain k where k: "fuel = Suc k" by (cases fuel) auto
  show ?case
    using Nil unfolding k simple_session.simps
    by - (rule runs_await_try, rule runs_st_read_command_ping,
      auto simp: assms(1) st_on_def intro!: runs_ret)
next
  case (Cons rq rqs)
  then obtain k where k: "fuel = Suc k" "length rqs < k" by (cases fuel) auto
  obtain cmd data where rq: "rq = (cmd, data)" by (cases rq)
  define n where "n = usize_as_u32 (length data)"
  let ?e = "echo_text ''Echo: '' data"
  from Cons.prems(3) rq have acc: "cmd \<noteq> 0" "length data \<le> limit" "unat n = length data"
    by (simp_all add: acceptable_def n_def unat_usize_as_u32_small)
  have S: "S = G @ request_bytes cmd n @ data @ 1 # in_bytes (map Message rqs @ [KeepAlive]) @ rest"
    using Cons.prems(4) by (simp add: req_header_def rq n_def)
  have IH: "runs sent got Q (simple_session N k) (st_idle s')
      (Out @ 1 # response_bytes 1 (usize_as_u32 (length ?e)) @ ?e, G @ request_bytes cmd n @ data @ [1])"
    if "st_on h h s'" "st_max_buffer_size s' = limit" for s'
    by (rule Cons.IH) (use that Cons.prems(3,6) k(2) S in \<open>auto simp: st_on_def answer_to_def req_header_def resp_header_def rq n_def\<close>)
  show ?case
    unfolding k simple_session.simps
    apply (rule runs_await_try, rule runs_st_read_command [where c = cmd and n = n])
    using Cons.prems(1,2) S acc apply (simp_all add: assms(1) st_on_def)
    apply (rule runs_await, rule runs_st_receive_data [where bs = data])
    using S acc apply (simp_all add: assms(1))
    apply (rule runs_await, rule runs_st_send_data)
    using S apply (simp_all add: assms(1))
    using IH [of "st_idle (st_idle s)"] apply (simp add: st_on_def)
    done
qed

end

text \<open>The TLS session is the plain one on the TLS stream.\<close>

lemma lifts_ping_tls_session: "lifts ss_view (ping_tls_session N fuel) (ping_session N fuel)"
  by (induction fuel) (auto intro!: lift_rules split: option.split)

subsection \<open>Properties of the example servers\<close>

text \<open>The examples that are to show how pings keep a connection alive end it instead. Their
  server loop is \<open>while let Some(..) = read_command()\<close>, and \<open>read_command\<close> answers a ping with
  \<open>Ok(None)\<close>: after any number of requests the first ping is acknowledged and the loop is over,
  over plain TCP and over TLS, and whatever follows it in the stream is not read. The simple server
  drops the connection in the same way.\<close>

theorem ping_ends_example_servers:
  assumes "reliable_conn N h (\<lambda>_. in_bytes (map Message rqs @ [KeepAlive]) @ rest) sent got"
    and "st_on h h s" "\<forall>rq \<in> set rqs. acceptable (st_max_buffer_size s) rq" "length rqs < fuel"
    and "s = ss_view t" "sent w = []" "got w = []"
  shows "(\<exists>s' w'. ping_session N fuel dl s w = (Ready (Inr (Some ())), s', w') \<and>
      sent w' = out_bytes (echoes ''Echo: '') () (map Message rqs @ [KeepAlive]) \<and>
      got w' = in_bytes (map Message rqs @ [KeepAlive])) \<and>
    (\<exists>t' w'. ping_tls_session N fuel dl t w = (Ready (Inr (Some ())), t', w') \<and>
      got w' = in_bytes (map Message rqs @ [KeepAlive])) \<and>
    (\<exists>s' w'. simple_session N fuel dl s w = (Ready (Inr (Some ())), s', w') \<and>
      got w' = in_bytes (map Message rqs @ [KeepAlive]))"
proof (intro conjI)
  let ?es = "map Message rqs @ [KeepAlive]"
  let ?Q = "\<lambda>r s' l'. r = Inr (Some ()) \<and> l' = (out_bytes (echoes ''Echo: '') () ?es, in_bytes ?es)"
  have "runs sent got ?Q (ping_session N fuel) s ([], [])"
    by (rule reliable_conn.runs_ping_session [OF assms(1) refl assms(2) refl assms(3) _ assms(4)]) simp_all
  from this assms(6,7) show ping: "\<exists>s' w'. ping_session N fuel dl s w = (Ready (Inr (Some ())), s', w') \<and>
      sent w' = out_bytes (echoes ''Echo: '') () ?es \<and> got w' = in_bytes ?es"
    by (rule runsE [where dl = dl]) auto
  show "\<exists>t' w'. ping_tls_session N fuel dl t w = (Ready (Inr (Some ())), t', w') \<and> got w' = in_bytes ?es"
    using ping liftsD [OF lifts_ping_tls_session [of N fuel], of dl t w] assms(5)
    by (cases "ping_tls_session N fuel dl t w") auto
  have "runs sent got ?Q (simple_session N fuel) s ([], [])"
    by (rule reliable_conn.runs_simple_session [OF assms(1) refl assms(2) refl assms(3) _ assms(4)]) simp_all
  from this assms(6,7) show "\<exists>s' w'. simple_session N fuel dl s w = (Ready (Inr (Some ())), s', w') \<and>
      got w' = in_bytes ?es"
    by (rule runsE [where dl = dl]) auto
qed

text \<open>The client of the example: a request, a ping, and a second request, which is not read.\<close>

theorem ping_ends_example_servers_witness:
  "\<exists>s' w'. ping_session (server_net 0 (in_bytes (map Message [(42, [72])] @ [KeepAlive]) @ req_header (43, [87]))) 9
      None (st_new () ()) pipe_start = (Ready (Inr (Some ())), s', w') \<and>
    pw_got w' = in_bytes (map Message [(42, [72])] @ [KeepAlive])"
proof -
  let ?es = "map Message [(42, [72])] @ [KeepAlive]"
  have ok: "st_on () () (st_new () ())" "\<forall>rq \<in> set [(42, [72])]. acceptable (st_max_buffer_size (st_new () ())) rq"
    by (simp_all add: st_new_on st_new_limit acceptable_def DEFAULT_MAX_BUFFER_SIZE_def)
  have "\<exists>s' w'. ping_session (server_net 0 (in_bytes ?es @ req_header (43, [87]))) 9 None (st_new () ()) pipe_start =
      (Ready (Inr (Some ())), s', w') \<and> pw_sent w' = out_bytes (echoes ''Echo: '') () ?es \<and> pw_got w' = in_bytes ?es"
    by (rule ping_ends_example_servers [OF pipe.reliable_conn_axioms [where k = 0 and closed = "\<lambda>_. False" and
          peer = "\<lambda>_. in_bytes ?es @ req_header (43, [87])"] ok _ ss_view_new [symmetric], THEN conjunct1])
       (simp_all add: pipe_start_def)
  then show ?thesis by blast
qed

text \<open>The simple server, which accepts clients in a loop, ends with the first one that leaves: a
  disconnect between two requests is an error of \<open>read_command\<close>, and the \<open>?\<close> on it leaves \<open>main\<close>. So a
  client that connects and goes away shuts the server down.\<close>

theorem simple_server_ends_with_its_client:
  assumes "rt_accept R listener dl w = (Ready (Inr h), w1)"
    and "\<And>n dl w. 0 < n \<Longrightarrow> net_read R h n dl w = (Ready (Inr []), w)"
  shows "simple_accept_loop R listener (Suc fuel) (Suc n) dl c w =
    (Ready (Inl (BoxError ConnectionClosed)), c, net_close R h w1)"
proof -
  have "0 < vec_len (vec_resize request_encoded_len 0 b)" for b
    by (simp add: vec_simps header_sizes)
  then show ?thesis
    using assms
    by (simp add: act_simps with_local_def st_read_command_def timed_unfold Let_def st_new_def
        read_exact_or_closed_def fill_from.simps)
qed

definition left_client_runtime :: "(unit, unit, unit, nat) runtime" where
  "left_client_runtime =
     \<lparr>net_now = (\<lambda>w. 0), net_read = (\<lambda>h n dl w. (Ready (Inr []), w)), net_write_all = (\<lambda>h bs dl w. (Ready (Inr ()), w)),
      net_flush = (\<lambda>h dl w. (Ready (Inr ()), w)), net_shutdown = (\<lambda>h dl w. (Ready (Inr ()), w)),
      net_close = (\<lambda>h w. w - 1), net_sleep = (\<lambda>d dl w. (Ready (), w)),
      rt_bind = (\<lambda>a dl w. (Ready (Inr ()), w)), rt_accept = (\<lambda>l dl w. (Ready (Inr ()), Suc w)),
      rt_sem_new = (\<lambda>n w. w), rt_sem_acquire = (\<lambda>dl w. (Ready True, w)), rt_sem_release = (\<lambda>w. w),
      rt_spawn = (\<lambda>c w. (0, w)), rt_finished = (\<lambda>h w. False), rt_join = (\<lambda>h dl w. (Pending, w)), rt_abort = (\<lambda>h w. w),
      rt_shutdown_rx = no_signal, rt_shutdown_send = (\<lambda>b w. w), rt_build_acceptor = (\<lambda>i p. Inl 0)\<rparr>"

theorem simple_server_ends_with_its_client_witness:
  "simple_accept_loop left_client_runtime () (Suc 4) (Suc 6) None () 0 = (Ready (Inl (BoxError ConnectionClosed)), (), 0)"
proof -
  have "rt_accept left_client_runtime () None 0 = (Ready (Inr ()), 1)"
    "net_read left_client_runtime () n dl w = (Ready (Inr []), w)" "net_close left_client_runtime () 1 = 0" for n dl w
    by (simp_all add: left_client_runtime_def)
  then show ?thesis
    using simple_server_ends_with_its_client [of left_client_runtime "()" None 0 "()" 1 4 6 "()"] by simp
qed

subsection \<open>The counters of the handlers\<close>

text \<open>Requests of several connections, each with its own handler, over the shared counter.\<close>

fun echo_calls ::
  "(byte list \<Rightarrow> byte list) \<Rightarrow> (nat \<Rightarrow> echo_handler) \<times> u64 \<Rightarrow> (nat \<times> request) list \<Rightarrow> (nat \<Rightarrow> echo_handler) \<times> u64" where
  "echo_calls up s [] = s"
| "echo_calls up (hs, tot) ((k, cmd, data) # calls) =
     (case echo_run up (hs k, tot) cmd data of ((h, tot'), _) \<Rightarrow> echo_calls up (hs(k := h), tot') calls)"

lemma echo_calls_counts:
  "eh_requests (fst (echo_calls up (hs, tot) calls) k) = eh_requests (hs k) + of_nat (length (filter (\<lambda>c. fst c = k) calls)) \<and>
   snd (echo_calls up (hs, tot) calls) = tot + of_nat (length calls)"
  by (induction up "(hs, tot)" calls arbitrary: hs tot rule: echo_calls.induct)
     (auto simp: echo_run_def Let_def)

text \<open>The statistics of the example server are right. Whatever requests arrive on however many
  connections, in any order, unknown commands included: \<open>CMD_STATS\<close> reports the number of requests of
  its connection and of all connections, itself included, as 64-bit numbers.\<close>

theorem stats_count_requests:
  assumes "echo_calls up (\<lambda>k. \<lparr>eh_requests = 0\<rparr>, 0) calls = (hs, tot)"
  shows "snd (echo_run up (hs k, tot) CMD_STATS data) =
    Inr (Ok, stats_text (of_nat (Suc (length (filter (\<lambda>c. fst c = k) calls)))) (of_nat (Suc (length calls))))"
  using echo_calls_counts [of up "\<lambda>k. \<lparr>eh_requests = 0\<rparr>" 0 calls k] assms
  by (auto simp: echo_run_def Let_def add.commute)

theorem stats_count_requests_witness:
  "snd (echo_run id (\<lparr>eh_requests = 1\<rparr>, 2) CMD_STATS []) =
    Inr (Ok, ascii ''This connection: 2 requests | Total across all connections: 3'')"
  using stats_count_requests [of id "[(0, 1, []), (1, 999, [])]" "(\<lambda>k. \<lparr>eh_requests = 0\<rparr>)(0 := \<lparr>eh_requests = 1\<rparr>, 1 := \<lparr>eh_requests = 1\<rparr>)" 2 0 "[]"]
  by (simp add: echo_run_def cmd_defs stats_text_def decimal.simps ascii_def)

text \<open>A greeting costs its client nothing. The answer to a decoded \<open>GreetRequest\<close> holds exactly as
  many greetings as the request asks for (one for zero), so a request of a few bytes can ask for
  four thousand million of them; the shared counter adds them up, as a 64-bit number.\<close>

theorem greetings_are_unbounded:
  assumes "pr_decode_greet_request P data = Inr \<lparr>gq_name = name, gq_times = k\<rparr>"
    and "greeter_run P u CMD_GREET data = (u', Inr (Ok, buf))"
  shows "\<exists>greetings. length greetings = max 1 (unat k) \<and>
    pr_encode_greet_response P \<lparr>gr_greetings = greetings, gr_total_greetings = gh_total_greetings u'\<rparr> = Inr buf \<and>
    gh_total_greetings u' = gh_total_greetings u + of_nat (max 1 (unat k)) \<and>
    gh_total_requests u' = gh_total_requests u + 1"
proof -
  have 1: "max 1 (unat k) = unat (if k = 0 then 1 else k)"
    by (cases "unat k") (auto simp: max_def unat_eq_0)
  have 2: "of_nat (unat t) = (ucast t :: u64)" for t :: u32
    by simp
  from assms show ?thesis
    unfolding 1 2
    by (intro exI [of _ "map (greeting name) [0..<unat (if k = 0 then 1 else k)]"])
       (auto simp: greeter_run_def Let_def split: sum.splits)
qed

text \<open>A codec for the witness: a name of one byte and the number as four.\<close>

definition tiny_prost :: prost where
  "tiny_prost =
     \<lparr>pr_encode_greet_request = (\<lambda>r. Inr (gq_name r @ to_be_bytes (gq_times r))),
      pr_decode_greet_request = (\<lambda>bs. Inr \<lparr>gq_name = take 1 bs, gq_times = from_be_bytes (drop 1 bs)\<rparr>),
      pr_encode_greet_response = (\<lambda>r. Inr (concat (gr_greetings r))), pr_decode_greet_response = (\<lambda>bs. Inl 0),
      pr_encode_stats_request = (\<lambda>r. Inr []), pr_decode_stats_request = (\<lambda>bs. Inr StatsRequest),
      pr_encode_stats_response = (\<lambda>r. Inr []), pr_decode_stats_response = (\<lambda>bs. Inl 0)\<rparr>"

theorem greetings_are_unbounded_witness:
  "gh_total_greetings (fst (greeter_run tiny_prost \<lparr>gh_total_requests = 0, gh_total_greetings = 7\<rparr> CMD_GREET [65, 0, 0, 0, 2])) = 9"
proof -
  have dec: "pr_decode_greet_request tiny_prost [65, 0, 0, 0, 2] = Inr \<lparr>gq_name = [65], gq_times = 2\<rparr>"
    by (simp add: tiny_prost_def from_be_bytes_def)
  obtain u' buf where run: "greeter_run tiny_prost \<lparr>gh_total_requests = 0, gh_total_greetings = 7\<rparr> CMD_GREET [65, 0, 0, 0, 2] =
      (u', Inr (Ok, buf))"
    by (auto simp: greeter_run_def Let_def dec) (simp add: tiny_prost_def)
  from greetings_are_unbounded [OF dec run] have "gh_total_greetings u' = 9" by auto
  with run show ?thesis by simp
qed

subsection \<open>A shutdown in the middle of a request\<close>

context reliable_conn
begin

lemma handler_left_pending:
  assumes "st_on h h (conn_view c)" "cmd \<noteq> 0" "unat n = length data" "unat n \<le> st_max_buffer_size (conn_view c)"
    and "drop (length G) (peer S) = request_bytes cmd n @ ra" "drop (length G + 8) (peer (S @ [1])) = data @ rb"
    and "\<And>w. sent w = S @ [1] \<Longrightarrow> got w = G @ request_bytes cmd n @ data \<Longrightarrow>
      \<exists>v w'. run cmd data (Some t) u w = (Pending, v, w') \<and> sent w' = S @ [1]"
    and "sent w = S" "got w = G"
  shows "\<exists>p' w'. handle_next (conn_transport N) run (Some t) (ph_new c u) w = (Pending, p', w') \<and> sent w' = S @ [1]"
proof -
  have "runs sent got (\<lambda>r c' l'. r = Inr (Some (cmd, n)) \<and> c' = conn_idle c \<and> l' = (S @ [1], G @ request_bytes cmd n))
      (tr_read_command (conn_transport N)) c (S, G)"
    by (rule boxed_wire.wire_read [OF assms(1,5,4,2)]) simp
  from this assms(8,9) obtain w1 where read: "tr_read_command (conn_transport N) (Some t) c w =
      (Ready (Inr (Some (cmd, n))), conn_idle c, w1)" "sent w1 = S @ [1]" "got w1 = G @ request_bytes cmd n"
    by (rule runsE [where dl = "Some t"]) auto
  have "runs sent got (\<lambda>r c' l'. r = Inr data \<and> l' = (S @ [1], G @ request_bytes cmd n @ data))
      (tr_receive_data (conn_transport N) n) (conn_idle c) (S @ [1], G @ request_bytes cmd n)"
    by (rule boxed_wire.wire_receive [where bs = data]) (use assms in \<open>simp_all add: conn_view_idle st_on_def add.commute\<close>)
  from this read(2,3) obtain c2 w2 where receive: "tr_receive_data (conn_transport N) n (Some t) (conn_idle c) w1 =
      (Ready (Inr data), c2, w2)" "sent w2 = S @ [1]" "got w2 = G @ request_bytes cmd n @ data"
    by (rule runsE [where dl = "Some t"]) auto
  from assms(7) [OF receive(2,3)] obtain v w' where "run cmd data (Some t) u w2 = (Pending, v, w')" "sent w' = S @ [1]"
    by blast
  with read(1) receive(1) show ?thesis
    by (simp add: handle_next_def act_simps ph_new_def)
qed

end

text \<open>C38: a shutdown abandons the request being served. When the signal comes while the command handler
  is at work, the \<open>select!\<close> of the request loop drops \<open>handle_next\<close> where it stands: the loop ends, and
  the client, which got its acknowledgement, gets no answer.\<close>

theorem shutdown_abandons_request:
  assumes "reliable_conn N h peer sent got" and "st_on h h (conn_view c)"
    and "cmd \<noteq> 0" "unat n = length data" "unat n \<le> st_max_buffer_size (conn_view c)"
    and "drop (length (got w)) (peer (sent w)) = request_bytes cmd n @ ra"
    and "drop (length (got w) + 8) (peer (sent w @ [1])) = data @ rb"
    and "wt_changes W w = Some t" "\<And>w'. fst (wt_observe W w') \<and> sent (snd (wt_observe W w')) = sent w'"
    and "\<And>w'. sent w' = sent w @ [1] \<Longrightarrow> got w' = got w @ request_bytes cmd n @ data \<Longrightarrow>
      \<exists>v w''. run cmd data (Some t) u w' = (Pending, v, w'') \<and> sent w'' = sent w @ [1]"
  shows "\<exists>p' w'. conn_loop W (conn_transport N) run (Suc fuel) None (ph_new c u) w = (Ready (Some ()), p', w') \<and>
    sent w' = sent w @ [1]"
proof -
  have "\<exists>p' w1. handle_next (conn_transport N) run (Some t) (ph_new c u) w = (Pending, p', w1) \<and> sent w1 = sent w @ [1]"
    by (rule reliable_conn.handler_left_pending [OF assms(1-7)]) (simp_all add: assms(10))
  then obtain p' w1 where "handle_next (conn_transport N) run (Some t) (ph_new c u) w = (Pending, p', w1)" "sent w1 = sent w @ [1]"
    by blast
  with assms(8) assms(9) [of w1] show ?thesis
    by (cases "wt_observe W w1") (auto simp: act_simps select_changed_def)
qed

text \<open>The handler of the example, two hundred milliseconds at work, and a signal after one hundred.\<close>

definition signal_at :: "nat \<Rightarrow> pipe watch" where
  "signal_at t = \<lparr>wt_changes = (\<lambda>w. Some t), wt_observe = (\<lambda>w. (True, w))\<rparr>"

theorem shutdown_abandons_request_witness:
  "\<exists>p' w'. conn_loop (signal_at (from_millis 100)) (conn_transport (server_net 0 (req_header (1, [7]) @ [7])))
      (slow_run (server_net 0 [])) 1 None (ph_new served ()) pipe_start = (Ready (Some ()), p', w') \<and>
    pw_sent w' = [1]"
proof -
  have slow: "\<exists>v w''. slow_run (server_net 0 []) 1 [7] (Some (from_millis 100)) () w' = (Pending, v, w'') \<and>
      pw_sent w'' = pw_sent pipe_start @ [1]" if "pw_sent w' = pw_sent pipe_start @ [1]" for w'
    using that by (simp add: slow_run_def act_simps pipe_sleep_def Let_def from_millis_def)
  have "st_on () () (conn_view served)" "unat (1 :: u32) \<le> st_max_buffer_size (conn_view served)"
    by (simp_all add: served_def st_new_on st_new_limit DEFAULT_MAX_BUFFER_SIZE_def)
  from shutdown_abandons_request [OF pipe.reliable_conn_axioms [where k = 0 and closed = "\<lambda>_. False" and
        peer = "\<lambda>_. req_header (1, [7]) @ [7]"] this(1) _ _ this(2), where cmd = 1 and data = "[7]" and
        w = pipe_start and W = "signal_at (from_millis 100)" and t = "from_millis 100" and ra = "[7]" and rb = "[]" and
        run = "slow_run (server_net 0 [])" and u = "()" and fuel = 0]
  show ?thesis
    using slow by (simp add: req_header_def signal_at_def del: conn_loop.simps)
qed

end
