(* ===== verification/Example_Clients.thy ===== *)
theory Example_Clients
  imports Example_Servers
begin

section \<open>The example clients (examples/)\<close>

text \<open>
  The clients of the repository's examples, as actions of a fresh client that is dropped at the end.
  They return the payloads they print; printing itself is left out. A failed assertion panics and is
  the error \<open>assertion_failed\<close>; the runtime's and the codec's parts are parameters.
\<close>

definition assertion_failed :: error where
  "assertion_failed = Msg (lit ''assertion failed'')"

text \<open>A client made at the beginning of \<open>main\<close> and dropped at its end.\<close>

definition with_client ::
  "('h, 'w, 'y) client_net_scheme \<Rightarrow> string \<Rightarrow> ('h client_tl, 'w, 'a) act \<Rightarrow> ('c, 'w, 'a) act" where
  "with_client N address m = (\<lambda>dl u w.
     case m dl (ct_new (net_now N w) address) w of
       (r, c, w') \<Rightarrow> (case ct_drop N dl c w' of (_, _, w'') \<Rightarrow> (r, u, w'')))"

definition with_tls_client ::
  "('h, 'cx, 'w) tls_client_net \<Rightarrow> string \<Rightarrow> ('h client_tls, 'w, 'a) act \<Rightarrow> ('c, 'w, 'a) act" where
  "with_tls_client N address m = (\<lambda>dl u w.
     case m dl (cs_new (net_now N w) address) w of
       (r, c, w') \<Rightarrow> (case cs_drop N dl c w' of (_, _, w'') \<Rightarrow> (r, u, w'')))"

definition probing_config :: timeout_config where
  "probing_config = default_timeout_config\<lparr>tc_keep_alive := Some \<lparr>ka_time = from_secs 60, ka_interval = from_secs 15\<rparr>\<rparr>"

subsection \<open>simple_client.rs, tls_client.rs and no_answer_mode.rs\<close>

primrec simple_client_loop ::
  "('h, 'w, 'y) client_net_scheme \<Rightarrow> nat list \<Rightarrow> ('h client_tl, 'w, error + byte list list) act" where
  "simple_client_loop N [] = ret (Inr [])"
| "simple_client_loop N (i # is) =
     await_try (ct_handle_message N 1 (ascii ''Message #'' @ decimal i)) (\<lambda>response.
     await (io (net_sleep N (from_millis 100))) (\<lambda>_.
     await_try (simple_client_loop N is) (\<lambda>responses. ret (Inr (response # responses)))))"

definition simple_client_main ::
  "('h, 'w, 'y) client_net_scheme \<Rightarrow> ('c, 'w, error + byte list list) act" where
  "simple_client_main N = with_client N ''127.0.0.1:8080'' (
     await (ct_set_keep_alive N True) (\<lambda>_.
     await_try (ct_set_timeout_config N probing_config) (\<lambda>_.
     await_try (ct_connect N) (\<lambda>_.
     await_try (simple_client_loop N [1..<6]) (\<lambda>responses.
     await_try (ct_disconnect N) (\<lambda>_. ret (Inr responses)))))))"

primrec tls_client_loop ::
  "('h, 'cx, 'w) tls_client_net \<Rightarrow> nat list \<Rightarrow> ('h client_tls, 'w, error + byte list list) act" where
  "tls_client_loop N [] = ret (Inr [])"
| "tls_client_loop N (i # is) =
     await_try (cs_handle_message N 1 (ascii ''TLS Message #'' @ decimal i)) (\<lambda>response.
     await (io (net_sleep N (from_millis 200))) (\<lambda>_.
     await_try (tls_client_loop N is) (\<lambda>responses. ret (Inr (response # responses)))))"

definition tls_client_main ::
  "('h, 'cx, 'w) tls_client_net \<Rightarrow> ('c, 'w, error + byte list list) act" where
  "tls_client_main N = with_tls_client N ''127.0.0.1:8443'' (
     set_self (cs_set_domain ''localhost'') (
     await (cs_set_keep_alive N True) (\<lambda>_.
     await_try (cs_set_timeout_config N probing_config) (\<lambda>_.
     await_try (cs_connect N) (\<lambda>_.
     await_try (tls_client_loop N [1..<4]) (\<lambda>responses.
     await_try (cs_disconnect N) (\<lambda>_. ret (Inr responses))))))))"

primrec no_answer_loop ::
  "('h, 'w, 'y) client_net_scheme \<Rightarrow> nat list \<Rightarrow> ('h client_tl, 'w, error + unit) act" where
  "no_answer_loop N [] = ret (Inr ())"
| "no_answer_loop N (i # is) =
     await_try (ct_handle_message N 42 (ascii ''Event #'' @ decimal i)) (\<lambda>_.
     await (io (net_sleep N (from_millis 10))) (\<lambda>_. no_answer_loop N is))"

definition no_answer_main ::
  "('h, 'w, 'y) client_net_scheme \<Rightarrow> ('c, 'w, error + unit) act" where
  "no_answer_main N = with_client N ''127.0.0.1:8080'' (
     set_self (ct_set_command_has_answer False) (
     await (ct_set_keep_alive N True) (\<lambda>_.
     await_try (ct_set_timeout_config N probing_config) (\<lambda>_.
     await_try (ct_connect N) (\<lambda>_.
     await_try (no_answer_loop N [1..<11]) (\<lambda>_. ct_disconnect N))))))"

subsection \<open>high_level_client.rs\<close>

text \<open>The requests up to the unknown command, whose error is only printed.\<close>

definition high_level_requests ::
  "('h, 'w, 'y) client_net_scheme \<Rightarrow> ('h client_tl, 'w, error + byte list list \<times> (error + byte list)) act" where
  "high_level_requests N =
     await_try (ct_handle_message N CMD_ECHO (ascii ''Hello, wagonet!'')) (\<lambda>a.
     await_try (ct_handle_message N CMD_UPPERCASE (ascii ''shout it'')) (\<lambda>b.
     await_try (ct_handle_message N CMD_STATS []) (\<lambda>c.
     await (ct_handle_message N 999 (ascii ''nope'')) (\<lambda>unknown. ret (Inr ([a, b, c], unknown))))))"

definition high_level_client_main ::
  "('h, 'w, 'y) client_net_scheme \<Rightarrow> ('c, 'w, error + byte list list) act" where
  "high_level_client_main N = with_client N ''127.0.0.1:8080'' (
     await (ct_set_keep_alive N True) (\<lambda>_.
     await_try (ct_connect N) (\<lambda>_.
     await_try (high_level_requests N) (\<lambda>(responses, unknown).
     await_try (ct_handle_message N CMD_ECHO (ascii ''still alive'')) (\<lambda>d.
     await (ct_set_keep_alive N False) (\<lambda>_.
     await_try (ct_handle_message N CMD_STATS []) (\<lambda>e.
     await_try (ct_disconnect N) (\<lambda>_. ret (Inr (responses @ [d, e]))))))))))"

subsection \<open>The clients of ping_example.rs and ping_tls_example.rs\<close>

text \<open>The assertions at the end; \<open>connections\<close> reads the counter of the server task.\<close>

definition ping_example_checks :: "nat \<Rightarrow> byte list \<Rightarrow> byte list \<Rightarrow> bool" where
  "ping_example_checks final_count response1 response2 \<longleftrightarrow>
     final_count = 1 \<and> response1 = ascii ''Echo: Hello'' \<and> response2 = ascii ''Echo: World''"

definition ping_client_config :: timeout_config where
  "ping_client_config = default_timeout_config\<lparr>tc_read_header := from_millis 500, tc_ping_interval := from_millis 100\<rparr>"

definition ping_example_client ::
  "('h, 'w, 'y) client_net_scheme \<Rightarrow> ('w \<Rightarrow> nat) \<Rightarrow> string \<Rightarrow> ('c, 'w, error + unit) act" where
  "ping_example_client N connections address = with_client N address (
     await (ct_set_keep_alive N True) (\<lambda>_.
     await_try (ct_set_timeout_config N ping_client_config) (\<lambda>_.
     await_try (ct_handle_message N 42 (ascii ''Hello'')) (\<lambda>response1.
     await (io (net_sleep N (from_secs 2))) (\<lambda>_.
     await_try (ct_handle_message N 43 (ascii ''World'')) (\<lambda>response2. with_world (\<lambda>w.
       if \<not> ping_example_checks (connections w) response1 response2 then ret (Inl assertion_failed)
       else ct_disconnect N)))))))"

definition ping_tls_example_client ::
  "('h, 'cx, 'w) tls_client_net \<Rightarrow> ('w \<Rightarrow> nat) \<Rightarrow> string \<Rightarrow> ('c, 'w, error + unit) act" where
  "ping_tls_example_client N connections address = with_tls_client N address (
     set_self (cs_danger_accept_invalid_certs True) (set_self (cs_set_domain ''example.org'') (
     await (cs_set_keep_alive N True) (\<lambda>_.
     await_try (cs_set_timeout_config N ping_client_config) (\<lambda>_.
     await_try (cs_handle_message N 42 (ascii ''Hello'')) (\<lambda>response1.
     await (io (net_sleep N (from_secs 2))) (\<lambda>_.
     await_try (cs_handle_message N 43 (ascii ''World'')) (\<lambda>response2. with_world (\<lambda>w.
       if \<not> ping_example_checks (connections w) response1 response2 then ret (Inl assertion_failed)
       else cs_disconnect N)))))))))"

subsection \<open>prost/client.rs\<close>

definition prost_error :: "nat \<Rightarrow> error" where
  "prost_error e = error_from_box (BoxStr (Fmt ''prost'' [e]))"

definition greet ::
  "prost \<Rightarrow> ('h, 'w, 'y) client_net_scheme \<Rightarrow> byte list \<Rightarrow> u32 \<Rightarrow> ('h client_tl, 'w, error + greet_response) act" where
  "greet P N name k =
     await_try (map_err prost_error (ret (pr_encode_greet_request P \<lparr>gq_name = name, gq_times = k\<rparr>))) (\<lambda>buf.
     await_try (ct_handle_message N CMD_GREET buf) (\<lambda>response_bytes.
       map_err prost_error (ret (pr_decode_greet_response P response_bytes))))"

definition prost_client_main ::
  "prost \<Rightarrow> ('h, 'w, 'y) client_net_scheme \<Rightarrow> ('c, 'w, error + greet_response list \<times> stats_response) act" where
  "prost_client_main P N = with_client N ''127.0.0.1:9090'' (
     await (ct_set_keep_alive N True) (\<lambda>_.
     await_try (ct_connect N) (\<lambda>_.
     await_try (greet P N (ascii ''Alice'') 3) (\<lambda>alice.
     await_try (greet P N (ascii ''Bob'') 1) (\<lambda>bob.
     await_try (map_err prost_error (ret (pr_encode_stats_request P StatsRequest))) (\<lambda>buf.
     await_try (ct_handle_message N CMD_PROST_STATS buf) (\<lambda>response_bytes.
     await_try (map_err prost_error (ret (pr_decode_stats_response P response_bytes))) (\<lambda>stats.
     await_try (ct_disconnect N) (\<lambda>_. ret (Inr ([alice, bob], stats)))))))))))"

subsection \<open>The client of shutdown_example.rs\<close>

text \<open>It stops at the first error, which it expects after the shutdown.\<close>

primrec shutdown_example_loop ::
  "('h, 'w, 'y) client_net_scheme \<Rightarrow> nat list \<Rightarrow> ('h client_tl, 'w, byte list list) act" where
  "shutdown_example_loop N [] = ret []"
| "shutdown_example_loop N (i # is) =
     await (ct_handle_message N 1 (ascii ''msg '' @ decimal i)) (\<lambda>r.
       case r of
         Inl e \<Rightarrow> ret []
       | Inr response \<Rightarrow>
           await (io (net_sleep N (from_millis 500))) (\<lambda>_.
           await (shutdown_example_loop N is) (\<lambda>responses. ret (response # responses))))"

definition shutdown_example_client ::
  "('h, 'w, 'y) client_net_scheme \<Rightarrow> ('c, 'w, byte list list) act" where
  "shutdown_example_client N = with_client N ''127.0.0.1:8081'' (
     await (ct_set_keep_alive N True) (\<lambda>_. shutdown_example_loop N [0..<10]))"

text \<open>
  The program starts the server and the client as tasks, \<open>shutdown_example_server\<close> and
  \<open>shutdown_example_client\<close>; starting and joining a task is the runtime's.
\<close>

datatype shutdown_task = ServerTask | ClientTask

definition shutdown_example_main ::
  "('h, 'l, 'acc, 'w) runtime \<Rightarrow> (shutdown_task \<Rightarrow> 'w \<Rightarrow> 'w) \<Rightarrow> (shutdown_task \<Rightarrow> ('w, unit) fut) \<Rightarrow>
     ('c, 'w, box_error + unit) act" where
  "shutdown_example_main R spawn join_task =
     world (spawn ServerTask) (world (spawn ClientTask) (
       await (io (net_sleep R (from_secs 3))) (\<lambda>_. world (sv_shutdown_handle R True) (
       await (io (join_task ServerTask)) (\<lambda>_.
       await (io (join_task ClientTask)) (\<lambda>_. ret (Inr ())))))))"

subsection \<open>The high-level client against the high-level server\<close>

abbreviation fresh_echo :: "echo_handler \<times> u64" where
  "fresh_echo \<equiv> (\<lparr>eh_requests = 0\<rparr>, 0)"

lemma ascii_length [simp]: "length (ascii s) = length s"
  by (simp add: ascii_def)

lemma decimal_3: "decimal 3 = ascii ''3''"
  by (simp add: decimal.simps ascii_def)

lemma stats_text_length: "length (stats_text 3 3) = 61"
  by (simp add: stats_text_def decimal_3)

lemma utf8_lossy_ascii: "utf8_lossy (ascii ''shout it'') = ascii ''shout it''"
  by (rule utf8_lossy_valid, rule utf8_valid_ascii) (auto simp: ascii_def)

text \<open>The example that is to show how a connection survives an application error does not keep it.
  Against the server of the example the first three requests come back as the comments say, with
  the third request of the connection counted; the unknown command is reported as a
  \<open>ResponseError\<close> with the status \<open>Error\<close>; and after it the client has dropped its stream, so that the
  request that is to run "still alive" on the same connection opens another one.\<close>

theorem unknown_command_ends_connection:
  assumes "reliable_conn N h (server_out k (echo_run up) conn fresh_echo) sent got" "undisturbed N" "client_ready h c"
    and "\<And>w. sent (net_close N h w) = sent w \<and> got (net_close N h w) = got w"
    and "\<And>k w. sent (tn_abort N k w) = sent w \<and> got (tn_abort N k w) = got w"
    and "server_ok slimit conn" "15 \<le> slimit" "61 \<le> ct_max_buffer_size c"
    and "length (up (ascii ''shout it'')) \<le> ct_max_buffer_size c" "length (up (ascii ''shout it'')) < 2 ^ 32"
    and "sent w = []" "got w = []"
  shows "\<exists>c' w'. high_level_requests N dl c w =
      (Ready (Inr ([ascii ''Hello, wagonet!'', up (ascii ''shout it''), stats_text 3 3], Inl (ResponseError 3))), c', w') \<and>
    sh_stream c' = None"
proof -
  let ?f = "echo_run up" and ?u = fresh_echo and ?up = "up (ascii ''shout it'')"
  let ?rs = "[ascii ''Hello, wagonet!'', ?up, stats_text 3 3]"
  let ?Q = "\<lambda>r c' l'. r = Inr (?rs, Inl (ResponseError 3)) \<and> sh_stream c' = None"
  define at where "at es = (in_bytes es, out_bytes ?f ?u es)" for es
  define e1 where "e1 = [Message (CMD_ECHO, ascii ''Hello, wagonet!'')]"
  define e2 where "e2 = e1 @ [Message (CMD_UPPERCASE, ascii ''shout it'')]"
  define e3 where "e3 = e2 @ [Message (CMD_STATS, [])]"
  have acc: "acceptable slimit (CMD_ECHO, ascii ''Hello, wagonet!'')" "acceptable slimit (CMD_UPPERCASE, ascii ''shout it'')"
    "acceptable slimit (CMD_STATS, [])" "acceptable slimit (999, ascii ''nope'')"
    using assms(7) by (simp_all add: acceptable_def cmd_defs)
  have f: "?f ?u CMD_ECHO x = ((\<lparr>eh_requests = 1\<rparr>, 1), Inr (Ok, x))"
    "?f (\<lparr>eh_requests = 1\<rparr>, 1) CMD_UPPERCASE x = ((\<lparr>eh_requests = 2\<rparr>, 2), Inr (Ok, up (utf8_lossy x)))"
    "?f (\<lparr>eh_requests = 2\<rparr>, 2) CMD_STATS x = ((\<lparr>eh_requests = 3\<rparr>, 3), Inr (Ok, stats_text 3 3))"
    "snd (?f (\<lparr>eh_requests = 3\<rparr>, 3) 999 x) = Inl (error_from_str (Fmt ''unknown command: {}'' [999]))" for x
    by (simp_all add: echo_run_def Let_def cmd_defs)
  have u: "state_after ?f ?u e1 = (\<lparr>eh_requests = 1\<rparr>, 1)" "state_after ?f ?u e2 = (\<lparr>eh_requests = 2\<rparr>, 2)"
    "state_after ?f ?u e3 = (\<lparr>eh_requests = 3\<rparr>, 3)"
    by (simp_all add: e1_def e2_def e3_def f state_after_append)
  have session: "session_open ?f slimit ?u e1" "session_open ?f slimit ?u e2" "session_open ?f slimit ?u e3"
    using acc by (simp_all add: e1_def e2_def e3_def f session_open_append)
  have call: "runs sent got Q (ct_handle_message N cmd data) d (at es)"
    if "client_ready h d" "ct_max_buffer_size d = ct_max_buffer_size c" "session_open ?f slimit ?u es"
      "acceptable slimit (cmd, data)" "?f (state_after ?f ?u es) cmd data = (v, Inr (Ok, out))"
      "length out \<le> ct_max_buffer_size c" "length out < 2 ^ 32"
      "\<And>d'. client_ready h d' \<Longrightarrow> ct_max_buffer_size d' = ct_max_buffer_size c \<Longrightarrow>
        Q (Inr out) d' (at (es @ [Message (cmd, data)]))" for Q cmd data d es v out
    using runs_ct_message [OF assms(1,2) that(1,3) assms(6) that(4), unfolded fst_conv snd_conv, OF that(5)] that
    by (simp add: at_def)
  have unknown: "runs sent got ?Q (await (ct_handle_message N 999 (ascii ''nope'')) (\<lambda>unknown. ret (Inr (?rs, unknown)))) d (at e3)"
    if "client_ready h d" "ct_max_buffer_size d = ct_max_buffer_size c" for d
  proof (rule runs_await, rule runs_ct_handle_message_failed [OF assms(2) that(1)])
    have "answer_to ?f (state_after ?f ?u e3) (999, ascii ''nope'') = (StatusError, [])"
      by (simp add: u f answer_to_def)
    note failed = runs_ct_session_failed [OF assms(1) session(3) assms(6) acc(4) _ this, unfolded fst_conv snd_conv]
    show "runs sent got (\<lambda>r b l'. (\<exists>e. r = Inl e) \<and> (\<forall>c'. sh_stream c' = None \<longrightarrow> runs sent got ?Q (ret (Inr (?rs, r))) c' l'))
        (ct_exchange N h 999 (ascii ''nope'') (ct_timeout_config d) True (ct_max_buffer_size d)) (ct_buffer d) (at e3)"
      unfolding at_def
      by (rule failed) (use that(1) in \<open>auto simp: client_ready_def ct_wf_def status_as_u8_def intro: runs_ret\<close>)
  qed (simp_all add: assms(4,5))
  have stats: "runs sent got ?Q (await_try (ct_handle_message N CMD_STATS []) (\<lambda>c.
      await (ct_handle_message N 999 (ascii ''nope'')) (\<lambda>unknown.
        ret (Inr ([ascii ''Hello, wagonet!'', ?up, c], unknown))))) d (at e2)"
    if "client_ready h d" "ct_max_buffer_size d = ct_max_buffer_size c" for d
    by (rule runs_await_try, rule call [where ?out1 = "stats_text 3 3", OF that session(2) acc(3)])
       (use unknown assms(8) in \<open>simp_all add: u f stats_text_length flip: e3_def\<close>)
  have upper: "runs sent got ?Q (await_try (ct_handle_message N CMD_UPPERCASE (ascii ''shout it'')) (\<lambda>b.
      await_try (ct_handle_message N CMD_STATS []) (\<lambda>c.
      await (ct_handle_message N 999 (ascii ''nope'')) (\<lambda>unknown.
        ret (Inr ([ascii ''Hello, wagonet!'', b, c], unknown)))))) d (at e1)"
    if "client_ready h d" "ct_max_buffer_size d = ct_max_buffer_size c" for d
    by (rule runs_await_try, rule call [where ?out1 = ?up, OF that session(1) acc(2)])
       (use stats assms(9,10) in \<open>simp_all add: u f utf8_lossy_ascii flip: e2_def\<close>)
  have "runs sent got ?Q (high_level_requests N) c (at [])"
    unfolding high_level_requests_def
    by (rule runs_await_try, rule call [where ?out1 = "ascii ''Hello, wagonet!''", OF assms(3) refl _ acc(1)])
       (use upper assms(8) in \<open>simp_all add: f flip: e1_def\<close>)
  then have "runs sent got ?Q (high_level_requests N) c ([], [])" by (simp add: at_def)
  from this assms(11,12) show ?thesis by (rule runsE [where dl = dl]) auto
qed

theorem unknown_command_ends_connection_witness:
  "\<exists>c' w'. high_level_requests (pipe_client 0 (server_out 0 (echo_run id) served fresh_echo) (\<lambda>_. False)) None
      connected_client pipe_start =
      (Ready (Inr ([ascii ''Hello, wagonet!'', ascii ''shout it'', stats_text 3 3], Inl (ResponseError 3))), c', w') \<and>
    sh_stream c' = None"
proof -
  have "sent (net_close (pipe_client 0 p (\<lambda>_. False)) () w) = sent w" "sent (tn_abort (pipe_client 0 p (\<lambda>_. False)) j w) = sent w"
    for p j w and sent :: "pipe \<Rightarrow> byte list"
    by (simp_all add: pipe_client_def)
  note local = this
  from unknown_command_ends_connection [OF pipe_client_reliable [where k = 0 and closed = "\<lambda>_. False" and
        peer = "server_out 0 (echo_run id) served fresh_echo"] pipe_client_undisturbed connected_client_ready _ _ served_ok,
      where dl = None and w = pipe_start]
  show ?thesis
    by (simp add: local connected_client_limit DEFAULT_MAX_BUFFER_SIZE_def)
qed

subsection \<open>The no-answer mode against a server that answers\<close>

context reliable_conn
begin

text \<open>Without answers both response headers are read as one byte.\<close>

lemma runs_ct_receive_short_header:
  assumes "8 \<le> vcap b" "drop (length G) (peer S) = x # rest"
    and "Q (Inr \<lparr>rs_status = x, rs_data_size = 0\<rparr>) (Vec [] (vcap b)) (S, G @ [x])"
  shows "runs sent got Q (ct_receive_response_header N h d False tmo limit) b (S, G)"
  using assms unfolding ct_receive_response_header_def
  by - (cases d; (rule exec_rules | simp add: ct_exec)+)

lemma runs_ct_exchange_no_answer:
  assumes "room limit b" "length data < 2 ^ 32"
    and "drop (length G) (peer (S @ request_bytes cmd (usize_as_u32 (length data)))) = 1 # r1"
    and "drop (length G + 1) (peer (S @ request_bytes cmd (usize_as_u32 (length data)) @ data)) = 1 # r2"
    and "Q (Inr []) (Vec [] (vcap b))
      (S @ request_bytes cmd (usize_as_u32 (length data)) @ data @ [1], G @ [1, 1])"
  shows "runs sent got Q (ct_exchange N h cmd data cfg False limit) b (S, G)"
  unfolding ct_exchange_def
  apply (rule runs_await_try, rule runs_ct_send_message)
  using assms(1) apply (simp add: room_def)
  apply (rule assms(2), rule assms(3))
  apply simp
  apply (unfold ct_receive_message_def)
  apply (rule runs_await_try, rule runs_ct_receive_short_header)
  using assms apply (simp_all add: room_def add.commute)
  apply (intro conjI impI)
   apply simp
  apply (rule runs_await_try, rule runs_ct_send_ack)
   apply (simp_all add: runs_set_self runs_ret vec_clear_def)
  done

end

text \<open>A client with a kept connection that expects no answers.\<close>

definition client_mute :: "'h \<Rightarrow> 'h client_tl \<Rightarrow> bool" where
  "client_mute h c \<longleftrightarrow> ct_wf c \<and> ct_keep_alive c \<and> sh_stream c = Some h \<and> \<not> ct_command_has_answer c"

lemma runs_mute_message:
  assumes "undisturbed N" "client_mute h c"
    and "\<And>w. sent (net_close N h w) = sent w \<and> got (net_close N h w) = got w"
    and "\<And>k w. sent (tn_abort N k w) = sent w \<and> got (tn_abort N k w) = got w"
    and "runs sent got (\<lambda>r b l'. case r of
          Inr d \<Rightarrow> vcap b = vcap (ct_buffer c) \<and> (\<forall>c'. client_mute h c' \<longrightarrow> Q (Inr d) c' l')
        | Inl e \<Rightarrow> (\<forall>c'. sh_stream c' = None \<longrightarrow> Q (Inl e) c' l'))
      (ct_exchange N h cmd data (ct_timeout_config c) False (ct_max_buffer_size c)) (ct_buffer c) l"
  shows "runs sent got Q (ct_handle_message N cmd data) c l"
  using assms(1-4) unfolding ct_handle_message_def ct_handle_locked_def put_stream_def stop_ping_task_def
  by (auto simp: wait_lock_undisturbed set_in_flight_def update_ping_def client_mute_def ct_wf_def room_def
      split: sum.splits option.split intro!: exec_rules runs_mono [OF assms(5)])

lemma first_byte_of_size:
  assumes "unat (n :: u32) < 2 ^ 24"
  shows "\<exists>rest. to_be_bytes n = 0 # rest"
proof -
  have "unat (drop_bit 24 n) = 0"
    using assms unfolding unsigned_drop_bit_eq by (simp add: drop_bit_eq_div take_bit_nat_eq_self)
  then have "drop_bit 24 n = 0" by (simp add: unat_eq_0)
  then show ?thesis by (simp add: to_be_bytes_def)
qed

text \<open>C40: the no-answer mode does not work with this crate's own servers. A server that answers in its
  usual way writes an acknowledgement and a five-byte header; the client takes one byte of the
  header, reports success with no payload, and leaves the size in the stream. Unless the answer has
  sixteen megabytes the next message reads a zero where its acknowledgement should be: it fails with
  \<open>ResponseError 0\<close>, its payload unsent, and the connection is given up.\<close>

theorem no_answer_mode_desynchronizes:
  assumes "reliable_conn N h peer sent got" "undisturbed N" "client_mute h c"
    and "\<And>w. sent (net_close N h w) = sent w \<and> got (net_close N h w) = got w"
    and "\<And>k w. sent (tn_abort N k w) = sent w \<and> got (tn_abort N k w) = got w"
    and "\<And>x y. prefix (peer x) (peer (x @ y))" "length data < 2 ^ 32" "unat n < 2 ^ 24"
    and "prefix (got w @ [1]) (peer (sent w @ request_bytes cmd (usize_as_u32 (length data))))"
    and "prefix (got w @ [1] @ response_bytes 1 n) (peer (sent w @ request_bytes cmd (usize_as_u32 (length data)) @ data))"
  shows "\<exists>c1 w1 c2 w2. ct_handle_message N cmd data dl c w = (Ready (Inr []), c1, w1) \<and>
    ct_handle_message N cmd' data' dl' c1 w1 = (Ready (Inl (ResponseError 0)), c2, w2) \<and> sh_stream c2 = None \<and>
    sent w2 = sent w1 @ request_bytes cmd' (usize_as_u32 (length data'))"
proof -
  let ?h = "request_bytes cmd (usize_as_u32 (length data))" and ?G = "got w" and ?S = "sent w"
  obtain rest where size: "to_be_bytes n = 0 # rest" using first_byte_of_size [OF assms(8)] by blast
  obtain r1 where r1: "drop (length ?G) (peer (?S @ ?h)) = 1 # r1"
    using prefix_drop [OF assms(9)] by auto
  obtain r2 where r2: "drop (length ?G + 1) (peer (?S @ ?h @ data)) = 1 # r2"
    using prefix_drop3 [OF assms(10)] by (auto simp: response_bytes_def)
  have all: "prefix (?G @ [1, 1] @ 0 # rest) (peer (?S @ ?h @ data))"
    using assms(10) by (simp add: response_bytes_def size)
  have first: "runs sent got (\<lambda>r c' l'. r = Inr [] \<and> client_mute h c' \<and> l' = (?S @ ?h @ data @ [1], ?G @ [1, 1]))
      (ct_handle_message N cmd data) c (?S, ?G)"
    by (rule runs_mute_message [OF assms(2-5)], rule reliable_conn.runs_ct_exchange_no_answer [OF assms(1) _ assms(7) r1 r2])
       (use assms(3) in \<open>auto simp: client_mute_def ct_wf_def\<close>)
  have "prefix (?G @ [1, 1] @ 0 # rest) (peer ((?S @ ?h @ data @ [1]) @ y))" for y
    using assms(6) [of "?S @ ?h @ data" "[1] @ y"] all by (simp add: prefix_order.trans)
  then have r3: "\<exists>r3. drop (length (?G @ [1, 1])) (peer ((?S @ ?h @ data @ [1]) @ y)) = 0 # r3" for y
    using prefix_drop [of "?G @ [1, 1]" "0 # rest"] by fastforce
  have second: "runs sent got (\<lambda>r c' l'. r = Inl (ResponseError 0) \<and> sh_stream c' = None \<and>
        l' = ((?S @ ?h @ data @ [1]) @ request_bytes cmd' (usize_as_u32 (length data')), (?G @ [1, 1]) @ [0]))
      (ct_handle_message N cmd' data') c1 (?S @ ?h @ data @ [1], ?G @ [1, 1])" if "client_mute h c1" for c1
  proof -
    obtain r3 where "drop (length (?G @ [1, 1])) (peer ((?S @ ?h @ data @ [1]) @ request_bytes cmd' (usize_as_u32 (length data')))) = 0 # r3"
      using r3 by blast
    note rejected = reliable_conn.runs_ct_exchange_rejected [OF assms(1) _ this]
    show ?thesis
      by (rule runs_mute_message [OF assms(2) that assms(4,5)], rule rejected)
         (use that in \<open>auto simp: client_mute_def ct_wf_def\<close>)
  qed
  from first obtain c1 w1 where one: "ct_handle_message N cmd data dl c w = (Ready (Inr []), c1, w1)"
      "client_mute h c1" "sent w1 = ?S @ ?h @ data @ [1]" "got w1 = ?G @ [1, 1]"
    by (rule runsE [where dl = dl, OF _ refl refl]) auto
  from second [OF one(2)] one(3,4) obtain c2 w2 where
    "ct_handle_message N cmd' data' dl' c1 w1 = (Ready (Inl (ResponseError 0)), c2, w2)" "sh_stream c2 = None"
    "sent w2 = (?S @ ?h @ data @ [1]) @ request_bytes cmd' (usize_as_u32 (length data'))"
    by (rule runsE [where dl = dl']) auto
  with one(1,3) show ?thesis by auto
qed

text \<open>The server's answer "hi" to any request of one byte, as it goes on the wire.\<close>

definition answering :: "byte list \<Rightarrow> byte list" where
  "answering s = (if length s < 8 then [] else if length s < 9 then [1] else [1, 1, 0, 0, 0, 2])"

theorem no_answer_mode_desynchronizes_witness:
  "\<exists>c1 w1 c2 w2. ct_handle_message (pipe_client 0 answering (\<lambda>_. False)) 42 [7] None
      (connected_client\<lparr>ct_command_has_answer := False\<rparr>) pipe_start = (Ready (Inr []), c1, w1) \<and>
    ct_handle_message (pipe_client 0 answering (\<lambda>_. False)) 42 [8] None c1 w1 = (Ready (Inl (ResponseError 0)), c2, w2) \<and>
    sh_stream c2 = None"
proof -
  have mute: "client_mute () (connected_client\<lparr>ct_command_has_answer := False\<rparr>)"
    using connected_client_ready by (simp add: client_ready_def client_mute_def ct_wf_def)
  have local: "pw_sent (net_close (pipe_client 0 p (\<lambda>_. False)) () w) = pw_sent w"
    "pw_got (net_close (pipe_client 0 p (\<lambda>_. False)) () w) = pw_got w"
    "tn_abort (pipe_client 0 p (\<lambda>_. False)) j w = w" for p j w
    by (simp_all add: pipe_client_def)
  have grows: "prefix (answering x) (answering (x @ y))" for x y
    by (simp add: answering_def)
  have first: "prefix (pw_got pipe_start @ [1]) (answering (pw_sent pipe_start @ request_bytes 42 (usize_as_u32 (length [7 :: byte]))))"
    "prefix (pw_got pipe_start @ [1] @ response_bytes 1 2)
       (answering (pw_sent pipe_start @ request_bytes 42 (usize_as_u32 (length [7 :: byte])) @ [7]))"
    by (simp_all add: pipe_start_def answering_def response_bytes_def to_be_bytes_def)
  show ?thesis
    using no_answer_mode_desynchronizes [OF pipe_client_reliable [where k = 0 and closed = "\<lambda>_. False" and peer = answering]
        pipe_client_undisturbed mute _ _ grows _ _ first, where dl = None and dl' = None and cmd' = 42 and data' = "[8]"]
    by (auto simp: local)
qed

end
