(* ===== verification/Client_Dialogue.thy ===== *)
theory Client_Dialogue
  imports Dialogue Example_Clients
begin

section \<open>The client in a dialogue\<close>

text \<open>
  The plain client over a connection of its own: \<open>dial N\<close> is the network \<open>N\<close> on a host
  where nothing else runs and \<open>connect\<close> finds the peer. A message is six turns; against a peer that answers them the exchange gives the
  response. Connecting, the settings and closing say nothing.
\<close>

definition dial :: "(unit, 'w) net \<Rightarrow> (unit, 'w) client_net" where
  "dial N =
     \<lparr>net_now = net_now N, net_read = net_read N, net_write_all = net_write_all N, net_flush = net_flush N,
      net_shutdown = net_shutdown N, net_close = net_close N, net_sleep = net_sleep N,
      tn_spawn = (\<lambda>w. (0, w)), tn_abort = (\<lambda>k w. w), tn_others = ret (),
      cn_tcp_connect = (\<lambda>a dl w. (Ready (Inr ()), w)),
      cn_set_tcp_keepalive = (\<lambda>h ka w. w), cn_set_keepalive = (\<lambda>h b w. w)\<rparr>"

definition message_turns :: "u32 \<Rightarrow> byte list \<Rightarrow> byte list \<Rightarrow> turn list" where
  "message_turns cmd data out =
     [Gives (request_bytes cmd (usize_as_u32 (length data))), Takes [1], Gives data,
      Takes (response_bytes 1 (usize_as_u32 (length out))), Gives [1], Takes out]"

text \<open>What the steps of a client rely on: the host of \<open>dial\<close>, maybe with a TLS stack beside it.\<close>

locale dialled =
  fixes N :: "(unit, pipe, 'y) client_net_scheme" and k :: nat
    and peer :: "byte list \<Rightarrow> byte list" and closed :: "byte list \<Rightarrow> bool"
  assumes network: "client_net.truncate N = dial (pipe_net k peer closed)"
begin

lemma host_simps [simp]:
  "net_close N h w = w" "tn_abort N i w = w" "tn_spawn N w = (0, w)" "cn_set_keepalive N h b w = w"
  "cn_set_tcp_keepalive N h ka w = w" "cn_tcp_connect N a dl w = (Ready (Inr ()), w)"
  "net_shutdown N h dl w = (Ready (Inr ()), w)" "net_sleep N = pipe_sleep" "net_now N = pw_now"
  "net_read N h = pipe_read k peer closed" "tn_others N = ret ()" "net_flush N h dl w = (Ready (Inr ()), w)"
  "net_write_all N h bs dl w = (Ready (Inr ()), w\<lparr>pw_sent := pw_sent w @ bs\<rparr>)"
  using network by (simp_all add: dial_def client_net.truncate_def)

lemma alone_here: "undisturbed N"
  by (simp add: undisturbed_def)

lemmas no_wait = wait_lock_undisturbed [OF alone_here]

lemma reliable: "reliable_conn N () peer pw_sent pw_got"
  by (rule reliable_conn_cong [OF pipe.reliable_conn_axioms [where k = k and peer = peer and closed = closed]])
     (use network in \<open>simp_all add: dial_def client_net.truncate_def\<close>)

end

interpretation plain_host: dialled "dial (pipe_net k peer closed)" k peer closed
  by unfold_locales (simp add: dial_def client_net.truncate_def)

lemma prefix_next: "prefix (G @ bs) S \<Longrightarrow> \<exists>rest. drop (length G) S = bs @ rest"
  by (auto simp: prefix_def)

context reliable_conn
begin

lemma runs_ct_exchange_turns:
  assumes "agrees peer S G (message_turns cmd data out @ t)" "room limit b" "length data < 2 ^ 32"
    and "length out \<le> limit" "length out < 2 ^ 32"
    and "\<And>d. agrees peer (S @ given (message_turns cmd data out)) (G @ taken (message_turns cmd data out)) t \<Longrightarrow>
      Q (Inr out) (Vec d (vcap b)) (S @ given (message_turns cmd data out), G @ taken (message_turns cmd data out))"
  shows "runs sent got Q (ct_exchange N h cmd data cfg True limit) b (S, G)"
proof -
  let ?r = "request_bytes cmd (usize_as_u32 (length data))" and ?h = "response_bytes 1 (usize_as_u32 (length out))"
  have ag: "prefix (G @ [1]) (peer (S @ ?r))" "prefix ((G @ [1]) @ ?h) (peer ((S @ ?r) @ data))"
    "prefix (((G @ [1]) @ ?h) @ out) (peer (((S @ ?r) @ data) @ [1]))"
    "agrees peer (S @ given (message_turns cmd data out)) (G @ taken (message_turns cmd data out)) t"
    using assms(1) by (simp_all add: message_turns_def)
  obtain r1 r2 r3 where "drop (length G) (peer (S @ ?r)) = 1 # r1"
    "drop (length G + 1) (peer (S @ ?r @ data)) = ?h @ r2"
    "drop (length G + 6) (peer (S @ ?r @ data @ [1])) = out @ r3"
    using ag(1-3) [THEN prefix_next] by auto
  moreover have "\<forall>d. Q (Inr out) (Vec d (vcap b)) (S @ ?r @ data @ [1], G @ [1] @ ?h @ out)"
    using assms(6) [OF ag(4)] by (simp add: message_turns_def)
  ultimately show ?thesis
    by (intro runs_ct_exchange [where n = "usize_as_u32 (length out)"])
       (use assms(2-5) in \<open>simp_all add: unat_usize_as_u32_small\<close>)
qed

end

subsection \<open>Settings, connecting and closing\<close>

abbreviation dial_runs where
  "dial_runs Q m c l \<equiv> runs_free pw_sent pw_got Q m c l"

lemma runs_free_effects:
  assumes "\<And>w. pw_sent w = fst l \<Longrightarrow> pw_got w = snd l \<Longrightarrow> \<exists>a c' w'. m None c w = (Ready a, c', w') \<and>
      pw_sent w' = fst l \<and> pw_got w' = snd l \<and> Q a c' l"
  shows "dial_runs Q m c l"
  unfolding runs_free_def logs_are_def using assms by (metis prod.collapse)

lemma runs_free_ret: "Q a c l \<Longrightarrow> runs_free sent got Q (ret a) c l"
  by (rule runs_free_runs, rule runs_ret)

context dialled
begin

lemma runs_sleep:
  assumes "Q () c l"
  shows "dial_runs Q (io (net_sleep N d)) c l"
  by (rule runs_free_effects) (use assms in \<open>simp add: act_simps pipe_sleep_def\<close>)

lemma runs_set_keep_alive:
  assumes "\<And>pg. Q () (c\<lparr>ct_keep_alive := True, sh_ping := pg\<rparr>) l"
  shows "dial_runs Q (ct_set_keep_alive N True) c l"
  by (rule runs_free_effects) (use assms in \<open>simp add: ct_set_keep_alive_def act_simps no_wait update_ping_def\<close>)

lemma runs_set_timeout_config:
  assumes "validate (with_ping_interval cfg (tc_ping_interval cfg)) = Inr ()"
    and "\<And>pg. Q (Inr ()) (c\<lparr>sh_ping := pg, ct_timeout_config := with_ping_interval cfg (tc_ping_interval cfg)\<rparr>) l"
  shows "dial_runs Q (ct_set_timeout_config N cfg) c l"
  by (rule runs_free_effects)
     (use assms in \<open>simp add: ct_set_timeout_config_def act_simps Let_def no_wait update_ping_def\<close>)

lemma runs_connect:
  assumes "sh_stream c = None" and "\<And>pg. Q (Inr ()) (c\<lparr>sh_stream := Some (), sh_ping := pg\<rparr>) l"
  shows "dial_runs Q (ct_connect N) c l"
proof -
  have "\<exists>pg. ct_connect N None c w = (Ready (Inr ()), c\<lparr>sh_stream := Some (), sh_ping := pg\<rparr>, w)" for w
    using assms(1)
    by (auto simp: ct_connect_def timed_unfold Let_def ct_connect_loop.simps [of _ 0] DEFAULT_MAX_CONNECT_RETRIES_def
        timeout_def act_simps ct_connected_def ct_configure_socket_def effect_def put_stream_def stop_ping_task_def
        start_ping_task_def no_wait update_ping_def
        split: option.split)
  with assms(2) show ?thesis
    by (intro runs_free_effects) metis
qed

lemma runs_disconnect:
  assumes "\<And>c'. Q (Inr ()) c' l"
  shows "dial_runs Q (ct_disconnect N) c l"
proof -
  have "\<exists>c'. ct_disconnect N None c w = (Ready (Inr ()), c', w)" for w
    by (auto simp: ct_disconnect_def act_simps put_stream_def stop_ping_task_def effect_def no_wait split: option.split)
  with assms show ?thesis
    by (intro runs_free_effects) metis
qed

lemma drop_keeps_world: "\<exists>u c'. ct_drop N dl c w = (u, c', w)"
  by (simp add: ct_drop_def act_simps effect_def put_stream_def split: option.split)

lemma runs_with_client:
  assumes "\<And>now. dial_runs (\<lambda>r c' l. Q r () l) m (ct_new now address) l"
  shows "dial_runs Q (with_client N address m) () l"
proof (rule runs_freeI)
  fix w :: pipe assume w: "pw_sent w = fst l" "pw_got w = snd l"
  from assms [of "pw_now w"] w obtain r c' w' where run: "m None (ct_new (pw_now w) address) w = (Ready r, c', w')"
    "Q r () (pw_sent w', pw_got w')"
    by (auto simp: runs_free_def logs_are_def)
  with drop_keeps_world [of None c' w']
  show "\<exists>a c' w'. with_client N address m None () w = (Ready a, c', w') \<and> Q a c' (pw_sent w', pw_got w')"
    by (auto simp: with_client_def)
qed

text \<open>A message.\<close>

lemma runs_message:
  assumes "agrees peer S G (message_turns cmd data out @ t)" "client_ready () c" "length data < 2 ^ 32"
    and "length out \<le> ct_max_buffer_size c" "length out < 2 ^ 32"
    and "\<And>c'. client_ready () c' \<Longrightarrow> ct_max_buffer_size c' = ct_max_buffer_size c \<Longrightarrow>
      agrees peer (S @ given (message_turns cmd data out)) (G @ taken (message_turns cmd data out)) t \<Longrightarrow>
      Q (Inr out) c' (S @ given (message_turns cmd data out), G @ taken (message_turns cmd data out))"
  shows "runs pw_sent pw_got Q (ct_handle_message N cmd data) c (S, G)"
proof (rule runs_ct_handle_message [OF alone_here assms(2)])
  have "room (ct_max_buffer_size c) (ct_buffer c)"
    using assms(2) by (simp add: client_ready_def ct_wf_def)
  then show "runs pw_sent pw_got (\<lambda>r b l'. (\<exists>d. r = Inr d) \<and> vcap b = vcap (ct_buffer c) \<and>
      (\<forall>c'. client_ready () c' \<longrightarrow> ct_max_buffer_size c' = ct_max_buffer_size c \<longrightarrow> Q r c' l'))
    (ct_exchange N () cmd data (ct_timeout_config c) True (ct_max_buffer_size c)) (ct_buffer c) (S, G)"
    by (intro reliable_conn.runs_ct_exchange_turns [OF reliable assms(1)])
       (use assms(3-6) in auto)
qed

end

subsection \<open>The TLS client\<close>

text \<open>
  The same host with a TLS stack. Its connectors check the certificate of the server unless they were
  built to accept invalid ones: \<open>verdict domain\<close> is what the check says of the server's certificate for
  that name, \<open>None\<close> when the host trusts it. A handshake that succeeds leaves the stream as it is.
\<close>

definition dial_tls :: "(string \<Rightarrow> tls_error option) \<Rightarrow> (unit, 'w) net \<Rightarrow> (unit, bool, 'w) tls_client_net" where
  "dial_tls verdict N = client_net.extend (dial N)
     \<lparr>cn_tls_build = (\<lambda>accept_invalid. Inr accept_invalid),
      cn_tls_connect = (\<lambda>accept_invalid domain h dl w.
        (Ready (case if accept_invalid then None else verdict domain of None \<Rightarrow> Inr h | Some e \<Rightarrow> Inl e), w))\<rparr>"

locale dialled_tls = dialled N k peer closed
  for N :: "(unit, 'j, pipe) tls_client_net" and k :: nat
    and peer :: "byte list \<Rightarrow> byte list" and closed :: "byte list \<Rightarrow> bool" +
  fixes verdict :: "string \<Rightarrow> tls_error option"
  assumes builds: "\<exists>j. cn_tls_build N b = Inr j \<and> (\<forall>domain h dl w. cn_tls_connect N j domain h dl w =
      (Ready (case if b then None else verdict domain of None \<Rightarrow> Inr h | Some e \<Rightarrow> Inl e), w))"
begin

lemma runs_cs_set_keep_alive:
  assumes "\<And>pg. Q () (c\<lparr>cs_keep_alive := True, sh_ping := pg\<rparr>) l"
  shows "dial_runs Q (cs_set_keep_alive N True) c l"
  by (rule runs_free_effects) (use assms in \<open>simp add: cs_set_keep_alive_def act_simps no_wait update_ping_def\<close>)

lemma runs_cs_set_timeout_config:
  assumes "validate (with_ping_interval cfg (tc_ping_interval cfg)) = Inr ()"
    and "\<And>pg. Q (Inr ()) (c\<lparr>sh_ping := pg, cs_timeout_config := with_ping_interval cfg (tc_ping_interval cfg)\<rparr>) l"
  shows "dial_runs Q (cs_set_timeout_config N cfg) c l"
  by (rule runs_free_effects)
     (use assms in \<open>simp add: cs_set_timeout_config_def act_simps Let_def no_wait update_ping_def\<close>)

lemmas cs_connecting = cs_connect_def timed_unfold Let_def cs_connect_loop.simps [of _ _ 0] timeout_def act_simps
  DEFAULT_MAX_CONNECT_RETRIES_def cs_connected_def cs_configure_socket_def effect_def put_stream_def stop_ping_task_def
  start_ping_task_def no_wait update_ping_def

lemma runs_cs_connect:
  assumes "sh_stream c = None" "cs_domain c \<noteq> PLACEHOLDER_DOMAIN"
    and "cs_accept_invalid_certs c \<or> verdict (cs_domain c) = None"
    and "\<And>pg. Q (Inr ()) (c\<lparr>sh_stream := Some (), sh_ping := pg\<rparr>) l"
  shows "dial_runs Q (cs_connect N) c l"
proof -
  obtain j where j: "cn_tls_build N (cs_accept_invalid_certs c) = Inr j"
      "\<And>h dl w. cn_tls_connect N j (cs_domain c) h dl w = (Ready (Inr h), w)"
    using builds [of "cs_accept_invalid_certs c"] assms(3) by fastforce
  have "\<exists>pg. cs_connect N None c w = (Ready (Inr ()), c\<lparr>sh_stream := Some (), sh_ping := pg\<rparr>, w)" for w
    using assms(1,2) by (auto simp: cs_connecting j split: option.split)
  with assms(4) show ?thesis
    by (intro runs_free_effects) metis
qed

text \<open>A certificate that is not trusted ends the attempt at the handshake, before a byte is sent.\<close>

lemma runs_cs_connect_untrusted:
  assumes "cs_domain c \<noteq> PLACEHOLDER_DOMAIN"
    and "\<not> cs_accept_invalid_certs c" "verdict (cs_domain c) = Some e"
    and "Q (Inl (error_from_tls e)) c l"
  shows "dial_runs Q (cs_connect N) c l"
proof -
  obtain j where build: "cn_tls_build N (cs_accept_invalid_certs c) = Inr j"
      "\<forall>domain h dl w. cn_tls_connect N j domain h dl w =
        (Ready (case if cs_accept_invalid_certs c then None else verdict domain of None \<Rightarrow> Inr h | Some e \<Rightarrow> Inl e), w)"
    using builds by blast
  note j = build(1)
  have hand: "cn_tls_connect N j (cs_domain c) h dl w = (Ready (Inl e), w)" for h dl w
    using build(2) [rule_format, of "cs_domain c" h dl w] assms(2,3) by simp
  have "cs_connect N None c w = (Ready (Inl (error_from_tls e)), c, w)" for w
    using assms(1) by (auto simp: cs_connecting j hand split: option.split)
  with assms(4) show ?thesis
    by (intro runs_free_effects) metis
qed

lemma runs_cs_disconnect:
  assumes "\<And>c'. Q (Inr ()) c' l"
  shows "dial_runs Q (cs_disconnect N) c l"
proof -
  have "\<exists>c'. cs_disconnect N None c w = (Ready (Inr ()), c', w)" for w
    by (auto simp: cs_disconnect_def act_simps put_stream_def stop_ping_task_def effect_def no_wait split: option.split)
  with assms show ?thesis
    by (intro runs_free_effects) metis
qed

lemma runs_with_tls_client:
  assumes "\<And>now. dial_runs (\<lambda>r c' l. Q r () l) m (cs_new now address) l"
  shows "dial_runs Q (with_tls_client N address m) () l"
proof (rule runs_freeI)
  fix w :: pipe assume w: "pw_sent w = fst l" "pw_got w = snd l"
  from assms [of "pw_now w"] w obtain r c' w' where run: "m None (cs_new (pw_now w) address) w = (Ready r, c', w')"
    "Q r () (pw_sent w', pw_got w')"
    by (auto simp: runs_free_def logs_are_def)
  have "\<exists>u d. cs_drop N None c' w' = (u, d, w')"
    by (simp add: cs_drop_def act_simps effect_def put_stream_def split: option.split)
  with run show "\<exists>a c' w'. with_tls_client N address m None () w = (Ready a, c', w') \<and> Q a c' (pw_sent w', pw_got w')"
    by (auto simp: with_tls_client_def)
qed

lemma runs_cs_message:
  assumes "agrees peer S G (message_turns cmd data out @ t)" "client_ready () (cs_view c)" "length data < 2 ^ 32"
    and "length out \<le> cs_max_buffer_size c" "length out < 2 ^ 32"
    and "\<And>c'. client_ready () (cs_view c') \<Longrightarrow> cs_max_buffer_size c' = cs_max_buffer_size c \<Longrightarrow>
      agrees peer (S @ given (message_turns cmd data out)) (G @ taken (message_turns cmd data out)) t \<Longrightarrow>
      Q (Inr out) c' (S @ given (message_turns cmd data out), G @ taken (message_turns cmd data out))"
  shows "runs pw_sent pw_got Q (cs_handle_message N cmd data) c (S, G)"
proof (rule runs_cs_handle_message [OF alone_here])
  show "cs_keep_alive c" "sh_stream c \<noteq> None"
    using assms(2) by (auto simp: client_ready_def)
  show "runs pw_sent pw_got (\<lambda>r d l'. \<forall>c'. d = cs_view c' \<longrightarrow>
      (case r of Inr a \<Rightarrow> Q (Inr a) c' l' | Inl _ \<Rightarrow> \<forall>e. Q (Inl e) c' l'))
    (ct_handle_message N cmd data) (cs_view c) (S, G)"
    by (rule runs_message [OF assms(1-3) _ assms(5)]) (use assms(4,6) in auto)
qed

end

interpretation tls_host: dialled_tls "dial_tls verdict (pipe_net k peer closed)" k peer closed verdict
  by unfold_locales (auto simp: dial_tls_def dial_def client_net.defs split: option.split)

end
