(* ===== verification/Keep_Alive.thy ===== *)
theory Keep_Alive
  imports Timing Client_Dialogue
begin

section \<open>When pings are sent\<close>

text \<open>
  The background task checks the time of the last activity every quarter of the ping interval, and at
  least every 100 ms. So an idle client pings at the first check at or after the interval, which
  need not be the interval itself; how late that is decides whether the server's header timeout is
  kept off. The times are exact, on the pipe and with nothing else going on.
\<close>

definition ping_checks :: "duration \<Rightarrow> nat" where
  "ping_checks interval = (interval + check_interval interval - 1) div check_interval interval"

definition ping_gap :: "duration \<Rightarrow> duration" where
  "ping_gap interval = ping_checks interval * check_interval interval"

lemma check_interval_pos: "0 < check_interval i"
  by (simp add: check_interval_def Let_def MIN_PING_CHECK_INTERVAL_def from_millis_def)

lemma ping_gap_bounds:
  assumes "0 < i"
  shows "i \<le> ping_gap i" "ping_gap i < i + check_interval i" "(ping_checks i - 1) * check_interval i < i" "0 < ping_checks i"
proof -
  let ?c = "check_interval i"
  have c: "0 < ?c" by (rule check_interval_pos)
  have split: "i + ?c - 1 = ping_checks i * ?c + (i + ?c - 1) mod ?c"
    unfolding ping_checks_def by (metis div_mult_mod_eq)
  have "(i + ?c - 1) mod ?c < ?c" using c by simp
  with split assms show gap: "i \<le> ping_gap i" "ping_gap i < i + ?c" unfolding ping_gap_def by linarith+
  from gap(1) assms show m: "0 < ping_checks i" by (cases "ping_checks i") (simp_all add: ping_gap_def)
  have "ping_checks i * ?c = (ping_checks i - 1) * ?c + ?c" using m by (cases "ping_checks i") simp_all
  with gap(2) show "(ping_checks i - 1) * ?c < i" unfolding ping_gap_def by linarith
qed

text \<open>An interval that is long enough and divisible is met exactly.\<close>

lemma ping_gap_exact:
  assumes "4 dvd i" "from_millis 400 \<le> i"
  shows "ping_gap i = i"
proof -
  obtain q where q: "i = 4 * q" using assms(1) by blast
  then have c: "check_interval i = q" "0 < q"
    using assms(2) by (simp_all add: check_interval_def Let_def PING_CHECK_DIVISOR_def MIN_PING_CHECK_INTERVAL_def from_millis_def)
  have "ping_checks i = (q - 1 + 4 * q) div q" using c by (simp add: ping_checks_def q algebra_simps)
  also have "\<dots> = 4" unfolding div_mult_self1 [OF c(2) [THEN less_imp_neq, symmetric]] using c(2) by simp
  finally show ?thesis using c(1) by (simp add: ping_gap_def q)
qed

subsection \<open>Rounds of the task\<close>

text \<open>An idle client: a stream, nothing in flight, the task not told to stop, no activity since \<open>t\<close>.\<close>

definition idle_since :: "nat \<Rightarrow> (unit, 'z) shared_scheme \<Rightarrow> bool" where
  "idle_since t s \<longleftrightarrow> sh_stream s = Some () \<and> \<not> pg_should_stop (sh_ping s) \<and> \<not> pg_in_flight (sh_ping s) \<and>
     pg_last_activity (sh_ping s) = t"

definition active_at :: "nat \<Rightarrow> (unit, 'z) shared_scheme \<Rightarrow> (unit, 'z) shared_scheme" where
  "active_at t = update_ping (\<lambda>p. p\<lparr>pg_last_activity := t\<rparr>)"

lemma active_at_simps [simp]:
  "sh_stream (active_at t s) = sh_stream s" "ping_interval (active_at t s) = ping_interval s"
  "idle_since t (active_at t s) \<longleftrightarrow> sh_stream s = Some () \<and> \<not> pg_should_stop (sh_ping s) \<and> \<not> pg_in_flight (sh_ping s)"
  "active_at t (active_at u s) = active_at t s"
  by (simp_all add: active_at_def update_ping_def idle_since_def)

lemma active_at_same: "idle_since t s \<Longrightarrow> active_at t s = s"
  by (simp add: active_at_def update_ping_def idle_since_def)

text \<open>A period is the checks up to the first one at or after the interval, and the ping.\<close>

definition idle_pinged :: "byte list \<Rightarrow> duration \<Rightarrow> pipe \<Rightarrow> pipe" where
  "idle_pinged req period w =
     w\<lparr>pw_sent := pw_sent w @ req, pw_got := pw_got w @ [1], pw_now := pw_now w + period\<rparr>"

abbreviation ping_period :: "duration \<Rightarrow> duration" where
  "ping_period interval \<equiv> ping_gap interval + PING_OLD_FORMAT_READ_TIMEOUT"

definition pinged_times :: "nat \<Rightarrow> duration \<Rightarrow> pipe \<Rightarrow> pipe" where
  "pinged_times n interval w =
     w\<lparr>pw_sent := pw_sent w @ concat (replicate n (request_bytes 0 0)), pw_got := pw_got w @ replicate n 1,
       pw_now := pw_now w + n * ping_period interval\<rparr>"

lemma pinged_times_rec:
  "pinged_times 0 i w = w"
  "pinged_times (Suc n) i w = pinged_times n i (idle_pinged (request_bytes 0 0) (ping_period i) w)"
  by (simp_all add: pinged_times_def idle_pinged_def algebra_simps)

text \<open>
  An action under a deadline that leaves it \<open>t\<close> more time.
\<close>

definition has_time :: "nat option \<Rightarrow> nat \<Rightarrow> bool" where
  "has_time dl t \<longleftrightarrow> (case dl of None \<Rightarrow> True | Some d \<Rightarrow> t \<le> d)"

lemma has_time_simps [simp]:
  "has_time None t" "has_time (Some d) t \<longleftrightarrow> t \<le> d" "has_time dl t \<Longrightarrow> \<not> outer_first dl t"
  "has_time dl t \<Longrightarrow> earlier dl t = t"
  by (cases dl; simp add: has_time_def)+

lemma has_time_mono: "has_time dl t \<Longrightarrow> u \<le> t \<Longrightarrow> has_time dl u"
  by (cases dl) (auto simp: has_time_def)

context dialled
begin

text \<open>A check before the interval is over does nothing; a deadline before the next check is met asleep.\<close>

lemma round_early:
  assumes "idle_since t s" "0 < ping_interval s" "pw_now w + check_interval (ping_interval s) < t + ping_interval s"
    and "has_time dl (pw_now w + check_interval (ping_interval s))"
  shows "ping_round N dl s w = (Ready True, s, w\<lparr>pw_now := pw_now w + check_interval (ping_interval s)\<rparr>)"
proof -
  have "pw_now w + check_interval (ping_interval s) - t < ping_interval s"
    using assms(2,3) by linarith
  with assms show ?thesis
    by (simp add: ping_round_def act_simps with_world_def pipe_sleep_def Let_def no_wait idle_since_def elapsed_since_activity_def)
qed

lemma round_asleep:
  assumes "outer_first (Some d) (pw_now w + check_interval (ping_interval s))" "pw_now w \<le> d"
  shows "ping_round N (Some d) s w = (Pending, s, w\<lparr>pw_now := d\<rparr>)"
  using assms
  by (simp add: ping_round_def act_simps pipe_sleep_def Let_def max_def)

text \<open>The check that finds the interval over pings; the answer takes the ten milliseconds the task waits for
  the size an old server would add.\<close>

lemma ping_answered:
  assumes "peer (pw_sent w) = pw_got w @ [1]" "\<not> closed (pw_sent w)" "has_time dl (pw_now w + PING_OLD_FORMAT_READ_TIMEOUT)"
  shows "receive_ping_response_impl N () d dl c w =
    (Ready (Inr ()), c, w\<lparr>pw_got := pw_got w @ [1], pw_now := pw_now w + PING_OLD_FORMAT_READ_TIMEOUT\<rparr>)"
  using assms
  by (simp add: receive_ping_response_impl_def act_simps timed_unfold timeout_def Let_def read_array_def read_exact_def
      read_exact_from.simps pipe_read_def vec_len_def vec_write_def)

lemma round_due:
  assumes "idle_since t s" "t + ping_interval s \<le> pw_now w + check_interval (ping_interval s)"
    and "peer (pw_sent w @ request_bytes 0 0) = pw_got w @ [1]" "\<not> closed (pw_sent w @ request_bytes 0 0)"
    and "has_time dl (pw_now w + check_interval (ping_interval s) + PING_OLD_FORMAT_READ_TIMEOUT)"
  shows "ping_round N dl s w =
    (let t' = pw_now w + check_interval (ping_interval s) + PING_OLD_FORMAT_READ_TIMEOUT in
     (Ready True, active_at t' s,
      w\<lparr>pw_sent := pw_sent w @ request_bytes 0 0, pw_got := pw_got w @ [1], pw_now := t'\<rparr>))"
proof -
  have enc: "request_encode (request_header_new 0 0) (vec_with_capacity request_encoded_len) = Inr (Vec (request_bytes 0 0) 8)"
    by (simp add: vec_with_capacity_def header_sizes request_encode_empty)
  have due: "\<not> pw_now w + check_interval (ping_interval s) - t < ping_interval s" using assms(2) by linarith
  have time: "has_time dl (pw_now w + check_interval (ping_interval s))"
    by (rule has_time_mono [OF assms(5)]) simp
  show ?thesis
    using assms(1,3-5) due time
    by (simp add: ping_round_def act_simps with_world_def pipe_sleep_def Let_def idle_since_def elapsed_since_activity_def
        with_in_flight_def set_in_flight_def ping_exchange_def send_ping_request_impl_def enc touch_activity_def effect_def
        update_ping_def active_at_def ping_answered no_wait)
qed

subsection \<open>From one ping to the next\<close>

text \<open>A number of checks that all come too early.\<close>

lemma task_waits:
  assumes "idle_since t s" "0 < ping_interval s" "pw_now w + n * check_interval (ping_interval s) < t + ping_interval s"
    and "has_time dl (pw_now w + n * check_interval (ping_interval s))"
  shows "ping_task N (n + fuel) dl s w =
    ping_task N fuel dl s (w\<lparr>pw_now := pw_now w + n * check_interval (ping_interval s)\<rparr>)"
  using assms(3,4)
proof (induction n arbitrary: w)
  case (Suc n)
  let ?c = "check_interval (ping_interval s)"
  let ?w = "w\<lparr>pw_now := pw_now w + ?c\<rparr>"
  have "pw_now w + ?c < t + ping_interval s"
    using Suc.prems(1) unfolding mult_Suc by linarith
  moreover have "has_time dl (pw_now w + ?c)"
    by (rule has_time_mono [OF Suc.prems(2)]) simp
  ultimately have "ping_round N dl s w = (Ready True, s, ?w)"
    by (intro round_early [OF assms(1,2)])
  moreover have "ping_task N (n + fuel) dl s ?w =
      ping_task N fuel dl s (?w\<lparr>pw_now := pw_now ?w + n * ?c\<rparr>)"
    by (rule Suc.IH) (use Suc.prems in \<open>simp_all add: algebra_simps\<close>)
  ultimately show ?case by (simp add: act_simps algebra_simps)
qed simp

lemma task_period:
  assumes "idle_since (pw_now w) s" "0 < ping_interval s" "peer (pw_sent w @ request_bytes 0 0) = pw_got w @ [1]"
    and "\<not> closed (pw_sent w @ request_bytes 0 0)" "has_time dl (pw_now w + ping_period (ping_interval s))"
  shows "ping_task N (ping_checks (ping_interval s) + fuel) dl s w =
    ping_task N fuel dl (active_at (pw_now w + ping_period (ping_interval s)) s)
      (idle_pinged (request_bytes 0 0) (ping_period (ping_interval s)) w)"
proof -
  let ?i = "ping_interval s" and ?c = "check_interval (ping_interval s)"
  obtain n where n: "ping_checks ?i = Suc n"
    using ping_gap_bounds(4) [OF assms(2)] by (cases "ping_checks ?i") auto
  let ?w = "w\<lparr>pw_now := pw_now w + n * ?c\<rparr>"
  have gap: "ping_gap ?i = n * ?c + ?c" by (simp add: ping_gap_def n)
  have "n * ?c < ?i" "?i \<le> n * ?c + ?c"
    using ping_gap_bounds(1,3) [OF assms(2)] by (simp_all add: n gap)
  moreover from calculation have
    "ping_task N (n + Suc fuel) dl s w = ping_task N (Suc fuel) dl s ?w"
    by (intro task_waits [OF assms(1,2)] has_time_mono [OF assms(5)]) (simp_all add: gap)
  moreover have "ping_round N dl s ?w =
      (Ready True, active_at (pw_now w + ping_period ?i) s, idle_pinged (request_bytes 0 0) (ping_period ?i) w)"
    using round_due [OF assms(1), of ?w dl] calculation(2) assms(3-5)
    by (simp add: Let_def idle_pinged_def gap add.assoc add.left_commute)
  ultimately show ?thesis by (simp add: n act_simps)
qed

text \<open>A deadline that falls between two checks is met asleep.\<close>

lemma task_idle_until:
  assumes "idle_since t s" "0 < ping_interval s" "pw_now w + n * check_interval (ping_interval s) < t + ping_interval s"
    and "pw_now w + n * check_interval (ping_interval s) \<le> d" "d < pw_now w + Suc n * check_interval (ping_interval s)"
  shows "ping_task N (n + Suc fuel) (Some d) s w = (Pending, s, w\<lparr>pw_now := d\<rparr>)"
proof -
  let ?c = "check_interval (ping_interval s)"
  have "ping_task N (n + Suc fuel) (Some d) s w =
      ping_task N (Suc fuel) (Some d) s (w\<lparr>pw_now := pw_now w + n * ?c\<rparr>)"
    by (rule task_waits [OF assms(1-3)]) (use assms(4) in simp)
  also have "\<dots> = (Pending, s, w\<lparr>pw_now := d\<rparr>)"
    using assms(4,5) round_asleep [where w = "w\<lparr>pw_now := pw_now w + n * ?c\<rparr>" and d = d and s = s]
    by (simp add: act_simps algebra_simps)
  finally show ?thesis .
qed

lemma task_periods:
  assumes "idle_since (pw_now w) s" "0 < ping_interval s" "has_time dl (pw_now w + n * ping_period (ping_interval s))"
    and "\<And>m. m < n \<Longrightarrow> peer (pw_sent w @ concat (replicate (Suc m) (request_bytes 0 0))) = pw_got w @ replicate (Suc m) 1 \<and>
      \<not> closed (pw_sent w @ concat (replicate (Suc m) (request_bytes 0 0)))"
  shows "ping_task N (n * ping_checks (ping_interval s) + fuel) dl s w =
    ping_task N fuel dl (active_at (pw_now w + n * ping_period (ping_interval s)) s)
      (pinged_times n (ping_interval s) w)"
  using assms
proof (induction n arbitrary: s w)
  case 0
  then show ?case by (simp add: pinged_times_rec active_at_same)
next
  case (Suc n)
  let ?i = "ping_interval s"
  let ?w = "idle_pinged (request_bytes 0 0) (ping_period ?i) w" and ?s = "active_at (pw_now w + ping_period ?i) s"
  have time: "has_time dl (pw_now w + ping_period ?i)"
    by (rule has_time_mono [OF Suc.prems(3)]) simp
  have answer: "peer (pw_sent w @ request_bytes 0 0) = pw_got w @ [1]" "\<not> closed (pw_sent w @ request_bytes 0 0)"
    using Suc.prems(4) [of 0] by simp_all
  have "ping_task N (Suc n * ping_checks ?i + fuel) dl s w =
      ping_task N (n * ping_checks ?i + fuel) dl ?s ?w"
    using task_period [OF Suc.prems(1,2) answer time, where fuel = "n * ping_checks ?i + fuel"] by (simp add: add.assoc)
  also have "\<dots> = ping_task N fuel dl
      (active_at (pw_now ?w + n * ping_period ?i) ?s) (pinged_times n ?i ?w)"
  proof (rule Suc.IH [of ?w ?s, unfolded active_at_simps(2)])
    show "idle_since (pw_now ?w) ?s" using Suc.prems(1) by (simp add: idle_pinged_def) (simp add: idle_since_def)
    show "peer (pw_sent ?w @ concat (replicate (Suc m) (request_bytes 0 0))) = pw_got ?w @ replicate (Suc m) 1 \<and>
        \<not> closed (pw_sent ?w @ concat (replicate (Suc m) (request_bytes 0 0)))" if "m < n" for m
      using Suc.prems(4) [of "Suc m"] that by (simp add: idle_pinged_def)
  qed (use Suc.prems(2,3) in \<open>simp_all add: idle_pinged_def algebra_simps\<close>)
  finally show ?case by (simp add: pinged_times_rec idle_pinged_def algebra_simps)
qed

text \<open>All that happens up to a moment between two pings.\<close>

lemma task_pings_until:
  assumes "idle_since (pw_now w) s" "0 < ping_interval s"
    and "pw_now w + n * ping_period (ping_interval s) \<le> d"
    and "d < pw_now w + n * ping_period (ping_interval s) + ping_gap (ping_interval s)"
    and "\<And>m. m < n \<Longrightarrow> peer (pw_sent w @ concat (replicate (Suc m) (request_bytes 0 0))) = pw_got w @ replicate (Suc m) 1 \<and>
      \<not> closed (pw_sent w @ concat (replicate (Suc m) (request_bytes 0 0)))"
    and "Suc n * ping_checks (ping_interval s) \<le> fuel"
  shows "ping_task N fuel (Some d) s w =
    (Pending, active_at (pw_now w + n * ping_period (ping_interval s)) s,
      (pinged_times n (ping_interval s) w)\<lparr>pw_now := d\<rparr>)"
proof -
  let ?i = "ping_interval s" and ?c = "check_interval (ping_interval s)"
  let ?t = "pw_now w + n * ping_period ?i"
  let ?s = "active_at ?t s" and ?w = "pinged_times n ?i w"
  define m where "m = (d - ?t) div ?c"
  have c: "0 < ?c" by (rule check_interval_pos)
  have m: "m * ?c \<le> d - ?t" "d - ?t < Suc m * ?c"
    using c unfolding m_def by (simp_all add: dividend_less_div_times div_times_less_eq_dividend)
  have "d - ?t < ping_checks ?i * ?c" using assms(3,4) unfolding ping_gap_def by linarith
  with m(1) have "m * ?c < ping_checks ?i * ?c" by (rule le_less_trans)
  then have checks: "m < ping_checks ?i" using c by simp
  then have "m * ?c \<le> (ping_checks ?i - 1) * ?c" by (intro mult_le_mono1) simp
  with ping_gap_bounds(3) [OF assms(2)] have early: "m * ?c < ?i" by (rule le_less_trans [rotated])
  define f where "f = fuel - n * ping_checks ?i - Suc m"
  have "fuel = n * ping_checks ?i + (m + Suc f)"
    using assms(6) checks by (simp add: f_def)
  then have "ping_task N fuel (Some d) s w = ping_task N (m + Suc f) (Some d) ?s ?w"
    using task_periods [OF assms(1,2) _ assms(5), where dl = "Some d" and fuel = "m + Suc f"] assms(3)
    by (simp only: has_time_simps simp_thms)
  also have "\<dots> = (Pending, ?s, ?w\<lparr>pw_now := d\<rparr>)"
  proof (rule task_idle_until [where t = ?t])
    show "idle_since ?t ?s" using assms(1) by simp (simp add: idle_since_def)
  qed (use assms(2,3) m early in \<open>simp_all add: pinged_times_def\<close>)
  finally show ?thesis .
qed

end

subsection \<open>Properties\<close>

text \<open>The task on a host of its own, whose connection stays open.\<close>

abbreviation idle_task :: "nat \<Rightarrow> (byte list \<Rightarrow> byte list) \<Rightarrow> (unit, pipe) client_net" where
  "idle_task k peer \<equiv> dial (pipe_net k peer (\<lambda>_. False))"

text \<open>An idle client pings for as long as the peer answers. Left alone, the task sends its ping at the
  first check at or after the ping interval, gets the answer, and starts over from there: \<open>n\<close>
  answered pings take \<open>n\<close> periods, each an interval rounded up to a whole number of checks, less
  than one check interval more, and the ten milliseconds the task listens for an old server's size.
  At any moment \<open>d\<close> from there until the next ping is due it has sent \<open>n\<close> pings and nothing else, has
  read their answers, and goes on, with its stream.\<close>

theorem pings_are_periodic:
  assumes "idle_since (pw_now w) s" "0 < ping_interval s"
    and "\<And>m. m < n \<Longrightarrow> peer (pw_sent w @ concat (replicate (Suc m) (request_bytes 0 0))) = pw_got w @ replicate (Suc m) 1"
    and "pw_now w + n * ping_period (ping_interval s) \<le> d"
    and "d < pw_now w + n * ping_period (ping_interval s) + ping_gap (ping_interval s)"
    and "Suc n * ping_checks (ping_interval s) \<le> fuel"
  shows "ping_task (idle_task k peer) fuel (Some d) s w =
      (Pending, active_at (pw_now w + n * ping_period (ping_interval s)) s,
        w\<lparr>pw_sent := pw_sent w @ concat (replicate n (request_bytes 0 0)), pw_got := pw_got w @ replicate n 1,
          pw_now := d\<rparr>) \<and>
    ping_interval s \<le> ping_gap (ping_interval s) \<and>
    ping_gap (ping_interval s) < ping_interval s + check_interval (ping_interval s)"
  using plain_host.task_pings_until [of w s n d peer "\<lambda>_. False" fuel k] assms ping_gap_bounds(1,2) [OF assms(2)]
  by (simp add: pinged_times_def)

text \<open>A day of the default configuration.\<close>

definition pings_answered :: "byte list \<Rightarrow> byte list" where
  "pings_answered S = replicate (length S div 8) 1"

theorem pings_are_periodic_witness:
  "fst (snd (ping_task (idle_task 0 pings_answered) (2880 * 4) (Some (24 * 60 * 60 * 1000000000)) kept_alive pipe_start)) =
     active_at (2879 * (from_secs 30 + from_millis 10)) kept_alive"
proof -
  have i: "ping_interval kept_alive = 30 * 1000000000" "idle_since (pw_now pipe_start) kept_alive"
    "ping_gap 30000000000 = 30000000000" "ping_checks 30000000000 = 4"
    by (simp_all add: kept_alive_def ping_state_new_def default_ping_config_def idle_since_def pipe_start_def
        ping_gap_exact ping_checks_def check_interval_def Let_def PING_CHECK_DIVISOR_def MIN_PING_CHECK_INTERVAL_def
        timeout_constants)
  have "length (concat (replicate m (request_bytes 0 0))) = m * 8" for m
    by (induction m) simp_all
  then show ?thesis
    using pings_are_periodic [where w = pipe_start and s = kept_alive and n = 2879 and peer = pings_answered and k = 0 and
        fuel = "2880 * 4" and d = "24 * 60 * 60 * 1000000000"] i
    by (simp add: pings_answered_def pipe_start_def timeout_constants PING_OLD_FORMAT_READ_TIMEOUT_def
        del: replicate_Suc ping_task.simps)
qed

text \<open>C29: the ping of a valid configuration can come after the server's header timeout. The activity of
  the client falls between two checks. When the last check before the interval is over leaves more
  than the rest of the header timeout to the next one, then at the end of that timeout the client
  has sent nothing, and a server with the same configuration that has been waiting since the last
  activity, or longer, has ended the connection: the ping arrives too late to prevent it.\<close>

theorem pings_may_come_too_late:
  assumes "validate cfg = Inr ()" "idle_since t s" "0 < ping_interval s" "ping_interval s = tc_ping_interval cfg"
    and "pw_now w + n * check_interval (ping_interval s) < t + tc_ping_interval cfg"
    and "t + tc_read_header cfg < pw_now w + Suc n * check_interval (ping_interval s)"
    and "quiet_conn N h requests sent got" "io_timely N" "conn_under cfg c" "st_reader (conn_view c) = h"
    and "drop (length (got v)) (requests (sent v)) = []" "net_now N v \<le> t"
  shows "ping_task (idle_task k peer) (n + Suc fuel) (Some (t + tc_read_header cfg)) s w =
      (Pending, s, w\<lparr>pw_now := t + tc_read_header cfg\<rparr>) \<and>
    (\<exists>e c' v'. handle_next (conn_transport N) run None (ph_new c u) v = (Ready (Inl e), ph_new c' u, v') \<and>
      sent v' = sent v \<and> net_now N v' \<le> t + tc_read_header cfg)"
proof
  have "tc_ping_interval cfg < tc_read_header cfg" using assms(1) by (simp add: validate_Inr_iff)
  then show "ping_task (idle_task k peer) (n + Suc fuel) (Some (t + tc_read_header cfg)) s w =
      (Pending, s, w\<lparr>pw_now := t + tc_read_header cfg\<rparr>)"
    using assms(4-6) by (intro plain_host.task_idle_until [OF assms(2,3)]) simp_all
  show "\<exists>e c' v'. handle_next (conn_transport N) run None (ph_new c u) v = (Ready (Inl e), ph_new c' u, v') \<and>
      sent v' = sent v \<and> net_now N v' \<le> t + tc_read_header cfg"
    using quiet_conn.handle_next_waits [OF assms(7-11), of run u] assms(12) by fastforce
qed

text \<open>
  The interval the builder itself picks for the default header timeout of 60 s is 59 s, checked every
  14.75 s. A request that ends 13 s after the start of the task is followed by checks after 1.75 s,
  16.5 s, 31.25 s and 46 s, and by a ping after 60.75 s.
\<close>

definition clamped_config :: timeout_config where
  "clamped_config = with_ping_interval default_timeout_config (from_secs 60)"

definition clamped_client :: "unit shared" where
  "clamped_client = \<lparr>sh_stream = Some (), sh_ping = ping_state_new (from_secs 13)
     \<lparr>pc_interval = tc_ping_interval clamped_config, pc_enabled = True\<rparr> clamped_config\<rparr>"

theorem pings_may_come_too_late_witness:
  "fst (ping_task (idle_task 0 (\<lambda>_. [])) 4 (Some (from_secs 73)) clamped_client (pipe_start\<lparr>pw_now := from_millis 14750\<rparr>)) =
     Pending"
proof -
  let ?c = "Plain ((st_new () ())\<lparr>st_timeout_config := clamped_config\<rparr>)"
  have cfg: "validate clamped_config = Inr ()" "tc_ping_interval clamped_config = 59 * 1000000000"
    "tc_read_header clamped_config = 60 * 1000000000"
    by (simp_all add: clamped_config_def validate_Inr_iff with_ping_interval_def Let_def default_timeout_config_def
        timeout_constants)
  have s: "ping_interval clamped_client = 59 * 1000000000" "idle_since (13 * 1000000000) clamped_client"
    "check_interval 59000000000 = 14750000000"
    using cfg(2) by (simp_all add: clamped_client_def ping_state_new_def idle_since_def check_interval_def Let_def
        PING_CHECK_DIVISOR_def MIN_PING_CHECK_INTERVAL_def timeout_constants)
  have c: "conn_under clamped_config ?c" "st_reader (conn_view ?c) = ()"
    using plain_conn_under [of "()"] by (simp_all add: conn_under_def st_wf_def)
  from pings_may_come_too_late [OF cfg(1) s(2) _ _ _ _ pipe_quiet.quiet_conn_axioms pipe_net_io_timely c,
      where n = 3 and k = 0 and peer = "\<lambda>_. []" and requests = "\<lambda>_. []" and v = pipe_start and fuel = 0 and
        w = "pipe_start\<lparr>pw_now := from_millis 14750\<rparr>" and run = "pure_handler (\<lambda>u cmd data. (u, Inr (Ok, data)))" and
        u = "()"]
  show ?thesis
    by (simp add: s cfg(2,3) pipe_start_def timeout_constants del: ping_task.simps)
qed

text \<open>
  The opposite of an idle client: whenever the task gets a mutex, the rest of the client has had some
  activity within the ping interval.
\<close>

definition keeps_busy :: "('h, 'w, 'y) task_net_scheme \<Rightarrow> bool" where
  "keeps_busy N \<longleftrightarrow> (\<forall>dl s w a s' w'. 0 < ping_interval s \<longrightarrow> tn_others N dl s w = (Ready a, s', w') \<longrightarrow>
     ping_interval s' = ping_interval s \<and> elapsed_since_activity N s' w' < ping_interval s')"

lemma keeps_busyD:
  assumes "keeps_busy N" "0 < ping_interval s" "wait_lock N dl s w = (Ready a, s', w')"
  shows "ping_interval s' = ping_interval s" "elapsed_since_activity N s' w' < ping_interval s'"
proof -
  obtain t where t: "tn_others N dl (shared.truncate s) w = (Ready a, t, w')"
    "s' = s\<lparr>sh_stream := sh_stream t, sh_ping := sh_ping t\<rparr>"
    using assms(3) by (auto simp: wait_lock_def act_simps split: prod.splits)
  have same: "ping_interval (shared.truncate s) = ping_interval s" by (simp add: shared.defs)
  with assms(2) have "0 < ping_interval (shared.truncate s)" by simp
  with assms(1) t(1) same have "ping_interval t = ping_interval s" "elapsed_since_activity N t w' < ping_interval t"
    unfolding keeps_busy_def by metis+
  with t(2) show "ping_interval s' = ping_interval s" "elapsed_since_activity N s' w' < ping_interval s'"
    by (simp_all add: elapsed_since_activity_def)
qed

lemma busy_round:
  assumes "keeps_busy N" "0 < ping_interval s"
  shows "ping_round (N\<lparr>net_write_all := f, net_read := g\<rparr>) dl s w = ping_round N dl s w"
    and "ping_round N dl s w = (r, s', w') \<Longrightarrow> r = Ready True \<Longrightarrow> ping_interval s' = ping_interval s"
    and "ping_round N dl s w = (r, s', w') \<Longrightarrow> r = Ready False \<Longrightarrow> pg_should_stop (sh_ping s')"
proof -
  have same: "wait_lock (N\<lparr>net_write_all := f, net_read := g\<rparr>) = wait_lock N"
    "elapsed_since_activity (N\<lparr>net_write_all := f, net_read := g\<rparr>) = elapsed_since_activity N"
    by (simp_all add: wait_lock_def elapsed_since_activity_def fun_eq_iff)
  show "ping_round (N\<lparr>net_write_all := f, net_read := g\<rparr>) dl s w = ping_round N dl s w"
    using keeps_busyD [OF assms]
    by (auto simp: ping_round_def act_simps with_world_def same split: prod.split poll.split)
  show "ping_round N dl s w = (r, s', w') \<Longrightarrow> r = Ready True \<Longrightarrow> ping_interval s' = ping_interval s"
    "ping_round N dl s w = (r, s', w') \<Longrightarrow> r = Ready False \<Longrightarrow> pg_should_stop (sh_ping s')"
    using keeps_busyD [OF assms]
    by (auto simp: ping_round_def act_simps with_world_def split: prod.splits poll.splits if_splits)
qed

text \<open>C30: a busy client does not ping. As long as the rest of the client has had some activity within the
  ping interval whenever the task looks, the task does not touch the stream: it runs alike whatever
  writing and reading do, on any network and under any deadline, and it ends only when it has been
  told to stop.\<close>

theorem busy_client_does_not_ping:
  assumes "keeps_busy N" "0 < ping_interval s"
  shows "ping_task (N\<lparr>net_write_all := f, net_read := g\<rparr>) fuel dl s w = ping_task N fuel dl s w \<and>
    (case ping_task N fuel dl s w of (r, s', w') \<Rightarrow> r = Ready (Some ()) \<longrightarrow> pg_should_stop (sh_ping s'))"
  using assms(2)
proof (induction fuel arbitrary: s w)
  case (Suc fuel)
  note round = busy_round [OF assms(1) Suc.prems]
  obtain r s1 w1 where run: "ping_round N dl s w = (r, s1, w1)" by (cases "ping_round N dl s w")
  show ?case
  proof (cases "r = Ready True")
    case True
    with round(2) [OF run] Suc.prems have "0 < ping_interval s1" by simp
    from Suc.IH [OF this, of w1] True show ?thesis by (simp add: act_simps round(1) run)
  next
    case False
    with round(3) [OF run] show ?thesis by (cases r) (auto simp: act_simps round(1) run)
  qed
qed (simp add: act_simps)

definition busy_pipe :: "(unit, pipe) task_net" where
  "busy_pipe = (pipe_task 0 (\<lambda>_. []) (\<lambda>_. False))\<lparr>tn_others :=
     (\<lambda>dl s w. (Ready (), update_ping (\<lambda>p. p\<lparr>pg_last_activity := pw_now w\<rparr>) s, w))\<rparr>"

theorem busy_client_does_not_ping_witness:
  "ping_task (busy_pipe\<lparr>net_write_all := \<lambda>h bs dl w. (Pending, w), net_read := \<lambda>h n dl w. (Pending, w)\<rparr>) 100 None
      kept_alive pipe_start =
     ping_task busy_pipe 100 None kept_alive pipe_start"
proof -
  have "keeps_busy busy_pipe"
    by (simp add: keeps_busy_def busy_pipe_def update_ping_def elapsed_since_activity_def pipe_task_def)
  moreover have "0 < ping_interval kept_alive"
    by (simp add: kept_alive_def ping_state_new_def default_ping_config_def timeout_constants)
  ultimately show ?thesis
    using busy_client_does_not_ping [of busy_pipe kept_alive "\<lambda>h bs dl w. (Pending, w)" "\<lambda>h n dl w. (Pending, w)" 100 None pipe_start]
    by (simp only: simp_thms)
qed

end
