(* ===== verification/Server_Dialogue.thy ===== *)
theory Server_Dialogue
  imports Dialogue
begin

section \<open>The server side in a dialogue\<close>

text \<open>
  What the operations of the plain server side say in a dialogue: the rules that compute the runs of
  the tests and of the example servers backwards.
\<close>

text \<open>Timeouts long enough that an operation is not given up at once.\<close>

definition patient :: "timeout_config \<Rightarrow> bool" where
  "patient cfg \<longleftrightarrow> 0 < tc_read_header cfg \<and> 0 < tc_read_data cfg \<and> 0 < tc_write cfg \<and> 0 < tc_ping_write cfg"

definition st_ready :: "'h server_tl \<Rightarrow> bool" where
  "st_ready s \<longleftrightarrow> st_wf s \<and> patient (st_timeout_config s)"

lemma st_idle_ready [simp]: "st_ready (st_idle s) = st_ready s"
  by (simp add: st_ready_def)

lemmas st_talk = st_ready_def patient_def st_exec

lemma speaks_st_send_response_header:
  assumes "st_wf s" "0 < tmo" and "Q (Inr ()) (st_idle s) tr"
  shows "speaks Q (\<lambda>N. st_send_response_header N status ds True tmo) s (Gives [status] # tr)"
    and "speaks Q (\<lambda>N. st_send_response_header N status ds False tmo) s (Gives (response_bytes status ds) # tr)"
  using assms unfolding st_send_response_header_def
  by - ((rule talk_rules | simp add: st_exec)+)

lemma speaks_st_receive_response_header:
  assumes "st_ready s"
    and "Q (Inr \<lparr>rs_status = b, rs_data_size = 0\<rparr>) (st_idle s) tr"
  shows "speaks Q (\<lambda>N. st_receive_response_header N True) s (Takes [b] # tr)"
  using assms unfolding st_receive_response_header_def
  by - (rule talk_rules | simp add: st_talk)+

lemma speaks_st_read_command:
  assumes "st_ready s" "unat n \<le> st_max_buffer_size s" "c \<noteq> 0"
    and "Q (Inr (Some (c, unat n))) (st_idle s) tr"
  shows "speaks Q (\<lambda>N. st_read_command N) s (Takes (request_bytes c n) # Gives [1] # tr)"
  using assms unfolding st_read_command_def
  by - (rule talk_rules | simp add: st_talk | rule speaks_st_send_response_header)+

lemma speaks_st_read_command_ping:
  assumes "st_ready s"
    and "Q (Inr None) (st_idle s) tr"
  shows "speaks Q (\<lambda>N. st_read_command N) s (Takes (request_bytes 0 0) # Gives [1] # tr)"
  using assms unfolding st_read_command_def
  by - (rule talk_rules | simp add: st_talk | rule speaks_st_send_response_header)+

lemma speaks_st_read_command_bad_ping:
  assumes "st_ready s" "unat n \<le> st_max_buffer_size s" "n \<noteq> 0"
    and "Q (Inl (Protocol (lit ''Ping must have data_size=0''))) (st_idle s) tr"
  shows "speaks Q (\<lambda>N. st_read_command N) s (Takes (request_bytes 0 n) # Gives [7] # tr)"
  using assms unfolding st_read_command_def
  by - (rule talk_rules | simp add: st_talk unat_eq_0 | rule speaks_st_send_response_header)+

lemma speaks_st_receive_data:
  assumes "st_ready s" "length bs \<le> st_max_buffer_size s" "n = length bs"
    and "Q (Inr bs) (st_idle s) tr"
  shows "speaks Q (\<lambda>N. st_receive_data N n) s (Takes bs # tr)"
  using assms unfolding st_receive_data_def
  by - (rule talk_rules | simp add: st_talk)+

lemma speaks_st_send_data:
  assumes "st_ready s" "hdr = response_bytes status (usize_as_u32 (length bs))"
    and "Q (Inr ()) (st_idle s) tr"
  shows "speaks Q (\<lambda>N. st_send_data N status (Some bs)) s
    (Gives hdr # Takes [1] # Gives bs # tr)"
  using assms(1,3) unfolding assms(2) st_send_data_def
  by - (rule talk_rules | simp add: st_talk
      | rule speaks_st_send_response_header speaks_st_receive_response_header)+

lemma talks_read_command:
  assumes "st_ready s"
  shows "talks (\<lambda>N. st_read_command N) s []"
proof (rule talksI)
  fix k and w :: pipe
  let ?buf = "vec_resize 8 0 (st_buffer s)"
  have "0 < vec_len ?buf" by (simp add: vec_simps)
  from fill_from_pipe_waits [OF this, of k w "st_reader s"]
  show "stays w [] (st_read_command (so_far k (pw_got w @ taken [])) (Some (pw_now w)) s w)"
    using assms
    by (simp add: stays_def st_ready_def patient_def st_read_command_def act_simps timed_unfold Let_def read_exact_or_closed_def header_sizes)
qed simp

subsection \<open>The network inside a larger environment\<close>

text \<open>An operation looks only at the network part of what it is given.\<close>

lemma truncate_net [simp]:
  "net_now (net.truncate R) = net_now R" "net_read (net.truncate R) = net_read R"
  "net_write_all (net.truncate R) = net_write_all R" "net_flush (net.truncate R) = net_flush R"
  "net_close (net.truncate R) = net_close R" "net_sleep (net.truncate R) = net_sleep R"
  by (simp_all add: net.truncate_def)

lemma fill_from_truncate: "fill_from (net.truncate R) h filled dl buf w = fill_from R h filled dl buf w"
proof (induction R h filled dl buf w rule: fill_from.induct)
  case (1 R h filled dl buf w)
  then show ?case
    by (subst (1 2) fill_from.simps) (auto simp: Let_def split: prod.splits poll.splits sum.splits)
qed

lemma read_truncate [simp]:
  "read_exact_or_closed (net.truncate R) h = read_exact_or_closed R h" "read_exact (net.truncate R) h = read_exact R h"
  by (simp_all add: fun_eq_iff read_exact_or_closed_def read_exact_def read_exact_from_fill_from fill_from_truncate)

lemma timed_truncate [simp]: "timed (net.truncate R) = timed R"
  by (simp add: fun_eq_iff timed_unfold)

lemmas truncate_simps = truncate_net read_truncate timed_truncate

lemma header_truncate:
  "st_send_response_header (net.truncate R) = st_send_response_header R"
  "st_receive_response_header (net.truncate R) = st_receive_response_header R"
  unfolding fun_eq_iff st_send_response_header_def st_receive_response_header_def truncate_simps by simp_all

lemma st_truncate:
  "st_read_command (net.truncate R) = st_read_command R"
  "st_receive_data (net.truncate R) = st_receive_data R"
  "st_send_data (net.truncate R) = st_send_data R"
  unfolding fun_eq_iff st_read_command_def st_receive_data_def st_send_data_def header_truncate truncate_simps
  by simp_all

end
