(* ===== verification/Unit_Tests.thy ===== *)
theory Unit_Tests
  imports Server_Dialogue Client_Dialogue Example_Clients
begin

section \<open>The unit tests of the crate\<close>

text \<open>
  The tests in the crate's own modules, translated like the code they test. A test without waiting is
  a Boolean, its assertions in order, where a panic (an \<open>unwrap\<close> of an error) is \<open>False\<close>; an
  asynchronous test is an action that ends with an error where the test panics. A test with a spawned
  peer is the two parties of a dialogue; it passes when both of them get through, and the theorems say
  that they do however the bytes are cut into pieces on the way.
\<close>

definition unwrap :: "'e + 'a \<Rightarrow> ('a \<Rightarrow> bool) \<Rightarrow> bool" where
  "unwrap r k = (case r of Inl _ \<Rightarrow> False | Inr a \<Rightarrow> k a)"

definition unwrap_err :: "'e + 'a \<Rightarrow> ('e \<Rightarrow> bool) \<Rightarrow> bool" where
  "unwrap_err r k = (case r of Inl e \<Rightarrow> k e | Inr _ \<Rightarrow> False)"

fun is_config :: "error \<Rightarrow> bool" where
  "is_config (Config _) = True"
| "is_config _ = False"

lemma unwrap_simps [simp]:
  "unwrap (Inr a) k = k a" "unwrap (Inl e) k = False"
  "unwrap_err (Inl e) k' = k' e" "unwrap_err (Inr a) k' = False"
  by (simp_all add: unwrap_def unwrap_err_def)

subsection \<open>request_header.rs and response_header.rs\<close>

definition test_request_header :: bool where
  "test_request_header =
     (let header = request_header_new 1 1 in
      unwrap (request_encode header (vec_with_capacity request_encoded_len)) (\<lambda>buf.
        request_encoded_len = vec_len buf \<and>
        unwrap (request_decode (vdata buf) 1024) (\<lambda>(header2, _).
          rq_command header = rq_command header2 \<and> rq_data_size header = rq_data_size header2)))"

definition test_request_header_decode_oversized :: bool where
  "test_request_header_decode_oversized =
     unwrap (request_encode (request_header_new 1 1000) (vec_with_capacity request_encoded_len)) (\<lambda>buf.
       unwrap_err (request_decode (vdata buf) 100) (\<lambda>e.
         case e of BufferOverflow expected limit \<Rightarrow> expected = 1000 \<and> limit = 100 | _ \<Rightarrow> False))"

definition test_response_header :: bool where
  "test_response_header =
     (let header = response_header_new 3 1 in
      unwrap (response_encode header (vec_with_capacity RESPONSE_HEADER_SIZE) False) (\<lambda>buf.
        RESPONSE_HEADER_SIZE = vec_len buf \<and>
        unwrap (response_decode (vdata buf) False 1024) (\<lambda>(header2, _).
          rs_status header = rs_status header2 \<and> rs_data_size header = rs_data_size header2)))"

definition test_response_header_decode_oversized :: bool where
  "test_response_header_decode_oversized =
     unwrap (response_encode (response_header_new 3 1000) (vec_with_capacity RESPONSE_HEADER_SIZE) False) (\<lambda>buf.
       unwrap_err (response_decode (vdata buf) False 100) (\<lambda>e.
         case e of BufferOverflow expected limit \<Rightarrow> expected = 1000 \<and> limit = 100 | _ \<Rightarrow> False))"

text \<open>The test of the ping header stands in three modules, \<open>client_tl.rs\<close>, \<open>client_tls.rs\<close> and \<open>ping.rs\<close>.\<close>

definition ping_header_codec :: bool where
  "ping_header_codec =
     unwrap (request_encode (request_header_new (command_as_u32 Ping) 0) (vec_with_capacity 0)) (\<lambda>buf.
       vec_len buf = 8 \<and> vdata buf = [0, 0, 0, 0, 0, 0, 0, 0] \<and>
       unwrap (request_decode (vdata buf) 1024) (\<lambda>(decoded, _).
         rq_command decoded = command_as_u32 Ping \<and> rq_data_size decoded = 0))"

subsection \<open>timeout_config.rs, and the test of the same invariant in client_tl.rs\<close>

definition with_ping_interval_clamps_when_interval_ge_read_header :: bool where
  "with_ping_interval_clamps_when_interval_ge_read_header =
     (let config = with_ping_interval default_timeout_config (from_secs 60) in
      tc_ping_interval config = from_secs 59)"

definition with_ping_interval_clamps_to_half_when_read_header_small :: bool where
  "with_ping_interval_clamps_to_half_when_read_header_small =
     (let config = with_ping_interval (default_timeout_config\<lparr>tc_read_header := from_millis 500\<rparr>) (from_secs 10) in
      tc_ping_interval config = from_millis 250)"

definition with_ping_interval_does_not_change_when_valid :: bool where
  "with_ping_interval_does_not_change_when_valid =
     (let config = with_ping_interval default_timeout_config (from_secs 30) in
      tc_ping_interval config = from_secs 30)"

definition validate_returns_ok_when_valid :: bool where
  "validate_returns_ok_when_valid = (validate default_timeout_config = Inr ())"

text \<open>A text contains what its template contains: the numbers put into it only add to it.\<close>

fun error_contains :: "error \<Rightarrow> string \<Rightarrow> bool" where
  "error_contains (Config (Fmt template _)) s = sublist s template"
| "error_contains _ s = False"

definition validate_returns_error_when_invalid :: bool where
  "validate_returns_error_when_invalid =
     (let config = default_timeout_config\<lparr>tc_read_header := from_secs 10, tc_ping_interval := from_secs 20\<rparr> in
      unwrap_err (validate config) (\<lambda>err.
        error_contains err ''ping_interval'' \<and> error_contains err ''read_header''))"

definition validate_returns_error_when_equal :: bool where
  "validate_returns_error_when_equal =
     (let config = default_timeout_config\<lparr>tc_read_header := from_secs 10, tc_ping_interval := from_secs 10\<rparr> in
      unwrap_err (validate config) (\<lambda>_. True))"

definition timeout_invariant :: bool where
  "timeout_invariant =
     (let config = default_timeout_config\<lparr>tc_read_header := from_secs 10, tc_ping_interval := from_secs 30\<rparr>;
          valid = default_timeout_config\<lparr>tc_read_header := from_secs 60, tc_ping_interval := from_secs 30\<rparr>
      in unwrap_err (validate config) is_config \<and> unwrap (validate valid) (\<lambda>_. True))"

subsection \<open>The limits in client_tl.rs and server_tl.rs\<close>

definition usize_max :: usize where
  "usize_max = 2 ^ 64 - 1"

definition client_set_max_buffer_size_usize_max_returns_error :: "(nat \<Rightarrow> bool) \<Rightarrow> bool" where
  "client_set_max_buffer_size_usize_max_returns_error alloc =
     (let client = ct_new 0 ''127.0.0.1:0'' :: unit client_tl;
          (r1, client) = ct_set_max_buffer_size alloc usize_max client;
          (r2, client2) = ct_set_max_buffer_size alloc (1024 * 1024) client;
          (r3, client3) = ct_set_max_buffer_size alloc 0 client2
      in unwrap_err r1 is_config \<and>
         r2 = Inr () \<and> ct_max_buffer_size client2 = 1024 * 1024 \<and>
         r3 = Inr () \<and> ct_max_buffer_size client3 = DEFAULT_MAX_BUFFER_SIZE)"

definition server_set_max_buffer_size_usize_max_returns_error :: "(nat \<Rightarrow> bool) \<Rightarrow> bool" where
  "server_set_max_buffer_size_usize_max_returns_error alloc =
     (let server = st_new () ();
          (r1, server) = st_set_max_buffer_size alloc usize_max server;
          (r2, server2) = st_set_max_buffer_size alloc (1024 * 1024) server;
          (r3, server3) = st_set_max_buffer_size alloc 0 server2
      in unwrap_err r1 is_config \<and>
         r2 = Inr () \<and> st_max_buffer_size server2 = 1024 * 1024 \<and>
         r3 = Inr () \<and> st_max_buffer_size server3 = DEFAULT_MAX_BUFFER_SIZE)"

lemma codec_tests:
  "test_request_header" "test_request_header_decode_oversized"
  "test_response_header" "test_response_header_decode_oversized" "ping_header_codec"
proof -
  have b: "to_be_bytes 0 = [0, 0, 0, 0]" by (simp add: to_be_bytes_def)
  note enc = vec_with_capacity_def request_encode_def response_encode_def response_header_new_def request_header_new_def
    Let_def vec_simps vec_push_def header_sizes
  note d1 = request_decode_bytes [where rest = "[]", simplified, unfolded request_bytes_def]
    response_decode_bytes [where rest = "[]", simplified, unfolded response_bytes_def]
  show "test_request_header" "test_request_header_decode_oversized"
    "test_response_header" "test_response_header_decode_oversized"
    by (simp_all add: test_request_header_def test_request_header_decode_oversized_def test_response_header_def
        test_response_header_decode_oversized_def enc d1)
  show "ping_header_codec"
    using d1(1) [of 0 0 1024] by (simp add: ping_header_codec_def enc b)
qed

lemma timeout_tests:
  "with_ping_interval_clamps_when_interval_ge_read_header"
  "with_ping_interval_clamps_to_half_when_read_header_small"
  "with_ping_interval_does_not_change_when_valid" "validate_returns_ok_when_valid"
  "validate_returns_error_when_invalid" "validate_returns_error_when_equal" "timeout_invariant"
  by (simp_all add: with_ping_interval_clamps_when_interval_ge_read_header_def
      with_ping_interval_clamps_to_half_when_read_header_small_def
      with_ping_interval_does_not_change_when_valid_def validate_returns_ok_when_valid_def
      validate_returns_error_when_invalid_def validate_returns_error_when_equal_def timeout_invariant_def
      with_ping_interval_def validate_def default_timeout_config_def timeout_constants Let_def sublist_code)

lemma limit_tests:
  "client_set_max_buffer_size_usize_max_returns_error alloc"
  "server_set_max_buffer_size_usize_max_returns_error alloc"
  by (simp_all add: client_set_max_buffer_size_usize_max_returns_error_def
      server_set_max_buffer_size_usize_max_returns_error_def ct_set_max_buffer_size_def st_set_max_buffer_size_def
      ct_new_def st_new_def vec_try_reserve_def vec_with_capacity_def usize_max_def isize_max_def grown_cap_def
      DEFAULT_MAX_BUFFER_SIZE_def vec_simps Let_def)

subsection \<open>Tests of a single party\<close>

definition check :: "bool \<Rightarrow> ('c, 'w, error + unit) act" where
  "check b = ret (if b then Inr () else Inl assertion_failed)"

definition pingstate_set_should_stop_and_take_task_handle :: "nat \<Rightarrow> (unit, 'w, error + unit) act" where
  "pingstate_set_should_stop_and_take_task_handle now =
     with_local \<lparr>sh_stream = None :: unit option, sh_ping = ping_state_new now default_ping_config default_timeout_config\<rparr>
       (\<lambda>_ w. w) (
     await (set_should_stop True) (\<lambda>_. with_self (\<lambda>s. await_try (check (pg_should_stop (sh_ping s))) (\<lambda>_.
     await (set_should_stop False) (\<lambda>_. with_self (\<lambda>s. await_try (check (\<not> pg_should_stop (sh_ping s))) (\<lambda>_.
     await take_task_handle (\<lambda>handle. check (handle = None)))))))))"

definition connect_total_deadline_exceeds :: "('h, 'w, 'y) client_net_scheme \<Rightarrow> (unit, 'w, error + unit) act" where
  "connect_total_deadline_exceeds N = with_client N ''10.255.255.1:1'' (
     await_try (ct_set_timeout_config N (default_timeout_config\<lparr>tc_connect_total := from_millis 200\<rparr>)) (\<lambda>_.
     with_world (\<lambda>start.
     await (ct_connect N) (\<lambda>result. with_world (\<lambda>stop.
     await_try (check (net_now N stop - net_now N start < from_secs 2)) (\<lambda>_.
     check (case result of Inl (Timeout _) \<Rightarrow> True | _ \<Rightarrow> False)))))))"

definition connect_without_domain_returns_config_error ::
  "('h, 'k, 'w) tls_client_net \<Rightarrow> (unit, 'w, error + unit) act" where
  "connect_without_domain_returns_config_error N = with_tls_client N ''127.0.0.1:1'' (
     await (cs_connect N) (\<lambda>result. check (case result of Inl (Config _) \<Rightarrow> True | _ \<Rightarrow> False)))"

text \<open>
  The guard of the no-answer mode, dropped at the end of a scope and by a panic: \<open>catch_unwind\<close> makes
  an error of the panic, and nothing else of the unwinding is seen.
\<close>

definition no_answer_guard_restores_flag_on_drop :: "(unit, 'w, error + unit) act" where
  "no_answer_guard_restores_flag_on_drop =
     with_local ((ct_new 0 ''127.0.0.1:0'' :: unit client_tl)\<lparr>ct_command_has_answer := False\<rparr>) (\<lambda>_ w. w) (
       await (ct_no_answer_guard (ret ())) (\<lambda>_. with_self (\<lambda>client. check (ct_command_has_answer client))))"

definition no_answer_guard_restores_flag_on_panic :: "(unit, 'w, error + unit) act" where
  "no_answer_guard_restores_flag_on_panic =
     with_local ((ct_new 0 ''127.0.0.1:0'' :: unit client_tl)\<lparr>ct_command_has_answer := False\<rparr>) (\<lambda>_ w. w) (
       await (ct_no_answer_guard (ret (Inl (lit ''simulated handler panic'') :: message + unit))) (\<lambda>result.
       await_try (check (isl result)) (\<lambda>_. with_self (\<lambda>client. check (ct_command_has_answer client)))))"

definition tls_no_answer_guard_restores_flag_on_drop :: "(unit, 'w, error + unit) act" where
  "tls_no_answer_guard_restores_flag_on_drop =
     with_local ((cs_new 0 ''127.0.0.1:0'' :: unit client_tls)\<lparr>cs_command_has_answer := False\<rparr>) (\<lambda>_ w. w) (
       await (cs_no_answer_guard (ret ())) (\<lambda>_. with_self (\<lambda>client. check (cs_command_has_answer client))))"

definition tls_no_answer_guard_restores_flag_on_panic :: "(unit, 'w, error + unit) act" where
  "tls_no_answer_guard_restores_flag_on_panic =
     with_local ((cs_new 0 ''127.0.0.1:0'' :: unit client_tls)\<lparr>cs_command_has_answer := False\<rparr>) (\<lambda>_ w. w) (
       await (cs_no_answer_guard (ret (Inl (lit ''simulated handler panic'') :: message + unit))) (\<lambda>result.
       await_try (check (isl result)) (\<lambda>_. with_self (\<lambda>client. check (cs_command_has_answer client)))))"

text \<open>A server whose socket buffer towards the client is full: a write waits until its deadline.\<close>

definition ping_write_timeout :: "('h, 'w, 'z) net_scheme \<Rightarrow> 'h \<Rightarrow> (unit, 'w, error + unit) act" where
  "ping_write_timeout N h =
     with_local (st_set_timeout_config (default_timeout_config\<lparr>tc_ping_write := from_millis 200\<rparr>) (st_new h h))
       (\<lambda>s. net_close N (st_reader s)) (
       with_world (\<lambda>start.
       await (st_read_command N) (\<lambda>result. with_world (\<lambda>stop.
       await_try (check (isl result)) (\<lambda>_.
       check (net_now N stop - net_now N start < from_secs 1))))))"

definition ping_write_client :: "('h, 'w, 'z) net_scheme \<Rightarrow> 'h \<Rightarrow> ('c, 'w, error + unit) act" where
  "ping_write_client N client =
     (case request_encode (request_header_new (command_as_u32 Ping) 0) (vec_with_capacity 0) of
        Inl e \<Rightarrow> ret (Inl e)
      | Inr buf \<Rightarrow> map_err error_from_io (io (net_write_all N client (vdata buf))))"

definition stuffed_pipe :: "nat \<Rightarrow> byte list \<Rightarrow> (unit, pipe) net" where
  "stuffed_pipe k bs = (pipe_net k (\<lambda>_. bs) (\<lambda>_. False))\<lparr>net_write_all := (\<lambda>h bs dl w. (Pending, wait_until dl w))\<rparr>"

definition silent_client :: "(unit, pipe) client_net" where
  "silent_client = (pipe_client 0 (\<lambda>_. []) (\<lambda>_. False))\<lparr>cn_tcp_connect := (\<lambda>a dl w. (Pending, wait_until dl w))\<rparr>"

lemma with_world_unfold [act_simps]: "with_world k dl c w = k w dl c w"
  by (simp add: with_world_def)

lemma check_True [simp]: "check True = ret (Inr ())"
  by (simp add: check_def)

lemma guard_tests:
  "fst (no_answer_guard_restores_flag_on_drop dl () w) = Ready (Inr ())"
  "fst (no_answer_guard_restores_flag_on_panic dl () w) = Ready (Inr ())"
  "fst (tls_no_answer_guard_restores_flag_on_drop dl () w) = Ready (Inr ())"
  "fst (tls_no_answer_guard_restores_flag_on_panic dl () w) = Ready (Inr ())"
  by (simp_all add: no_answer_guard_restores_flag_on_drop_def no_answer_guard_restores_flag_on_panic_def
      tls_no_answer_guard_restores_flag_on_drop_def tls_no_answer_guard_restores_flag_on_panic_def with_local_def act_simps
      ct_no_answer_guard_def cs_no_answer_guard_def)

lemma pingstate_test: "fst (pingstate_set_should_stop_and_take_task_handle now dl () w) = Ready (Inr ())"
  by (simp add: pingstate_set_should_stop_and_take_task_handle_def with_local_def set_should_stop_def
      take_task_handle_def act_simps ping_state_new_def update_ping_def)

lemma domain_test: "fst (connect_without_domain_returns_config_error N dl () w) = Ready (Inr ())"
  by (simp add: connect_without_domain_returns_config_error_def with_tls_client_def cs_connect_def act_simps
      cs_new_def Let_def split: prod.split)

lemma deadline_test: "fst (connect_total_deadline_exceeds silent_client None () pipe_start) = Ready (Inr ())"
proof -
  have u: "undisturbed silent_client" by (simp add: undisturbed_def silent_client_def pipe_client_def)
  note connect = ct_connect_def ct_connect_loop.simps [of _ 0] DEFAULT_MAX_CONNECT_RETRIES_def
  have "net_now silent_client = pw_now"
    "cn_tcp_connect silent_client = (\<lambda>a dl w. (Pending, wait_until dl w))"
    by (simp_all add: silent_client_def pipe_client_def)
  with u show ?thesis
    by (simp add: connect_total_deadline_exceeds_def with_client_def act_simps ct_set_timeout_config_def
        wait_lock_undisturbed validate_def with_ping_interval_def default_timeout_config_def timeout_constants
        update_ping_def ct_new_def connect timed_unfold timeout_def Let_def split: prod.split)
qed

text \<open>Filling a buffer only depends on the reads.\<close>

lemma fill_from_reads:
  assumes "net_read N h = net_read M h"
  shows "fill_from N h filled dl buf w = fill_from M h filled dl buf w"
  using assms
proof (induction N h filled dl buf w rule: fill_from.induct)
  case (1 N h filled dl buf w)
  show ?case
  proof (cases "filled < vec_len buf")
    case True
    with 1 show ?thesis
      by (subst (1 2) fill_from.simps) (auto simp: Let_def split: prod.splits poll.splits sum.splits)
  qed (simp add: fill_from.simps)
qed

lemma ping_write_client_wrote: "wrote k (\<lambda>N. ping_write_client N ()) [] = request_bytes 0 0"
  by (simp add: wrote_def alone_def ping_write_client_def request_encode_def request_header_new_def vec_with_capacity_def
      Let_def vec_simps act_simps pipe_start_def flip: request_bytes_def)

lemma stuffed_test:
  "fst (ping_write_timeout (stuffed_pipe k (request_bytes 0 0)) () None () pipe_start) = Ready (Inr ())"
proof -
  let ?N = "stuffed_pipe k (request_bytes 0 0)"
  have N: "net_now ?N = pw_now" "net_write_all ?N = (\<lambda>h bs dl w. (Pending, wait_until dl w))"
    by (simp_all add: stuffed_pipe_def)
  have "fill_from ?N () 0 dl (Vec d c) pipe_start =
      (Ready (Inr ()), Vec (request_bytes 0 0) c, pipe_start\<lparr>pw_got := request_bytes 0 0\<rparr>)"
    if "length d = 8" for dl d c
    using fill_from_pipe [of pipe_start "request_bytes 0 0" "\<lambda>_. request_bytes 0 0" 0 "Vec d c" k "\<lambda>_. False" "()" dl] that
    by (subst fill_from_reads [where M = "pipe_net k (\<lambda>_. request_bytes 0 0) (\<lambda>_. False)"])
       (simp_all add: stuffed_pipe_def vec_len_def)
  note fill = this
  have v: "vec_resize 8 0 (Vec [] c) = Vec (replicate 8 0) c" if "8 \<le> c" for c
    using that by (simp add: vec_resize_def vec_extend_def vec_len_def grown_cap_def)
  show ?thesis
    by (simp add: ping_write_timeout_def with_local_def act_simps st_read_command_def st_send_response_header_def
        st_new_def st_set_timeout_config_def read_exact_or_closed_def fill N v timed_unfold Let_def vec_with_capacity_def
        default_timeout_config_def timeout_constants header_sizes vec_clear_def request_decode_bytes
        response_encode_empty DEFAULT_MAX_BUFFER_SIZE_def request_decode_bytes [where rest = "[]", simplified])
qed

lemma full_test:
  "fst (ping_write_timeout (stuffed_pipe k (wrote k (\<lambda>N. ping_write_client N ()) [])) () None () pipe_start) = Ready (Inr ())"
  unfolding ping_write_client_wrote by (rule stuffed_test)

subsection \<open>Tests of two parties\<close>

text \<open>A test passes when both of its parties get through without a panic.\<close>

definition passes :: "nat \<Rightarrow> (unit, error + unit) party \<Rightarrow> (unit, error + unit) party \<Rightarrow> bool" where
  "passes k m n \<longleftrightarrow> meets k m n = Ready (Inr ()) \<and> meets k n m = Ready (Inr ())"

text \<open>What the clients of the tests do over and over: \<open>encode\<close> into a new vector, \<open>write_all\<close>, \<open>flush\<close>.\<close>

definition write_flush :: "('h, 'w, 'z) net_scheme \<Rightarrow> 'h \<Rightarrow> byte list \<Rightarrow> ('c, 'w, error + unit) act" where
  "write_flush N h bs =
     await_try (map_err error_from_io (io (net_write_all N h bs))) (\<lambda>_.
       map_err error_from_io (io (net_flush N h)))"

definition send_request :: "('h, 'w, 'z) net_scheme \<Rightarrow> 'h \<Rightarrow> u32 \<Rightarrow> u32 \<Rightarrow> ('c, 'w, error + unit) act" where
  "send_request N h command data_size =
     (case request_encode (request_header_new command data_size) (vec_with_capacity 0) of
        Inl e \<Rightarrow> ret (Inl e)
      | Inr buf \<Rightarrow> write_flush N h (vdata buf))"

definition read_bytes :: "('h, 'w, 'z) net_scheme \<Rightarrow> 'h \<Rightarrow> nat \<Rightarrow> ('c, 'w, error + byte list) act" where
  "read_bytes N h n = map_err error_from_io (read_array N h n)"

definition test_config :: timeout_config where
  "test_config = default_timeout_config\<lparr>tc_read_header := from_millis 500\<rparr>"

definition with_server ::
  "('h, 'w, 'z) net_scheme \<Rightarrow> 'h \<Rightarrow> ('h server_tl, 'w, 'a) act \<Rightarrow> (unit, 'w, 'a) act" where
  "with_server N h m =
     with_local (st_set_timeout_config test_config (st_new h h)) (\<lambda>s. net_close N (st_reader s)) m"

definition with_tls_server ::
  "('h, 'w, 'z) net_scheme \<Rightarrow> 'h \<Rightarrow> ('h server_tls, 'w, 'a) act \<Rightarrow> (unit, 'w, 'a) act" where
  "with_tls_server N h m =
     with_local (ss_set_timeout_config test_config (ss_new h)) (\<lambda>s. net_close N (ss_tls_stream s)) m"

definition is_ping_size_error :: "error \<Rightarrow> bool" where
  "is_ping_size_error e =
     (case e of Protocol (Fmt msg _) \<Rightarrow> sublist ''Ping must have data_size=0'' msg | _ \<Rightarrow> False)"

text \<open>\<open>server_tl_ping_no_payload\<close>\<close>

definition ping_test_server :: "('h, 'w, 'z) net_scheme \<Rightarrow> 'h \<Rightarrow> (unit, 'w, error + unit) act" where
  "ping_test_server N h = with_server N h (
     await_try (st_read_command N) (\<lambda>result. check (result = None)))"

definition ping_test_client :: "('h, 'w, 'z) net_scheme \<Rightarrow> 'h \<Rightarrow> ('c, 'w, error + unit) act" where
  "ping_test_client N h =
     await_try (send_request N h 0 0) (\<lambda>_.
     await_try (read_bytes N h 1) (\<lambda>response. check (response ! 0 = 1)))"

text \<open>\<open>server_tl_regular_command\<close>\<close>

definition command_test_server :: "('h, 'w, 'z) net_scheme \<Rightarrow> 'h \<Rightarrow> (unit, 'w, error + unit) act" where
  "command_test_server N h = with_server N h (
     await_try (st_read_command N) (\<lambda>result.
       case result of
         None \<Rightarrow> check False
       | Some (cmd, sz) \<Rightarrow>
           await_try (check (cmd = 42)) (\<lambda>_.
           await_try (check (sz = 5)) (\<lambda>_.
           await_try (st_receive_data N sz) (\<lambda>_.
           st_send_data N 1 (Some (ascii ''OK'')))))))"

definition command_test_client :: "('h, 'w, 'z) net_scheme \<Rightarrow> 'h \<Rightarrow> ('c, 'w, error + unit) act" where
  "command_test_client N h =
     await_try (send_request N h 42 5) (\<lambda>_.
     await_try (read_bytes N h 1) (\<lambda>request_ack.
     await_try (check (request_ack ! 0 = 1)) (\<lambda>_.
     await_try (write_flush N h (ascii ''hello'')) (\<lambda>_.
     await_try (read_bytes N h 5) (\<lambda>resp_header_buf.
     await_try (ret (response_decode resp_header_buf False 1024)) (\<lambda>(resp_header, _).
     await_try (check (rs_status resp_header = 1)) (\<lambda>_.
     await_try (check (rs_data_size resp_header = 2)) (\<lambda>_.
     await_try (ret (response_encode (response_header_new 1 0) (vec_with_capacity 0) True)) (\<lambda>ack_buf.
     await_try (write_flush N h (vdata ack_buf)) (\<lambda>_.
     await_try (read_bytes N h (unat (rs_data_size resp_header))) (\<lambda>payload.
     check (payload = ascii ''OK''))))))))))))"

text \<open>\<open>server_tl_ping_invalid_data_size\<close>\<close>

definition bad_ping_test_server :: "('h, 'w, 'z) net_scheme \<Rightarrow> 'h \<Rightarrow> (unit, 'w, error + unit) act" where
  "bad_ping_test_server N h = with_server N h (
     await (st_read_command N) (\<lambda>result.
       check (case result of Inl e \<Rightarrow> is_ping_size_error e | Inr _ \<Rightarrow> False)))"

definition bad_ping_test_client :: "('h, 'w, 'z) net_scheme \<Rightarrow> 'h \<Rightarrow> ('c, 'w, error + unit) act" where
  "bad_ping_test_client N h =
     await_try (send_request N h (command_as_u32 Ping) 10) (\<lambda>_.
     await_try (read_bytes N h 1) (\<lambda>response. check (response ! 0 = 7)))"

text \<open>
  \<open>server_tls_ping_no_payload\<close> and \<open>server_tls_ping_invalid_data_size\<close>; their clients are the
  same code as above.
\<close>

definition tls_ping_test_server :: "('h, 'w, 'z) net_scheme \<Rightarrow> 'h \<Rightarrow> (unit, 'w, error + unit) act" where
  "tls_ping_test_server N h = with_tls_server N h (
     await_try (ss_read_command N) (\<lambda>result. check (result = None)))"

definition tls_bad_ping_test_server :: "('h, 'w, 'z) net_scheme \<Rightarrow> 'h \<Rightarrow> (unit, 'w, error + unit) act" where
  "tls_bad_ping_test_server N h = with_tls_server N h (
     await (ss_read_command N) (\<lambda>result.
       check (case result of Inl e \<Rightarrow> is_ping_size_error e | Inr _ \<Rightarrow> False)))"

text \<open>\<open>ping_old_format_nonzero_data_size_is_rejected\<close>\<close>

definition old_format_test :: "('h, 'w, 'z) net_scheme \<Rightarrow> 'h \<Rightarrow> ('c, 'w, error + unit) act" where
  "old_format_test N h =
     await (receive_ping_response_impl N h (from_secs 60)) (\<lambda>result.
       check (case result of Inl (Protocol _) \<Rightarrow> True | _ \<Rightarrow> False))"

definition old_format_sender :: "('h, 'w, 'z) net_scheme \<Rightarrow> 'h \<Rightarrow> ('c, 'w, error + unit) act" where
  "old_format_sender N h = map_err error_from_io (io (net_write_all N h [0x01, 0xFF, 0xFF, 0xFF, 0xFF]))"

subsection \<open>The dialogues of the tests\<close>

lemma read_array_local:
  "read_array N h n = with_local (Vec (replicate n 0) n) (\<lambda>_ w. w)
     (await_try (read_exact N h) (\<lambda>_. with_self (\<lambda>b. ret (Inr (vdata b)))))"
  by (auto simp: read_array_def with_local_def act_simps fun_eq_iff split: prod.split poll.split sum.split)

lemma speaks_read_array [talk_rules]:
  assumes "length bs = n" and "Q (Inr bs) c tr"
  shows "speaks Q (\<lambda>N. read_array N h n) c (Takes bs # tr)"
  unfolding read_array_local using assms by - (rule talk_rules | simp add: vec_simps)+

lemma speaks_read_bytes [talk_rules]:
  assumes "length bs = n" and "Q (Inr bs) c tr"
  shows "speaks Q (\<lambda>N. read_bytes N h n) c (Takes bs # tr)"
  unfolding read_bytes_def using assms by - (rule talk_rules | simp)+

lemma speaks_write_flush [talk_rules]:
  "Q (Inr ()) c tr \<Longrightarrow> speaks Q (\<lambda>N. write_flush N h bs) c (Gives bs # tr)"
  unfolding write_flush_def by (rule talk_rules | simp)+

lemma speaks_send_request [talk_rules]:
  "Q (Inr ()) c tr \<Longrightarrow> speaks Q (\<lambda>N. send_request N h cmd n) c (Gives (request_bytes cmd n) # tr)"
  unfolding send_request_def
  by (simp add: request_encode_def request_header_new_def vec_with_capacity_def Let_def vec_simps
      talk_rules flip: request_bytes_def)

lemma speaks_check [talk_rules]: "b \<Longrightarrow> Q (Inr ()) c tr \<Longrightarrow> speaks Q (\<lambda>N. check b) c tr"
  by (simp add: speaks_ret)

lemma passesI:
  assumes "speaks (\<lambda>a c' u. a = Inr () \<and> u = []) m () tr"
    and "speaks (\<lambda>a c' u. a = Inr () \<and> u = []) n () (map other_side tr)"
  shows "passes k m n"
  using meets_both [of "\<lambda>a. a = Inr ()" m tr "\<lambda>a. a = Inr ()" n k] assms unfolding passes_def by blast

lemma test_server_ready:
  "st_ready (st_set_timeout_config test_config (st_new h h))"
  "st_max_buffer_size (st_set_timeout_config test_config (st_new h h)) = DEFAULT_MAX_BUFFER_SIZE"
  using st_new_wf [of h h]
  by (simp_all add: st_ready_def st_wf_def st_set_timeout_config_def patient_def test_config_def
      default_timeout_config_def timeout_constants st_new_def)

lemma test_tls_server_view:
  "ss_view (ss_set_timeout_config test_config (ss_new h)) = st_set_timeout_config test_config (st_new h h)"
  by (metis ss_view_new ss_view_set_timeout_config)

text \<open>The two readings of a ping, over either transport.\<close>

lemmas test_limits = test_server_ready DEFAULT_MAX_BUFFER_SIZE_def

lemma speaks_ping_servers:
  "speaks (\<lambda>a c' u. a = Inr () \<and> u = []) (\<lambda>N. ping_test_server N ()) () [Takes (request_bytes 0 0), Gives [1]]"
  "speaks (\<lambda>a c' u. a = Inr () \<and> u = []) (\<lambda>N. tls_ping_test_server N ()) () [Takes (request_bytes 0 0), Gives [1]]"
  unfolding ping_test_server_def with_server_def tls_ping_test_server_def with_tls_server_def
  by (rule talk_rules speaks_st_read_command_ping speaks_lifts [OF lifts_ss_read_command]
      | simp add: test_server_ready test_tls_server_view speaks_ret)+

lemma speaks_bad_ping_servers:
  "speaks (\<lambda>a c' u. a = Inr () \<and> u = []) (\<lambda>N. bad_ping_test_server N ()) () [Takes (request_bytes 0 10), Gives [7]]"
  "speaks (\<lambda>a c' u. a = Inr () \<and> u = []) (\<lambda>N. tls_bad_ping_test_server N ()) () [Takes (request_bytes 0 10), Gives [7]]"
  unfolding bad_ping_test_server_def with_server_def tls_bad_ping_test_server_def with_tls_server_def
  by (rule talk_rules speaks_st_read_command_bad_ping speaks_lifts [OF lifts_ss_read_command]
      | simp add: test_limits test_tls_server_view speaks_ret is_ping_size_error_def sublist_code)+

lemma ping_tests:
  "passes k (\<lambda>N. ping_test_client N ()) (\<lambda>N. ping_test_server N ())"
  "passes k (\<lambda>N. ping_test_client N ()) (\<lambda>N. tls_ping_test_server N ())"
proof -
  have "speaks (\<lambda>a c' u. a = Inr () \<and> u = []) (\<lambda>N. ping_test_client N ()) () [Gives (request_bytes 0 0), Takes [1]]"
    unfolding ping_test_client_def by (rule talk_rules | simp)+
  from this speaks_ping_servers show "passes k (\<lambda>N. ping_test_client N ()) (\<lambda>N. ping_test_server N ())"
    "passes k (\<lambda>N. ping_test_client N ()) (\<lambda>N. tls_ping_test_server N ())"
    by (auto intro: passesI)
qed

lemma bad_ping_tests:
  "passes k (\<lambda>N. bad_ping_test_client N ()) (\<lambda>N. bad_ping_test_server N ())"
  "passes k (\<lambda>N. bad_ping_test_client N ()) (\<lambda>N. tls_bad_ping_test_server N ())"
proof -
  have "speaks (\<lambda>a c' u. a = Inr () \<and> u = []) (\<lambda>N. bad_ping_test_client N ()) () [Gives (request_bytes 0 10), Takes [7]]"
    unfolding bad_ping_test_client_def by (rule talk_rules | simp)+
  from this speaks_bad_ping_servers show "passes k (\<lambda>N. bad_ping_test_client N ()) (\<lambda>N. bad_ping_test_server N ())"
    "passes k (\<lambda>N. bad_ping_test_client N ()) (\<lambda>N. tls_bad_ping_test_server N ())"
    by (auto intro: passesI)
qed

definition command_talk :: "turn list" where
  "command_talk =
     [Gives (request_bytes 42 5), Takes [1], Gives (ascii ''hello''), Takes (response_bytes 1 2), Gives [1],
      Takes (ascii ''OK'')]"

lemma command_test: "passes k (\<lambda>N. command_test_client N ()) (\<lambda>N. command_test_server N ())"
proof (rule passesI)
  have enc: "response_encode (response_header_new 1 0) (vec_with_capacity 0) True = Inr (Vec [1] 8)"
    by (simp add: response_encode_def response_header_new_def vec_with_capacity_def vec_push_def vec_extend_def
        vec_len_def grown_cap_def Let_def)
  show "speaks (\<lambda>a c' u. a = Inr () \<and> u = []) (\<lambda>N. command_test_client N ()) () command_talk"
    unfolding command_test_client_def command_talk_def
    by (rule talk_rules
        | simp add: response_decode_bytes [where rest = "[]", simplified] enc)+
  show "speaks (\<lambda>a c' u. a = Inr () \<and> u = []) (\<lambda>N. command_test_server N ()) () (map other_side command_talk)"
    unfolding command_test_server_def with_server_def command_talk_def
    by (rule talk_rules speaks_st_read_command speaks_st_receive_data speaks_st_send_data
        | simp add: test_limits)+
qed

lemma speaks_timeout [talk_rules]:
  assumes "speaks (\<lambda>r c' u. Q (Inr r) c' u) m c tr" and "0 < d"
  shows "speaks Q (\<lambda>N. timeout N d (m N)) c tr"
  by (rule speaks_wrap [where g = id and h = Inr and m = m and d = c and
        in_dl = "\<lambda>dl w. Some (earlier dl (pw_now w + d))"])
     (use assms in \<open>auto simp: timeout_def Let_def\<close>)

lemma old_format_rejected: "passes k (\<lambda>N. old_format_test N ()) (\<lambda>N. old_format_sender N ())"
proof -
  let ?n = "[0xFF, 0xFF, 0xFF, 0xFF] :: byte list"
  have n: "from_be_bytes ?n \<noteq> 0" by (simp add: from_be_bytes_def)
  have "speaks (\<lambda>a c' u. a = Inr ()) (\<lambda>N. old_format_test N ()) () [Takes [1], Takes ?n]"
    unfolding old_format_test_def receive_ping_response_impl_def
    by (rule talk_rules | simp add: n from_secs_def PING_OLD_FORMAT_READ_TIMEOUT_def from_millis_def)+
  moreover have "wrote k (\<lambda>N. old_format_sender N ()) S = 1 # ?n" for S
    by (simp add: wrote_def alone_def old_format_sender_def act_simps)
  then have "answers k (\<lambda>N. old_format_sender N ()) (map other_side [Takes [1], Takes ?n])"
    by (auto simp: answers_def Cons_eq_append_conv)
  ultimately have "meets k (\<lambda>N. old_format_test N ()) (\<lambda>N. old_format_sender N ()) = Ready (Inr ())"
    using meets_speaks [of "\<lambda>a. a = Inr ()"] by blast
  moreover have "meets k (\<lambda>N. old_format_sender N ()) m = Ready (Inr ())" for m :: "(unit, error + unit) party"
    by (simp add: meets_def old_format_sender_def act_simps)
  ultimately show ?thesis by (simp add: passes_def)
qed

subsection \<open>A server that leaves in the middle of a response\<close>

text \<open>\<open>receive_message_mid_frame_eof_returns_connection_closed_mid_frame\<close>\<close>

definition mid_frame_server :: "('h, 'w, 'z) net_scheme \<Rightarrow> 'h \<Rightarrow> (unit, 'w, error + unit) act" where
  "mid_frame_server N stream = with_local () (\<lambda>_. net_close N stream) (
     await_try (read_bytes N stream 8) (\<lambda>req_hdr.
     let data_size = unat (from_be_bytes [req_hdr ! 4, req_hdr ! 5, req_hdr ! 6, req_hdr ! 7]) in
     await_try (write_flush N stream [1]) (\<lambda>_.
     await_try (if data_size > 0 then read_bytes N stream data_size else ret (Inr [])) (\<lambda>_.
     await_try (map_err error_from_io (io (net_write_all N stream (1 # to_be_bytes 10)))) (\<lambda>_.
     write_flush N stream (ascii ''12345''))))))"

definition mid_frame_client :: "('h, 'w, 'y) client_net_scheme \<Rightarrow> string \<Rightarrow> (unit, 'w, error + unit) act" where
  "mid_frame_client N addr = with_client N addr (
     await (ct_handle_message N 1 (ascii ''hello'')) (\<lambda>result.
       check (result = Inl (ConnectionClosedMidFrame 5 10))))"

text \<open>Reading from a peer that has left in the middle of a frame.\<close>

lemma fill_from_cut:
  assumes "peer (pw_sent w) = pw_got w @ bs" "closed (pw_sent w)" "filled + length bs < vec_len buf"
    and "0 < filled + length bs"
  shows "\<exists>buf'. vcap buf' = vcap buf \<and> fill_from (pipe_net k peer closed) h filled dl buf w =
    (Ready (Inl (ConnectionClosedMidFrame (filled + length bs) (vec_len buf))), buf', w\<lparr>pw_got := pw_got w @ bs\<rparr>)"
  using assms
proof (induction "length bs" arbitrary: bs filled buf w rule: less_induct)
  case less
  then have lt: "filled < vec_len buf" by simp
  show ?case
  proof (cases "bs = []")
    case True
    with less.prems lt show ?thesis by (simp add: fill_from.simps pipe_read_def Let_def)
  next
    case False
    let ?n = "min (vec_len buf - filled) (Suc k)"
    let ?b = "take ?n bs" and ?bs' = "drop ?n bs"
    let ?w = "w\<lparr>pw_got := pw_got w @ ?b\<rparr>" and ?buf = "vec_write filled ?b buf"
    have read: "pipe_read k peer closed (vec_len buf - filled) dl w = (Ready (Inr ?b), ?w)"
      using less.prems(1) False lt by (simp add: pipe_read_def Let_def)
    have b: "?b \<noteq> []" "length ?bs' < length bs" "filled + length ?b + length ?bs' = filled + length bs"
      using False lt by auto
    have "\<exists>buf'. vcap buf' = vcap ?buf \<and> fill_from (pipe_net k peer closed) h (filled + length ?b) dl ?buf ?w =
        (Ready (Inl (ConnectionClosedMidFrame (filled + length ?b + length ?bs') (vec_len ?buf))), buf',
          ?w\<lparr>pw_got := pw_got ?w @ ?bs'\<rparr>)"
      by (rule less.hyps [OF b(2)]) (use less.prems b in \<open>simp_all add: vec_simps\<close>)
    moreover have "?w\<lparr>pw_got := pw_got ?w @ ?bs'\<rparr> = w\<lparr>pw_got := pw_got w @ bs\<rparr>" by simp
    ultimately show ?thesis
      using lt read b(1) by (simp add: fill_from.simps [of _ h filled] vec_simps b(3) del: length_take length_drop)
  qed
qed

lemma runs_read_cut:
  assumes "peer S = G @ bs" "closed S" "bs \<noteq> []" "length bs < vec_len buf"
    and "\<And>buf'. vcap buf' = vcap buf \<Longrightarrow> Q (Inl (ConnectionClosedMidFrame (length bs) (vec_len buf))) buf' (S, G @ bs)"
  shows "runs pw_sent pw_got Q (read_exact_or_closed (dial (pipe_net k peer closed)) h) buf (S, G)"
proof (rule runsI)
  fix dl and w :: pipe assume "pw_sent w = fst (S, G)" "pw_got w = snd (S, G)"
  with fill_from_cut [of peer w bs closed 0 buf k h dl] assms(1-4) obtain buf' where "vcap buf' = vcap buf"
    "fill_from (pipe_net k peer closed) h 0 dl buf w =
      (Ready (Inl (ConnectionClosedMidFrame (length bs) (vec_len buf))), buf', w\<lparr>pw_got := G @ bs\<rparr>)"
    by auto
  moreover have "fill_from (dial (pipe_net k peer closed)) h 0 dl buf w = fill_from (pipe_net k peer closed) h 0 dl buf w"
    by (rule fill_from_reads) (simp add: dial_def)
  ultimately show "\<exists>a c' w'. read_exact_or_closed (dial (pipe_net k peer closed)) h dl buf w = (Ready a, c', w') \<and>
      Q a c' (pw_sent w', pw_got w')"
    using assms(5) \<open>pw_sent w = fst (S, G)\<close> by (simp add: read_exact_or_closed_def)
qed

lemma runs_ct_receive_cut:
  assumes "room limit b" "drop (length G) (peer S) = response_bytes 1 n @ r1" "unat n \<le> limit"
    and "peer (S @ [1]) = G @ response_bytes 1 n @ bs" "closed (S @ [1])" "bs \<noteq> []" "length bs < unat n"
    and "\<And>b'. vcap b' = vcap b \<Longrightarrow>
      Q (Inl (ConnectionClosedMidFrame (length bs) (unat n))) b' (S @ [1], G @ response_bytes 1 n @ bs)"
  shows "runs pw_sent pw_got Q (ct_receive_message (dial (pipe_net k peer closed)) () cfg True limit) b (S, G)"
proof -
  note rel = plain_host.reliable [where k = k and peer = peer and closed = closed]
  have "unat n \<noteq> 0" "8 \<le> vcap b" "limit \<le> vcap b" "\<not> limit < unat n"
    using assms(1,3,7) by (auto simp: room_def)
  then show ?thesis
    unfolding ct_receive_message_def Let_def
    apply (intro runs_await_try reliable_conn.runs_ct_receive_header [OF rel _ assms(2)])
      apply (simp_all add: assms(3))
    apply (intro runs_await_try reliable_conn.runs_ct_send_ack [OF rel])
     apply simp_all
    apply (rule conjI impI | rule runs_set_self runs_await_try runs_timed runs_read_cut [where bs = bs]
        | simp add: assms vec_simps)+
    done
qed

lemma runs_dial_first_message_failed:
  assumes "sh_stream c = None" "\<not> ct_keep_alive c" "ct_command_has_answer c"
    and "runs pw_sent pw_got (\<lambda>r b l'. (\<exists>e. r = Inl e) \<and> (\<forall>c'. Q r c' l'))
      (ct_exchange (dial (pipe_net k peer closed)) () cmd data (ct_timeout_config c) True (ct_max_buffer_size c)) (ct_buffer c) l"
  shows "dial_runs Q (ct_handle_message (dial (pipe_net k peer closed)) cmd data) c l"
proof -
  note u = wait_lock_undisturbed [OF plain_host.alone_here]
  have "dial_runs (\<lambda>r d l'. r = Inr () \<and> l' = l \<and> (\<exists>pg. d = c\<lparr>sh_stream := Some (), sh_ping := pg\<rparr>))
      (ct_connect (dial (pipe_net k peer closed))) c l"
    by (rule plain_host.runs_connect [OF assms(1)]) blast
  then have connect: "dial_runs (\<lambda>r d l'. \<exists>pg. r = Inr () \<and> l' = l \<and> d = c\<lparr>sh_stream := Some (), sh_ping := pg\<rparr>)
      (ct_connect (dial (pipe_net k peer closed))) c l"
    by (rule runs_free_mono) blast
  have locked: "runs pw_sent pw_got Q (with_in_flight (ct_handle_locked (dial (pipe_net k peer closed)) cmd data))
      (c\<lparr>sh_stream := Some (), sh_ping := pg\<rparr>) l" for pg
    using assms(3) unfolding ct_handle_locked_def put_stream_def stop_ping_task_def
    by (auto simp: u set_in_flight_def update_ping_def split: sum.split option.split
        intro!: exec_rules runs_mono [OF assms(4)])
  show ?thesis
    unfolding ct_handle_message_def
    by (rule runs_free_with_self, simp add: assms(2) u, rule runs_free_await_try, rule runs_free_mono [OF connect])
       (auto intro: runs_free_runs locked)
qed

lemma mid_frame_test:
  "meets k (\<lambda>N. mid_frame_client (dial N) addr) (\<lambda>N. mid_frame_server N ()) = Ready (Inr ())"
proof -
  let ?req = "request_bytes 1 5" and ?ans = "1 # to_be_bytes 10" and ?hello = "ascii ''hello''" and ?five = "ascii ''12345''"
  let ?server = "\<lambda>N. mid_frame_server N ()"
  let ?talk = "[Takes ?req, Gives [1], Takes ?hello, Gives ?ans, Gives ?five]"
  have five: "unat (from_be_bytes [?req ! 4, ?req ! 5, ?req ! 6, ?req ! 7]) = 5"
    by (simp add: request_bytes_def to_be_bytes_def from_be_bytes_def)
  have server: "speaks (\<lambda>a c' u. a = Inr () \<and> u = []) ?server () ?talk"
    unfolding mid_frame_server_def Let_def by (rule talk_rules | simp add: five)+
  have after: "wrote k ?server S = [1] @ ?ans @ ?five" "left k ?server S" if "prefix (?req @ ?hello) S" for S
  proof -
    have "agrees (\<lambda>_. S) (pw_sent pipe_start) (pw_got pipe_start) ?talk"
      by (rule agrees_fixed) (use that in simp)
    from speaks_goes [OF server this, of k "\<lambda>_. False" "Some 0"]
    obtain c where "alone k ?server S = (Ready (Inr ()), c, moved ?talk pipe_start)"
      by (auto simp: alone_def elim!: wentE)
    then show "wrote k ?server S = [1] @ ?ans @ ?five" "left k ?server S"
      by (simp_all add: wrote_def left_def)
  qed
  have answers: "agrees (wrote k ?server) [] [] (map other_side ?talk)"
    by (rule answers_agrees, simp, rule speaks_answers, rule speaks_mono [OF server]) simp
  let ?N = "dial (pipe_net k (wrote k ?server) (left k ?server))"
  obtain rest where rest: "wrote k ?server ?req = 1 # rest" using answers by (auto simp: prefix_def)
  have exchange: "runs pw_sent pw_got Q (ct_exchange ?N () 1 ?hello cfg True limit) b ([], [])"
    if b: "room limit b" "10 \<le> limit"
      and Q: "\<And>b' l. Q (Inl (ConnectionClosedMidFrame (length ?five) 10)) b' l" for Q cfg limit b
    unfolding ct_exchange_def
  proof (rule runs_await_try, rule reliable_conn.runs_ct_send_message [OF plain_host.reliable])
    show "8 \<le> vcap b" using b by (simp add: room_def)
    from rest show "drop (length []) (wrote k ?server ([] @ request_bytes 1 (usize_as_u32 (length ?hello)))) = 1 # rest" by simp
    show "case Inr () of Inl e \<Rightarrow> Q (Inl e) (Vec [] (vcap b)) ([] @ request_bytes 1 (usize_as_u32 (length ?hello)) @ ?hello, [] @ [1])
      | Inr u \<Rightarrow> runs pw_sent pw_got Q (ct_receive_message ?N () cfg True limit) (Vec [] (vcap b))
          ([] @ request_bytes 1 (usize_as_u32 (length ?hello)) @ ?hello, [] @ [1])"
      unfolding sum.case
      by (rule runs_ct_receive_cut [where n = 10 and bs = ?five])
         (use b Q in \<open>simp_all add: after room_def response_bytes_def ascii_def\<close>)
  qed simp
  have "dial_runs (\<lambda>r c' l. r = Inr ()) (mid_frame_client ?N addr) () ([], [])"
    unfolding mid_frame_client_def
    by (rule plain_host.runs_with_client, rule runs_free_await, rule runs_dial_first_message_failed)
       (use exchange in \<open>auto simp: ct_new_def Let_def room_def vec_with_capacity_def DEFAULT_MAX_BUFFER_SIZE_def runs_free_ret\<close>)
  then show ?thesis
    unfolding meets_def by (auto elim!: runs_freeE [where w = pipe_start])
qed

subsection \<open>All of them\<close>

definition codec_tests_pass :: bool where
  "codec_tests_pass \<longleftrightarrow>
     test_request_header \<and> test_request_header_decode_oversized \<and> test_response_header \<and>
     test_response_header_decode_oversized \<and> ping_header_codec"

definition timeout_tests_pass :: bool where
  "timeout_tests_pass \<longleftrightarrow>
     with_ping_interval_clamps_when_interval_ge_read_header \<and>
     with_ping_interval_clamps_to_half_when_read_header_small \<and>
     with_ping_interval_does_not_change_when_valid \<and> validate_returns_ok_when_valid \<and>
     validate_returns_error_when_invalid \<and> validate_returns_error_when_equal \<and> timeout_invariant"

end
