(* ===== verification/Example_Programs.thy ===== *)
theory Example_Programs
  imports Client_Dialogue Server_Dialogue Example_Clients
begin

section \<open>Whole example programs together\<close>

text \<open>
  The client programs of the examples against the server programs they are meant for, from \<open>main\<close> to
  \<open>main\<close>: the server is not a specification of answers but the program itself, run on what the
  client has written so far.
\<close>

lemma simple_session_truncate: "simple_session (net.truncate R) fuel = simple_session R fuel"
proof (induction fuel)
  case (Suc fuel)
  show ?case unfolding simple_session.simps st_truncate Suc ..
qed simp

text \<open>A host on which the first client is there at once.\<close>

definition host :: "(unit, pipe) net \<Rightarrow> (unit, unit, unit, pipe) runtime" where
  "host N = net.extend N
     \<lparr>rt_bind = (\<lambda>a dl w. (Ready (Inr ()), w)), rt_accept = (\<lambda>l dl w. (Ready (Inr ()), w)),
      rt_sem_new = (\<lambda>n w. w), rt_sem_acquire = (\<lambda>dl w. (Ready True, w)), rt_sem_release = id,
      rt_spawn = (\<lambda>c w. (0, w)), rt_finished = (\<lambda>h w. True), rt_join = (\<lambda>h dl w. (Ready (), w)),
      rt_abort = (\<lambda>h w. w), rt_shutdown_rx = \<lparr>wt_changes = (\<lambda>w. None), wt_observe = (\<lambda>w. (False, w))\<rparr>,
      rt_shutdown_send = (\<lambda>b w. w), rt_build_acceptor = (\<lambda>i p. Inl 0)\<rparr>"

lemma host_net [simp]: "net.truncate (host N) = N" "net_close (host N) = net_close N"
  "rt_bind (host N) a dl w = (Ready (Inr ()), w)" "rt_accept (host N) l dl w = (Ready (Inr ()), w)"
  by (simp_all add: host_def net.defs)

lemma simple_session_host: "simple_session (host N) fuel = simple_session N fuel"
  by (metis simple_session_truncate host_net(1))

subsection \<open>The turns of a session\<close>

definition session_turns :: "(u32 \<times> byte list \<times> byte list) list \<Rightarrow> turn list" where
  "session_turns ms = concat (map (\<lambda>(cmd, data, out). message_turns cmd data out) ms)"

lemma session_turns_simps [simp]:
  "session_turns [] = []"
  "session_turns ((cmd, data, out) # ms) = message_turns cmd data out @ session_turns ms"
  by (simp_all add: session_turns_def)

subsection \<open>The session of the servers\<close>

text \<open>The plain and the TLS server run the same loop, but for the transport and the label.\<close>

primrec echo_session ::
  "string \<Rightarrow> ('h, 'w, 'z) net_scheme \<Rightarrow> nat \<Rightarrow> ('h server_tl, 'w, error + unit option) act" where
  "echo_session label N 0 = ret (Inr None)"
| "echo_session label N (Suc fuel) =
     await_try (st_read_command N) (\<lambda>info.
       case info of
         None \<Rightarrow> ret (Inr (Some ()))
       | Some (cmd, data_size) \<Rightarrow>
           await (st_receive_data N data_size) (\<lambda>received.
             case received of
               Inl e \<Rightarrow> ret (Inr (Some ()))
             | Inr data \<Rightarrow>
                 await (st_send_data N 1 (Some (echo_text label data))) (\<lambda>sent.
                   case sent of
                     Inl e \<Rightarrow> ret (Inr (Some ()))
                   | Inr _ \<Rightarrow> echo_session label N fuel)))"

lemma simple_session_echo: "simple_session N fuel = echo_session ''Echo: '' N fuel"
  by (induction fuel) (simp_all only: simple_session.simps echo_session.simps)

lemma tls_session_echo: "lifts ss_view (tls_session N fuel) (echo_session ''TLS Echo: '' N fuel)"
proof (induction fuel)
  case (Suc fuel)
  then show ?case
    unfolding tls_session.simps echo_session.simps
    by - (rule lift_rules | assumption | simp split: option.split sum.split prod.split | safe)+
qed (simp add: lift_rules)

lemma talks_echo_exchange:
  assumes "st_ready s" "cmd \<noteq> 0" "length data \<le> st_max_buffer_size s" "length data < 2 ^ 32"
    and rest: "talks (\<lambda>N. echo_session label N n) (st_idle s) tr"
  shows "talks (\<lambda>N. echo_session label N (Suc n)) s
    (map other_side (message_turns cmd data (echo_text label data)) @ tr)"
proof -
  have len: "unat (usize_as_u32 (length data)) = length data" using assms(4) by (rule unat_usize_as_u32_small)
  show ?thesis
    unfolding echo_session.simps message_turns_def list.map other_side.simps append_Cons append_Nil
    by (rule talks_await_try, rule speaks_st_read_command)
       (use assms len in \<open>simp_all add: talks_await speaks_st_receive_data speaks_st_send_data\<close>)
qed

lemma talks_echo_session:
  assumes "st_ready s" "length ms < fuel"
    and "\<And>cmd data out. (cmd, data, out) \<in> set ms \<Longrightarrow>
      cmd \<noteq> 0 \<and> length data \<le> st_max_buffer_size s \<and> length data < 2 ^ 32 \<and> out = echo_text label data"
  shows "talks (\<lambda>N. echo_session label N fuel) s (map other_side (session_turns ms))"
  using assms
proof (induction ms arbitrary: s fuel)
  case Nil
  then obtain n where "fuel = Suc n" by (cases fuel) auto
  then show ?case by (simp add: talks_waiting [OF talks_read_command [OF Nil(1)]])
next
  case (Cons m ms)
  obtain n where n: "fuel = Suc n" using Cons.prems(2) by (cases fuel) auto
  obtain cmd data out where m: "m = (cmd, data, out)" by (cases m)
  with Cons.prems(3) have ok: "cmd \<noteq> 0" "length data \<le> st_max_buffer_size s" "length data < 2 ^ 32"
    "out = echo_text label data" by auto
  have "talks (\<lambda>N. echo_session label N n) (st_idle s) (map other_side (session_turns ms))"
    by (rule Cons.IH) (use Cons.prems n in \<open>auto dest: Cons.prems(3)\<close>)
  with talks_echo_exchange [OF Cons.prems(1) ok(1-3)] n m ok(4) show ?case by simp
qed

subsection \<open>The server program\<close>

lemma io_now: "f = (\<lambda>dl w. (Ready a, w)) \<Longrightarrow> io f = ret a"
  by (simp add: fun_eq_iff act_simps)

lemma map_err_ret [simp]: "map_err f (ret (Inr a)) = ret (Inr a)"
  by (simp add: fun_eq_iff act_simps)

lemma st_new_ready: "st_ready (st_new h h')"
  using st_new_wf [of h h']
  by (simp add: st_ready_def patient_def st_new_def default_timeout_config_def timeout_constants)

lemma talks_simple_server:
  assumes "length ms < fuel"
    and "\<And>cmd data out. (cmd, data, out) \<in> set ms \<Longrightarrow>
      cmd \<noteq> 0 \<and> length data \<le> DEFAULT_MAX_BUFFER_SIZE \<and> length data < 2 ^ 32 \<and> out = echo_text ''Echo: '' data"
  shows "talks (\<lambda>N. simple_server_main (host N) fuel (Suc n)) () (map other_side (session_turns ms))"
proof -
  have here: "io (rt_bind (host N) a) = ret (Inr ())" "io (rt_accept (host N) l) = ret (Inr ())" for N a l
    by (rule io_now, simp add: fun_eq_iff)+
  have "talks (\<lambda>N. simple_session N fuel) (st_new () ()) (map other_side (session_turns ms))"
    unfolding simple_session_echo
    by (rule talks_echo_session [OF st_new_ready assms(1)]) (use assms(2) in \<open>simp add: st_new_limit\<close>)
  then show ?thesis
    by (rule talks_wrapped)
       (simp add: simple_server_main_def here simple_session_host act_simps with_local_def)
qed

text \<open>The TLS server runs a task per connection; its handshake succeeds and leaves the stream as it is.\<close>

definition tls_host_env :: "(unit, pipe) net \<Rightarrow> (unit, unit, pipe) server_env" where
  "tls_host_env N =
     \<lparr>se_net = N, se_tls_accept = (\<lambda>acceptor h dl w. (Ready (Inr h), w)), se_alloc = (\<lambda>n. True),
      se_shutdown_rx = \<lparr>wt_changes = (\<lambda>w. None), wt_observe = (\<lambda>w. (False, w))\<rparr>\<rparr>"

lemma talks_tls_server:
  assumes "length ms < fuel"
    and "\<And>cmd data out. (cmd, data, out) \<in> set ms \<Longrightarrow>
      cmd \<noteq> 0 \<and> length data \<le> DEFAULT_MAX_BUFFER_SIZE \<and> length data < 2 ^ 32 \<and> out = echo_text ''TLS Echo: '' data"
  shows "talks (\<lambda>N. tls_server_task (tls_host_env N) () () fuel) () (map other_side (session_turns ms))"
proof -
  have "talks (\<lambda>N. echo_session ''TLS Echo: '' N fuel) (ss_view (ss_new ())) (map other_side (session_turns ms))"
    unfolding ss_view_new
    by (rule talks_echo_session [OF st_new_ready assms(1)]) (use assms(2) in \<open>simp add: st_new_limit\<close>)
  from talks_lifts [OF tls_session_echo this]
  have "talks (\<lambda>N. tls_session N fuel) (ss_new ()) (map other_side (session_turns ms))" .
  then show ?thesis
    by (rule talks_wrapped) (simp add: tls_server_task_def tls_host_env_def act_simps with_local_def)
qed

subsection \<open>The client programs\<close>

text \<open>The requests of a client: the numbered text, and what comes back.\<close>

definition echo_ms :: "string \<Rightarrow> string \<Rightarrow> nat list \<Rightarrow> (u32 \<times> byte list \<times> byte list) list" where
  "echo_ms label msg is = map (\<lambda>i. (1, ascii msg @ decimal i, ascii (label @ msg) @ decimal i)) is"

lemma echo_message:
  assumes "i \<in> set [1..<6]" and "\<And>b. b \<in> set (ascii msg) \<Longrightarrow> b < 0x80"
  shows "echo_text label (ascii msg @ decimal i) = ascii (label @ msg) @ decimal i"
    and "length (decimal i) = 1"
proof -
  have i: "i = 1 \<or> i = 2 \<or> i = 3 \<or> i = 4 \<or> i = 5" using assms by auto
  then have d: "decimal i = [of_nat (48 + i)]" by (subst decimal.simps) auto
  have "(of_nat (48 + i) :: byte) < 0x80" using i by auto
  then have "utf8_valid (ascii msg @ decimal i)"
    by (intro utf8_valid_ascii) (use assms(2) in \<open>auto simp: d\<close>)
  then show "echo_text label (ascii msg @ decimal i) = ascii (label @ msg) @ decimal i"
    by (simp add: echo_text_def utf8_lossy_valid ascii_def)
  show "length (decimal i) = 1" by (simp add: d)
qed

lemma echo_ms_served:
  assumes "set is \<subseteq> set [1..<6]" "\<And>b. b \<in> set (ascii msg) \<Longrightarrow> b < 0x80" "length msg < 1000"
    and "(cmd, data, out) \<in> set (echo_ms label msg is)"
  shows "cmd \<noteq> 0 \<and> length data \<le> DEFAULT_MAX_BUFFER_SIZE \<and> length data < 2 ^ 32 \<and> out = echo_text label data"
proof -
  obtain i where i: "i \<in> set is" "cmd = 1" "data = ascii msg @ decimal i" "out = ascii (label @ msg) @ decimal i"
    using assms(4) unfolding echo_ms_def by auto
  then have "i \<in> set [1..<6]" using assms(1) by blast
  from echo_message [OF this assms(2)] i assms(3) show ?thesis
    by (simp add: DEFAULT_MAX_BUFFER_SIZE_def)
qed

text \<open>A loop that sends the requests one after another, with a pause after each.\<close>

lemma runs_echo_loop:
  assumes "loop [] = ret (Inr [])"
    and "\<And>i is. loop (i # is) = await_try (send i) (\<lambda>response. await pause (\<lambda>_.
      await_try (loop is) (\<lambda>responses. ret (Inr (response # responses)))))"
    and step: "\<And>i c S G t Q. i \<in> A \<Longrightarrow> ready c \<Longrightarrow>
      agrees peer S G (message_turns 1 (ascii msg @ decimal i) (ascii (label @ msg) @ decimal i) @ t) \<Longrightarrow>
      (\<And>c' l. ready c' \<Longrightarrow> agrees peer (fst l) (snd l) t \<Longrightarrow> Q (Inr (ascii (label @ msg) @ decimal i)) c' l) \<Longrightarrow>
      dial_runs Q (send i) c (S, G)"
    and pause: "\<And>Q c l. Q () c l \<Longrightarrow> dial_runs Q pause c l"
    and "set is \<subseteq> A" "ready c" "agrees peer (fst l) (snd l) (session_turns (echo_ms label msg is))"
    and "\<And>c' l. Q (Inr (map (\<lambda>i. ascii (label @ msg) @ decimal i) is)) c' l"
  shows "dial_runs Q (loop is) c l"
  using assms(5-8)
proof (induction "is" arbitrary: c l Q)
  case Nil
  then show ?case by (simp add: assms(1) runs_free_ret)
next
  case (Cons i "is")
  obtain S G where l: "l = (S, G)" by (cases l)
  have "i \<in> A" "set is \<subseteq> A" using Cons.prems(1) by auto
  have "agrees peer S G (message_turns 1 (ascii msg @ decimal i) (ascii (label @ msg) @ decimal i) @
      session_turns (echo_ms label msg is))"
    using Cons.prems(3) l by (simp add: echo_ms_def)
  then show ?case
    unfolding assms(2) l
    by (intro runs_free_await_try step [OF \<open>i \<in> A\<close> Cons.prems(2)])
       (auto intro!: runs_free_await pause runs_free_await_try Cons.IH [OF \<open>set is \<subseteq> A\<close>] runs_free_ret Cons.prems(4) [simplified])
qed

lemma probing_valid: "with_ping_interval probing_config (tc_ping_interval probing_config) = probing_config"
    "validate probing_config = Inr ()"
  by (simp_all add: probing_config_def with_ping_interval_def validate_def default_timeout_config_def
      timeout_constants Let_def)

lemma echo_lengths:
  assumes "i \<in> set [1..<6]" "length msg < 1000" "length label < 1000"
  shows "length (ascii msg @ decimal i) < 2 ^ 32" "length (ascii (label @ msg) @ decimal i) < 2 ^ 32"
    "length (ascii (label @ msg) @ decimal i) \<le> DEFAULT_MAX_BUFFER_SIZE"
  using assms echo_message(2) [OF assms(1), of "[]"] by (simp_all add: ascii_def DEFAULT_MAX_BUFFER_SIZE_def)

lemma runs_simple_loop:
  assumes "set is \<subseteq> set [1..<6]" "client_ready () c" "ct_max_buffer_size c = DEFAULT_MAX_BUFFER_SIZE"
    and "agrees peer S G (session_turns (echo_ms ''Echo: '' ''Message #'' is))"
    and "\<And>c' l. Q (Inr (map (\<lambda>i. ascii (''Echo: '' @ ''Message #'') @ decimal i) is)) c' l"
  shows "dial_runs Q (simple_client_loop (dial (pipe_net k peer closed)) is) c (S, G)"
proof (rule runs_echo_loop [where A = "set [1..<6]" and label = "''Echo: ''" and msg = "''Message #''" and peer = peer and
      ready = "\<lambda>c. client_ready () c \<and> ct_max_buffer_size c = DEFAULT_MAX_BUFFER_SIZE"])
  fix i c S G t and Q :: "error + byte list \<Rightarrow> unit client_tl \<Rightarrow> logs \<Rightarrow> bool"
  assume i: "i \<in> set [1..<6]" and ready: "client_ready () c \<and> ct_max_buffer_size c = DEFAULT_MAX_BUFFER_SIZE"
    and ag: "agrees peer S G (message_turns 1 (ascii ''Message #'' @ decimal i)
      (ascii (''Echo: '' @ ''Message #'') @ decimal i) @ t)"
    and Q: "\<And>c' l. client_ready () c' \<and> ct_max_buffer_size c' = DEFAULT_MAX_BUFFER_SIZE \<Longrightarrow>
      agrees peer (fst l) (snd l) t \<Longrightarrow> Q (Inr (ascii (''Echo: '' @ ''Message #'') @ decimal i)) c' l"
  note len = echo_lengths [OF i, of "''Message #''" "''Echo: ''"]
  show "dial_runs Q (ct_handle_message (dial (pipe_net k peer closed)) 1 (ascii ''Message #'' @ decimal i)) c (S, G)"
    by (rule runs_free_runs, rule plain_host.runs_message [OF ag conjunct1 [OF ready]])
       (use len ready Q in auto)
qed (use assms plain_host.runs_sleep in \<open>auto simp only: simple_client_loop.simps fst_conv snd_conv\<close>)

lemma runs_simple_client:
  assumes "agrees peer S G (session_turns (echo_ms ''Echo: '' ''Message #'' [1..<6]))"
    and "\<And>l. Q (Inr (map (\<lambda>i. ascii (''Echo: '' @ ''Message #'') @ decimal i) [1..<6])) () l"
  shows "dial_runs Q (simple_client_main (dial (pipe_net k peer closed))) () (S, G)"
  unfolding simple_client_main_def
proof (rule plain_host.runs_with_client, rule runs_free_await, rule plain_host.runs_set_keep_alive, rule runs_free_await_try,
    rule plain_host.runs_set_timeout_config, unfold sum.case probing_valid, rule refl, rule runs_free_await_try,
    rule plain_host.runs_connect, simp add: ct_new_def Let_def, unfold sum.case, rule runs_free_await_try)
  fix now pg pg1 pg2
  let ?c = "(ct_new now ''127.0.0.1:8080'')\<lparr>ct_keep_alive := True, sh_ping := pg\<rparr>"
  let ?c2 = "?c\<lparr>sh_ping := pg1, ct_timeout_config := probing_config\<rparr>\<lparr>sh_stream := Some (), sh_ping := pg2\<rparr>"
  have "client_ready () ?c2" "ct_max_buffer_size ?c2 = DEFAULT_MAX_BUFFER_SIZE"
    using ct_new_wf [of now "''127.0.0.1:8080''"] by (simp_all add: client_ready_def ct_wf_def ct_new_def Let_def)
  then show "dial_runs (\<lambda>r c' l'. case r of Inl e \<Rightarrow> Q (Inl e) () l'
      | Inr responses \<Rightarrow> dial_runs (\<lambda>r c'. Q r ())
          (await_try (ct_disconnect (dial (pipe_net k peer closed))) (\<lambda>_. ret (Inr responses))) c' l')
      (simple_client_loop (dial (pipe_net k peer closed)) [1..<6]) ?c2 (S, G)"
    by (rule runs_simple_loop [OF subset_refl _ _ assms(1)], unfold sum.case)
       (intro runs_free_await_try plain_host.runs_disconnect, unfold sum.case, rule runs_free_ret, rule assms(2))
qed

lemma runs_tls_loop:
  assumes "set is \<subseteq> set [1..<6]" "client_ready () (cs_view c)" "cs_max_buffer_size c = DEFAULT_MAX_BUFFER_SIZE"
    and "agrees peer S G (session_turns (echo_ms ''TLS Echo: '' ''TLS Message #'' is))"
    and "\<And>c' l. Q (Inr (map (\<lambda>i. ascii (''TLS Echo: '' @ ''TLS Message #'') @ decimal i) is)) c' l"
  shows "dial_runs Q (tls_client_loop (dial_tls verdict (pipe_net k peer closed)) is) c (S, G)"
proof (rule runs_echo_loop [where A = "set [1..<6]" and label = "''TLS Echo: ''" and msg = "''TLS Message #''" and
      peer = peer and ready = "\<lambda>c. client_ready () (cs_view c) \<and> cs_max_buffer_size c = DEFAULT_MAX_BUFFER_SIZE"])
  fix i c S G t and Q :: "error + byte list \<Rightarrow> unit client_tls \<Rightarrow> logs \<Rightarrow> bool"
  assume i: "i \<in> set [1..<6]" and ready: "client_ready () (cs_view c) \<and> cs_max_buffer_size c = DEFAULT_MAX_BUFFER_SIZE"
    and ag: "agrees peer S G (message_turns 1 (ascii ''TLS Message #'' @ decimal i)
      (ascii (''TLS Echo: '' @ ''TLS Message #'') @ decimal i) @ t)"
    and Q: "\<And>c' l. client_ready () (cs_view c') \<and> cs_max_buffer_size c' = DEFAULT_MAX_BUFFER_SIZE \<Longrightarrow>
      agrees peer (fst l) (snd l) t \<Longrightarrow> Q (Inr (ascii (''TLS Echo: '' @ ''TLS Message #'') @ decimal i)) c' l"
  note len = echo_lengths [OF i, of "''TLS Message #''" "''TLS Echo: ''"]
  show "dial_runs Q (cs_handle_message (dial_tls verdict (pipe_net k peer closed)) 1 (ascii ''TLS Message #'' @ decimal i)) c (S, G)"
    by (rule runs_free_runs, rule tls_host.runs_cs_message [OF ag conjunct1 [OF ready]])
       (use len ready Q in auto)
qed (use assms tls_host.runs_sleep in \<open>auto simp only: tls_client_loop.simps fst_conv snd_conv\<close>)

lemma runs_tls_client:
  assumes "verdict ''localhost'' = None"
    and "agrees peer S G (session_turns (echo_ms ''TLS Echo: '' ''TLS Message #'' [1..<4]))"
    and "\<And>l. Q (Inr (map (\<lambda>i. ascii (''TLS Echo: '' @ ''TLS Message #'') @ decimal i) [1..<4])) () l"
  shows "dial_runs Q (tls_client_main (dial_tls verdict (pipe_net k peer closed))) () (S, G)"
  unfolding tls_client_main_def
proof (rule tls_host.runs_with_tls_client, rule runs_free_set_self, rule runs_free_await,
    rule tls_host.runs_cs_set_keep_alive, rule runs_free_await_try,
    rule tls_host.runs_cs_set_timeout_config, unfold sum.case probing_valid, rule refl, rule runs_free_await_try,
    rule tls_host.runs_cs_connect, simp add: cs_set_domain_def cs_new_def Let_def,
    simp add: cs_set_domain_def PLACEHOLDER_DOMAIN_def, simp add: cs_set_domain_def assms(1), unfold sum.case,
    rule runs_free_await_try)
  fix now pg pg1 pg2
  let ?c = "(cs_set_domain ''localhost'' (cs_new now ''127.0.0.1:8443''))\<lparr>cs_keep_alive := True, sh_ping := pg\<rparr>"
  let ?c2 = "?c\<lparr>sh_ping := pg1, cs_timeout_config := probing_config\<rparr>\<lparr>sh_stream := Some (), sh_ping := pg2\<rparr>"
  have "client_ready () (cs_view ?c2)" "cs_max_buffer_size ?c2 = DEFAULT_MAX_BUFFER_SIZE"
    by (simp_all add: client_ready_def ct_wf_def cs_set_domain_def cs_new_def Let_def room_def
        vec_with_capacity_def DEFAULT_MAX_BUFFER_SIZE_def)
  then show "dial_runs (\<lambda>r c' l'. case r of Inl e \<Rightarrow> Q (Inl e) () l'
      | Inr responses \<Rightarrow> dial_runs (\<lambda>r c'. Q r ())
          (await_try (cs_disconnect (dial_tls verdict (pipe_net k peer closed))) (\<lambda>_. ret (Inr responses))) c' l')
      (tls_client_loop (dial_tls verdict (pipe_net k peer closed)) [1..<4]) ?c2 (S, G)"
    by (rule runs_tls_loop [rotated], intro assms(2), unfold sum.case)
       (intro runs_free_await_try tls_host.runs_cs_disconnect, unfold sum.case, rule runs_free_ret, rule assms(3), auto)
qed

text \<open>The program does not turn the check of the certificate off, so an untrusted one is the end of it.\<close>

lemma runs_tls_client_untrusted:
  assumes "verdict ''localhost'' = Some e" and Q: "Q (Inl (error_from_tls e)) () (S, G)"
  shows "dial_runs Q (tls_client_main (dial_tls verdict (pipe_net k peer closed))) () (S, G)"
  unfolding tls_client_main_def
proof (rule tls_host.runs_with_tls_client, rule runs_free_set_self, rule runs_free_await,
    rule tls_host.runs_cs_set_keep_alive, rule runs_free_await_try,
    rule tls_host.runs_cs_set_timeout_config, unfold sum.case probing_valid, rule refl, rule runs_free_await_try,
    rule tls_host.runs_cs_connect_untrusted)
qed (use Q in \<open>simp_all add: cs_set_domain_def cs_new_def Let_def PLACEHOLDER_DOMAIN_def assms(1)\<close>)

subsection \<open>Main against main\<close>

text \<open>The client's run is what it meets when the server answers its turns.\<close>

lemma meets_talking_server:
  assumes "talks n () (map other_side tr)"
    and "\<And>peer closed. agrees peer [] [] tr \<Longrightarrow> dial_runs (\<lambda>r c' l. r = a) (m (pipe_net k peer closed)) () ([], [])"
  shows "meets k m n = Ready a"
proof -
  from answers_agrees [OF talks_answers [OF assms(1)]] have "agrees (wrote k n) [] [] tr" .
  from assms(2) [OF this, of "left k n"] show ?thesis
    unfolding meets_def by (auto elim!: runs_freeE [where w = pipe_start])
qed

lemma simple_example_echoes:
  assumes "5 < fuel"
  shows "meets k (\<lambda>N. simple_client_main (dial N)) (\<lambda>N. simple_server_main (host N) fuel (Suc n)) =
    Ready (Inr (map (\<lambda>i. ascii (''Echo: '' @ ''Message #'') @ decimal i) [1..<6]))"
proof (rule meets_talking_server [OF talks_simple_server])
  let ?ms = "echo_ms ''Echo: '' ''Message #'' [1..<6]"
  show "length ?ms < fuel" using assms by (simp add: echo_ms_def)
  show "cmd \<noteq> 0 \<and> length data \<le> DEFAULT_MAX_BUFFER_SIZE \<and> length data < 2 ^ 32 \<and> out = echo_text ''Echo: '' data"
    if "(cmd, data, out) \<in> set ?ms" for cmd data out
    by (rule echo_ms_served [OF subset_refl _ _ that]) (auto simp: ascii_def)
  show "dial_runs (\<lambda>r c' l. r = Inr (map (\<lambda>i. ascii (''Echo: '' @ ''Message #'') @ decimal i) [1..<6]))
      (simple_client_main (dial (pipe_net k peer closed))) () ([], [])"
    if "agrees peer [] [] (session_turns ?ms)" for peer closed
    by (rule runs_simple_client [OF that]) (rule refl)
qed

lemma tls_example_echoes:
  assumes "3 < fuel" "verdict ''localhost'' = None"
  shows "meets k (\<lambda>N. tls_client_main (dial_tls verdict N)) (\<lambda>N. tls_server_task (tls_host_env N) () () fuel) =
    Ready (Inr (map (\<lambda>i. ascii (''TLS Echo: '' @ ''TLS Message #'') @ decimal i) [1..<4]))"
proof (rule meets_talking_server [OF talks_tls_server])
  let ?ms = "echo_ms ''TLS Echo: '' ''TLS Message #'' [1..<4]"
  show "length ?ms < fuel" using assms by (simp add: echo_ms_def)
  show "cmd \<noteq> 0 \<and> length data \<le> DEFAULT_MAX_BUFFER_SIZE \<and> length data < 2 ^ 32 \<and> out = echo_text ''TLS Echo: '' data"
    if "(cmd, data, out) \<in> set ?ms" for cmd data out
    by (rule echo_ms_served [OF _ _ _ that]) (auto simp: ascii_def)
  show "dial_runs (\<lambda>r c' l. r = Inr (map (\<lambda>i. ascii (''TLS Echo: '' @ ''TLS Message #'') @ decimal i) [1..<4]))
      (tls_client_main (dial_tls verdict (pipe_net k peer closed))) () ([], [])"
    if "agrees peer [] [] (session_turns ?ms)" for peer closed
    by (rule runs_tls_client [where verdict = verdict, OF assms(2) that]) (rule refl)
qed

lemma tls_example_untrusted:
  assumes "verdict ''localhost'' = Some e"
  shows "\<exists>w'. tls_client_main (dial_tls verdict (pipe_net k peer closed)) None () w =
      (Ready (Inl (error_from_tls e)), (), w') \<and> pw_sent w' = pw_sent w \<and> pw_got w' = pw_got w"
proof -
  have "dial_runs (\<lambda>r c' l. r = Inl (error_from_tls e) \<and> l = (pw_sent w, pw_got w))
      (tls_client_main (dial_tls verdict (pipe_net k peer closed))) () (pw_sent w, pw_got w)"
    by (rule runs_tls_client_untrusted [where verdict = verdict, OF assms]) simp
  then show ?thesis
    by (rule runs_freeE [where w = w]) auto
qed

text \<open>C26: the example programs work together. Against \<open>simple_server\<close>, from \<open>main\<close> to \<open>main\<close> and with
  enough fuel for five requests and the one it goes on to wait for, \<open>simple_client\<close> ends without an
  error and has received the five echoes. Against the task \<open>tls_server\<close> runs for its connection,
  \<open>tls_client\<close> has received its three if its host trusts the certificate of the server for
  \<open>localhost\<close>. Both hold however the bytes are cut into pieces on the way. The certificate of
  \<open>tls_server\<close> is a new self-signed one at every start and \<open>tls_client\<close> leaves the check of certificates
  on, so on a host that does not trust it \<open>tls_client\<close> ends with the error of the handshake, whatever the
  peer does, before it has sent or received a byte of its own.\<close>

theorem example_programs_echo:
  assumes "5 < fuel"
  shows "meets k (\<lambda>N. simple_client_main (dial N)) (\<lambda>N. simple_server_main (host N) fuel (Suc n)) =
      Ready (Inr (map (\<lambda>i. ascii (''Echo: '' @ ''Message #'') @ decimal i) [1..<6])) \<and>
    (verdict ''localhost'' = None \<longrightarrow>
      meets k (\<lambda>N. tls_client_main (dial_tls verdict N)) (\<lambda>N. tls_server_task (tls_host_env N) () () fuel) =
        Ready (Inr (map (\<lambda>i. ascii (''TLS Echo: '' @ ''TLS Message #'') @ decimal i) [1..<4]))) \<and>
    (\<forall>e. verdict ''localhost'' = Some e \<longrightarrow>
      (\<exists>w'. tls_client_main (dial_tls verdict (pipe_net k peer closed)) None () w =
        (Ready (Inl (error_from_tls e)), (), w') \<and> pw_sent w' = pw_sent w \<and> pw_got w' = pw_got w))"
proof (intro conjI impI allI)
  show "meets k (\<lambda>N. simple_client_main (dial N)) (\<lambda>N. simple_server_main (host N) fuel (Suc n)) =
      Ready (Inr (map (\<lambda>i. ascii (''Echo: '' @ ''Message #'') @ decimal i) [1..<6]))"
    by (rule simple_example_echoes [OF assms])
  show "meets k (\<lambda>N. tls_client_main (dial_tls verdict N)) (\<lambda>N. tls_server_task (tls_host_env N) () () fuel) =
      Ready (Inr (map (\<lambda>i. ascii (''TLS Echo: '' @ ''TLS Message #'') @ decimal i) [1..<4]))"
    if "verdict ''localhost'' = None"
    using tls_example_echoes [where verdict = verdict, OF _ that] assms by simp
qed (erule tls_example_untrusted [where verdict = verdict])

text \<open>A host that trusts the certificate, and one that does not.\<close>

theorem example_programs_echo_witness:
  "meets 0 (\<lambda>N. simple_client_main (dial N)) (\<lambda>N. simple_server_main (host N) 6 1) =
      Ready (Inr (map (\<lambda>i. ascii (''Echo: '' @ ''Message #'') @ decimal i) [1..<6])) \<and>
    meets 0 (\<lambda>N. tls_client_main (dial_tls (\<lambda>_. None) N)) (\<lambda>N. tls_server_task (tls_host_env N) () () 6) =
      Ready (Inr (map (\<lambda>i. ascii (''TLS Echo: '' @ ''TLS Message #'') @ decimal i) [1..<4])) \<and>
    (\<exists>w'. tls_client_main (dial_tls (\<lambda>_. Some 18) (pipe_net 0 (\<lambda>_. []) (\<lambda>_. False))) None () pipe_start =
      (Ready (Inl (error_from_tls 18)), (), w') \<and> pw_sent w' = [])"
  using example_programs_echo [of 6 0 0 "\<lambda>_. None"]
    example_programs_echo [of 6 0 0 "\<lambda>_. Some 18" "\<lambda>_. []" "\<lambda>_. False" pipe_start]
  by (auto simp: pipe_start_def)

end
