(* ===== verification/Mock_Server.thy ===== *)
theory Mock_Server
  imports Keep_Alive Unit_Tests Example_Programs
begin

section \<open>The tests that count pings\<close>

text \<open>
  The tests of \<open>client_tl.rs\<close> against a mock server in a task of its own, which counts its connections
  and the pings it answers. The client pings by itself, so its ping task runs while the test sleeps.
\<close>

subsection \<open>The mock server\<close>

text \<open>The counters, which the test may or may not pass to the server.\<close>

record counters =
  mk_connections :: "nat option"
  mk_pings :: "nat option"

definition mock_config :: timeout_config where
  "mock_config = default_timeout_config\<lparr>tc_read_header := from_secs 10\<rparr>"

definition on_server :: "('s, 'w, 'a) act \<Rightarrow> ('s \<times> 'c, 'w, 'a) act" where
  "on_server m = borrow fst (\<lambda>s (_, c). (s, c)) m"

primrec mock_session ::
  "('h, 'w, 'z) net_scheme \<Rightarrow> nat \<Rightarrow> ('h server_tl \<times> counters, 'w, unit option) act" where
  "mock_session N 0 = ret None"
| "mock_session N (Suc fuel) =
     await (on_server (st_read_command N)) (\<lambda>r.
       case r of
         Inr (Some (command, data_size)) \<Rightarrow>
           await (if data_size > 0 then await (on_server (st_receive_data N data_size)) (\<lambda>_. ret ()) else ret ()) (\<lambda>_.
           await (on_server (st_send_data N 1 (Some (ascii ''OK'')))) (\<lambda>_. mock_session N fuel))
       | Inr None \<Rightarrow>
           set_self (\<lambda>(s, c). (s, c\<lparr>mk_pings := map_option Suc (mk_pings c)\<rparr>)) (mock_session N fuel)
       | Inl e \<Rightarrow> ret (Some ()))"

declare mock_session.simps [simp del]

text \<open>A value the loop owns for the length of \<open>m\<close>, beside the counters.\<close>

definition owning :: "'s \<Rightarrow> ('s \<Rightarrow> 'w \<Rightarrow> 'w) \<Rightarrow> ('s \<times> 'c, 'w, 'a) act \<Rightarrow> ('c, 'w, 'a) act" where
  "owning s drop_s m = (\<lambda>dl c w. case m dl (s, c) w of (r, (s', c'), w') \<Rightarrow> (r, c', drop_s s' w'))"

primrec run_mock_server_tl ::
  "('h, 'l, 'acc, 'w) runtime \<Rightarrow> 'l \<Rightarrow> nat \<Rightarrow> (counters, 'w, unit option) act" where
  "run_mock_server_tl R listener 0 = ret None"
| "run_mock_server_tl R listener (Suc fuel) =
     await (io (rt_accept R listener)) (\<lambda>accepted.
       case accepted of
         Inl e \<Rightarrow> ret (Some ())
       | Inr stream \<Rightarrow>
           set_self (\<lambda>c. c\<lparr>mk_connections := map_option Suc (mk_connections c)\<rparr>) (
             await (owning (st_set_timeout_config mock_config (st_new stream stream)) (\<lambda>s. net_close R (st_reader s))
                      (mock_session R fuel)) (\<lambda>r.
               case r of None \<Rightarrow> ret None | Some _ \<Rightarrow> run_mock_server_tl R listener fuel)))"

subsection \<open>The tests\<close>

definition keeping_client ::
  "('h, 'w, 'y) client_net_scheme \<Rightarrow> string \<Rightarrow> duration \<Rightarrow> ('h client_tl, 'w, error + unit) act \<Rightarrow>
     (unit, 'w, error + unit) act" where
  "keeping_client N addr interval m = with_client N addr (
     await (ct_set_keep_alive N True) (\<lambda>_.
     await_try (ct_set_timeout_config N (default_timeout_config\<lparr>tc_ping_interval := interval\<rparr>)) (\<lambda>_. m)))"

definition pinging_client ::
  "('h, 'w, 'y) client_net_scheme \<Rightarrow> string \<Rightarrow> duration \<Rightarrow> ('h client_tl, 'w, error + unit) act \<Rightarrow>
     (unit, 'w, error + unit) act" where
  "pinging_client N addr interval m = keeping_client N addr interval (await_try (ct_connect N) (\<lambda>_. m))"

text \<open>\<open>server_tl_ping_no_payload\<close> in \<open>client_tl.rs\<close>: a ping by hand, on the client's own stream.\<close>

definition client_tl_ping_no_payload ::
  "('h, 'w, 'y) client_net_scheme \<Rightarrow> string \<Rightarrow> (unit, 'w, error + unit) act" where
  "client_tl_ping_no_payload N addr = pinging_client N addr (from_millis 100) (
     await (wait_lock N) (\<lambda>_. with_self (\<lambda>client.
       case sh_stream client of
         None \<Rightarrow> check False
       | Some stream \<Rightarrow>
           await_try (send_request N stream 0 0) (\<lambda>_.
           await_try (read_bytes N stream 1) (\<lambda>response.
           await_try (check (response ! 0 = 1)) (\<lambda>_.
           ct_disconnect N))))))"

text \<open>
  The test sleeps while the ping task runs that \<open>connect\<close> has just spawned; what follows is a
  \<open>disconnect\<close>, which aborts the task.
\<close>

definition sleep_while_pinging ::
  "('h, 'w, 'y) task_net_scheme \<Rightarrow> nat \<Rightarrow> duration \<Rightarrow> (('h, 'z) shared_scheme, 'w, unit) act" where
  "sleep_while_pinging N fuel d = (\<lambda>dl c w.
     let t = net_now N w + d in
     case ping_task N fuel (Some (earlier dl t)) c w of
       (_, c', w') \<Rightarrow> io (net_sleep N (t - net_now N w')) dl c' w')"

definition client_ping_timer ::
  "('h, 'w, 'y) client_net_scheme \<Rightarrow> string \<Rightarrow> nat \<Rightarrow> (unit, 'w, error + unit) act" where
  "client_ping_timer N addr fuel = pinging_client N addr (from_millis 100) (
     await (sleep_while_pinging N fuel (from_millis 350)) (\<lambda>_. ct_disconnect N))"

text \<open>The mock server as the other party, and the test with its last assertion, on the count.\<close>

abbreviation uncounted :: counters where
  "uncounted \<equiv> \<lparr>mk_connections = None, mk_pings = Some 0\<rparr>"

definition mock_party :: "nat \<Rightarrow> (unit, unit option) party" where
  "mock_party fuel = (\<lambda>N. with_local uncounted (\<lambda>_ w. w) (run_mock_server_tl (host N) () fuel))"

definition ping_count :: "nat \<Rightarrow> nat \<Rightarrow> byte list \<Rightarrow> nat option" where
  "ping_count k fuel S =
     mk_pings (fst (snd (run_mock_server_tl (host (so_far k S)) () fuel (Some 0) uncounted pipe_start)))"

definition counts :: "nat \<Rightarrow> (unit, error + unit) party \<Rightarrow> nat \<Rightarrow> (nat \<Rightarrow> bool) \<Rightarrow> bool" where
  "counts k m fuel expected \<longleftrightarrow>
     (case m (pipe_net k (wrote k (mock_party fuel)) (left k (mock_party fuel))) None () pipe_start of
        (r, _, w) \<Rightarrow> r = Ready (Inr ()) \<and>
          (case ping_count k fuel (pw_sent w) of None \<Rightarrow> False | Some n \<Rightarrow> expected n))"

subsection \<open>Pings at the mock server\<close>

lemma mock_session_truncate: "mock_session (net.truncate R) fuel = mock_session R fuel"
proof (induction fuel)
  case (Suc fuel)
  show ?case unfolding mock_session.simps st_truncate Suc ..
qed (simp add: mock_session.simps)

lemma mock_session_host: "mock_session (host N) fuel = mock_session N fuel"
  by (metis mock_session_truncate host_net(1))

abbreviation pings :: "nat \<Rightarrow> byte list" where
  "pings n \<equiv> concat (replicate n (request_bytes 0 0))"

definition pinged :: "nat \<Rightarrow> counters \<Rightarrow> counters" where
  "pinged n c = c\<lparr>mk_pings := map_option ((+) n) (mk_pings c)\<rparr>"

lemma pinged_simps [simp]:
  "pinged 0 c = c" "pinged n (pinged m c) = pinged (n + m) c" "mk_pings (pinged n c) = map_option ((+) n) (mk_pings c)"
  "c\<lparr>mk_pings := map_option Suc (mk_pings c)\<rparr> = pinged 1 c"
  by (cases c; cases "mk_pings c"; simp add: pinged_def)+

lemma mock_session_pings:
  assumes "st_ready s" "n < fuel" "S = pw_got w @ pings n"
  shows "\<exists>s'. mock_session (so_far k S) fuel (Some (pw_now w)) (s, c) w =
    (Pending, (s', pinged n c), w\<lparr>pw_sent := pw_sent w @ replicate n 1, pw_got := S\<rparr>)"
  using assms
proof (induction n arbitrary: s fuel c w)
  case 0
  then obtain f where f: "fuel = Suc f" by (cases fuel) auto
  from talks_end [OF talks_read_command [OF 0(1)], of w k] 0(3)
  obtain s' where "st_read_command (so_far k S) (Some (pw_now w)) s w = (Pending, s', w)"
    by (auto simp: stays_def)
  moreover have "w\<lparr>pw_got := S\<rparr> = w" using 0(3) by simp
  ultimately show ?case by (simp add: f mock_session.simps on_server_def act_simps)
next
  case (Suc n)
  then obtain f where f: "fuel = Suc f" "n < f" by (cases fuel) auto
  let ?t = "[Takes (request_bytes 0 0), Gives [1 :: byte]]"
  have "speaks (\<lambda>a s' u. a = Inr None \<and> s' = st_idle s \<and> u = []) st_read_command s ?t"
    by (rule speaks_st_read_command_ping [OF Suc.prems(1)]) simp
  moreover have "agrees (\<lambda>_. S) (pw_sent w) (pw_got w) ?t" using Suc.prems(3) by simp
  ultimately have "went (\<lambda>a s' u. a = Inr None \<and> s' = st_idle s \<and> u = []) w ?t
      (st_read_command (so_far k S) (Some (pw_now w)) s w)"
    by (rule speaks_goes)
  then have read: "st_read_command (so_far k S) (Some (pw_now w)) s w = (Ready (Inr None), st_idle s, moved ?t w)"
    by (auto elim!: wentE)
  have "\<exists>s'. mock_session (so_far k S) f (Some (pw_now (moved ?t w))) (st_idle s, pinged 1 c) (moved ?t w) =
      (Pending, (s', pinged n (pinged 1 c)), (moved ?t w)\<lparr>pw_sent := pw_sent (moved ?t w) @ replicate n 1, pw_got := S\<rparr>)"
    by (rule Suc.IH) (use Suc.prems f in simp_all)
  then show ?case
    using read by (simp add: f mock_session.simps on_server_def act_simps moved_def)
qed

lemma mock_server_pings:
  assumes "Suc n < fuel"
  shows "\<exists>c. run_mock_server_tl (host (so_far k (pings n))) () fuel (Some 0) uncounted pipe_start =
     (Pending, c, pipe_start\<lparr>pw_sent := replicate n 1, pw_got := pings n\<rparr>) \<and> mk_pings c = Some n"
proof -
  obtain f where f: "fuel = Suc f" "n < f" using assms by (cases fuel) auto
  let ?s = "st_set_timeout_config mock_config (st_new () ())"
  have ready: "st_ready ?s"
    using st_new_wf [of "()" "()"]
    by (simp add: st_ready_def st_wf_def st_set_timeout_config_def patient_def mock_config_def
        default_timeout_config_def timeout_constants)
  from mock_session_pings [OF ready f(2), of "pings n" pipe_start k uncounted]
  obtain s' where "mock_session (so_far k (pings n)) f (Some 0) (?s, uncounted) pipe_start =
      (Pending, (s', pinged n uncounted), pipe_start\<lparr>pw_sent := replicate n 1, pw_got := pings n\<rparr>)"
    by (auto simp: pipe_start_def)
  then show ?thesis by (simp add: f(1) owning_def act_simps mock_session_host)
qed

lemma mock_party_pings:
  assumes "Suc n < fuel"
  shows "wrote k (mock_party fuel) (pings n) = replicate n 1" "\<not> left k (mock_party fuel) (pings n)"
    "ping_count k fuel (pings n) = Some n"
  using mock_server_pings [OF assms, of k]
  by (auto simp: wrote_def left_def alone_def mock_party_def ping_count_def with_local_def)

subsection \<open>The client of the tests\<close>

definition starting :: "nat \<Rightarrow> unit client_tl \<Rightarrow> bool" where
  "starting now c \<longleftrightarrow> sh_stream c = None \<and> ct_keep_alive c \<and> \<not> pg_in_flight (sh_ping c) \<and>
     pg_last_activity (sh_ping c) = now"

context dialled
begin

lemma starts:
  "\<exists>c1. ct_set_keep_alive N True None (ct_new now addr) w = (Ready (), c1, w) \<and> starting now c1"
  by (simp add: ct_set_keep_alive_def ct_new_def Let_def act_simps no_wait update_ping_def starting_def ping_state_new_def)

lemma starts_config:
  assumes "starting now c" "validate (with_ping_interval cfg (tc_ping_interval cfg)) = Inr ()"
    and "tc_ping_interval (with_ping_interval cfg (tc_ping_interval cfg)) = i" "0 < i"
  shows "\<exists>c1. ct_set_timeout_config N cfg None c w = (Ready (Inr ()), c1, w) \<and> starting now c1 \<and>
    ping_interval c1 = i \<and> is_enabled c1"
  using assms
  by (simp add: ct_set_timeout_config_def Let_def act_simps no_wait update_ping_def starting_def is_enabled_def)

lemma starts_connect:
  assumes "starting now c" "is_enabled c"
  shows "\<exists>c1. ct_connect N None c w = (Ready (Inr ()), c1, w) \<and> idle_since now c1 \<and> ping_interval c1 = ping_interval c"
  using assms
  by (auto simp: ct_connect_def timed_unfold Let_def ct_connect_loop.simps [of _ 0] DEFAULT_MAX_CONNECT_RETRIES_def
        timeout_def act_simps ct_connected_def ct_configure_socket_def effect_def put_stream_def stop_ping_task_def
        start_ping_task_def no_wait update_ping_def starting_def idle_since_def is_enabled_def
        split: option.split)

lemma pinging_client_starts:
  assumes "0 < i" "i < from_secs 60"
  shows "\<exists>c. idle_since (pw_now w) c \<and> ping_interval c = i \<and>
    (\<forall>m. pinging_client N addr i m None () w = (case m None c w of
      (r, c', w') \<Rightarrow> (case ct_drop N None c' w' of (_, _, w'') \<Rightarrow> (r, (), w''))))"
proof -
  let ?cfg = "default_timeout_config\<lparr>tc_ping_interval := i\<rparr>"
  have cfg: "validate (with_ping_interval ?cfg (tc_ping_interval ?cfg)) = Inr ()"
    "tc_ping_interval (with_ping_interval ?cfg (tc_ping_interval ?cfg)) = i"
    using assms by (simp_all add: validate_def with_ping_interval_def default_timeout_config_def Let_def timeout_constants)
  obtain c1 where c1: "ct_set_keep_alive N True None (ct_new (pw_now w) addr) w = (Ready (), c1, w)" "starting (pw_now w) c1"
    using starts by blast
  obtain c2 where c2: "ct_set_timeout_config N ?cfg None c1 w = (Ready (Inr ()), c2, w)" "starting (pw_now w) c2"
    "ping_interval c2 = i" "is_enabled c2"
    using starts_config [OF c1(2) cfg assms(1)] by blast
  obtain c3 where c3: "ct_connect N None c2 w = (Ready (Inr ()), c3, w)" "idle_since (pw_now w) c3"
    "ping_interval c3 = i"
    using starts_connect [OF c2(2,4)] c2(3) by metis
  have "pinging_client N addr i m None () w = (case m None c3 w of
      (r, c', w') \<Rightarrow> (case ct_drop N None c' w' of (_, _, w'') \<Rightarrow> (r, (), w'')))" for m
    by (simp add: pinging_client_def keeping_client_def with_client_def act_simps c1(1) c2(1) c3(1))
  with c3(2,3) show ?thesis by blast
qed

lemma disconnects: "\<exists>c'. ct_disconnect N None c w = (Ready (Inr ()), c', w)"
  by (auto simp: ct_disconnect_def act_simps put_stream_def stop_ping_task_def effect_def no_wait split: option.split)

text \<open>What the test proper does, with the client set up and closed around it.\<close>

lemma pinging_client_runs:
  assumes "0 < i" "i < from_secs 60"
    and "\<And>c. idle_since (pw_now w) c \<Longrightarrow> ping_interval c = i \<Longrightarrow> \<exists>c' w'. m None c w = (Ready (Inr ()), c', w') \<and> P w'"
  shows "\<exists>w'. pinging_client N addr i m None () w = (Ready (Inr ()), (), w') \<and> P w'"
proof -
  obtain c where c: "idle_since (pw_now w) c" "ping_interval c = i"
    "\<And>m. pinging_client N addr i m None () w = (case m None c w of
      (r, c', w') \<Rightarrow> (case ct_drop N None c' w' of (_, _, w'') \<Rightarrow> (r, (), w'')))"
    using pinging_client_starts [OF assms(1,2), of w addr] by auto
  obtain c' w' where run: "m None c w = (Ready (Inr ()), c', w')" "P w'" using assms(3) [OF c(1,2)] by blast
  obtain u d where "ct_drop N None c' w' = (u, d, w')" using drop_keeps_world by blast
  with run c(3) show ?thesis by auto
qed

lemma ping_by_hand:
  assumes "peer (request_bytes 0 0) = [1]"
  shows "\<exists>w'. client_tl_ping_no_payload N addr None () pipe_start = (Ready (Inr ()), (), w') \<and> pw_sent w' = pings 1"
  unfolding client_tl_ping_no_payload_def
proof (rule pinging_client_runs)
  fix c :: "unit client_tl" assume "idle_since (pw_now pipe_start) c"
  then have stream: "sh_stream c = Some ()" by (simp add: idle_since_def)
  have enc: "\<exists>n. request_encode (request_header_new 0 0) (vec_with_capacity 0) = Inr (Vec (request_bytes 0 0) n)"
    by (simp add: request_encode_def request_header_new_def vec_with_capacity_def Let_def vec_push_def vec_extend_def
        request_bytes_def vec_len_def)
  let ?w = "pipe_start\<lparr>pw_sent := request_bytes 0 0, pw_got := [1]\<rparr>"
  have send: "send_request N () 0 0 None c pipe_start = (Ready (Inr ()), c, pipe_start\<lparr>pw_sent := request_bytes 0 0\<rparr>)"
    using enc by (auto simp: send_request_def write_flush_def act_simps pipe_start_def)
  have read: "read_bytes N () 1 None c (pipe_start\<lparr>pw_sent := request_bytes 0 0\<rparr>) = (Ready (Inr [1]), c, ?w)"
    using assms
    by (simp add: read_bytes_def read_array_def read_exact_def read_exact_from.simps pipe_read_def act_simps vec_len_def
        vec_write_def Let_def pipe_start_def)
  obtain d where "ct_disconnect N None c ?w = (Ready (Inr ()), d, ?w)" using disconnects by blast
  with stream send read show "\<exists>c' w'. await (wait_lock N) (\<lambda>_. with_self (\<lambda>client.
       case sh_stream client of
         None \<Rightarrow> check False
       | Some stream \<Rightarrow>
           await_try (send_request N stream 0 0) (\<lambda>_.
           await_try (read_bytes N stream 1) (\<lambda>response.
           await_try (check (response ! 0 = 1)) (\<lambda>_.
           ct_disconnect N))))) None c pipe_start = (Ready (Inr ()), c', w') \<and> pw_sent w' = pings 1"
    by (simp add: act_simps no_wait)
qed (simp_all add: from_millis_def from_secs_def)

text \<open>With an interval of 100 ms, pings are due after 100, 210 and 320 ms.\<close>

lemma pings_by_timer:
  assumes "\<And>m. m < 3 \<Longrightarrow> peer (pings (Suc m)) = replicate (Suc m) 1 \<and> \<not> closed (pings (Suc m))" "4 \<le> fuel"
  shows "\<exists>w'. client_ping_timer N addr fuel None () pipe_start = (Ready (Inr ()), (), w') \<and> pw_sent w' = pings 3"
  unfolding client_ping_timer_def
proof (rule pinging_client_runs)
  fix c :: "unit client_tl" assume c: "idle_since (pw_now pipe_start) c" "ping_interval c = from_millis 100"
  have i: "ping_checks 100000000 = 1" "ping_gap 100000000 = 100000000"
    by (simp_all add: ping_gap_def ping_checks_def check_interval_def Let_def PING_CHECK_DIVISOR_def
        MIN_PING_CHECK_INTERVAL_def from_millis_def)
  obtain c' where task: "ping_task N fuel (Some (from_millis 350)) c pipe_start =
      (Pending, c', pipe_start\<lparr>pw_sent := pings 3, pw_got := replicate 3 1, pw_now := from_millis 350\<rparr>)"
    using task_pings_until [OF c(1), of 3 "from_millis 350" fuel] assms c(2) i
    by (auto simp: pinged_times_def pipe_start_def from_millis_def PING_OLD_FORMAT_READ_TIMEOUT_def
        simp del: replicate_Suc replicate.simps)
  let ?w = "pipe_start\<lparr>pw_sent := pings 3, pw_got := replicate 3 1, pw_now := from_millis 350\<rparr>"
  obtain d where "ct_disconnect N None c' ?w = (Ready (Inr ()), d, ?w)" using disconnects by blast
  with task show "\<exists>c' w'. await (sleep_while_pinging N fuel (from_millis 350)) (\<lambda>_. ct_disconnect N) None c pipe_start =
      (Ready (Inr ()), c', w') \<and> pw_sent w' = pings 3"
    by (simp add: act_simps sleep_while_pinging_def Let_def pipe_sleep_def)
qed (simp_all add: from_millis_def from_secs_def)

end

lemma ping_no_payload_test:
  "counts k (\<lambda>N. client_tl_ping_no_payload (dial N) addr) (fuel + 3) (\<lambda>n. n = 1)"
proof -
  note server = mock_party_pings [of 1 "fuel + 3" k]
  from server(1) have "wrote k (mock_party (fuel + 3)) (request_bytes 0 0) = [1]" by simp
  from plain_host.ping_by_hand [where peer = "wrote k (mock_party (fuel + 3))" and closed = "left k (mock_party (fuel + 3))", OF this, of k addr]
    server(3) show ?thesis
    unfolding counts_def by auto
qed

lemma ping_timer_test:
  "counts k (\<lambda>N. client_ping_timer (dial N) addr (fuel + 4)) (fuel' + 5) (\<lambda>n. n \<ge> 3)"
proof -
  let ?p = "mock_party (fuel' + 5)"
  have "wrote k ?p (pings (Suc m)) = replicate (Suc m) 1 \<and> \<not> left k ?p (pings (Suc m))" if "m < 3" for m
    using mock_party_pings [of "Suc m" "fuel' + 5" k] that by simp
  then have "\<exists>w. client_ping_timer (dial (pipe_net k (wrote k ?p) (left k ?p))) addr (fuel + 4) None () pipe_start =
      (Ready (Inr ()), (), w) \<and> pw_sent w = pings 3"
    by (rule plain_host.pings_by_timer) simp_all
  with mock_party_pings(3) [of 3 "fuel' + 5" k] show ?thesis
    unfolding counts_def by auto
qed

subsection \<open>All the tests\<close>

end
