(* ===== verification/Running_Tasks.thy ===== *)
theory Running_Tasks
  imports Mock_Server
begin

section \<open>Ping tasks beside a test\<close>

text \<open>
  The two tests of \<open>client_tl.rs\<close> in which it matters which ping tasks are alive, and when each of them
  wakes. The host is a board of connections and tasks: every connection has logs of its own, an
  aborted task is taken off the board, and while the test sleeps the tasks on the board run, each at
  its time, as on the one thread of \<open>#[tokio::test]\<close>.
\<close>

subsection \<open>The board\<close>

record board =
  bd_now :: nat
  bd_lines :: "nat \<Rightarrow> logs"
  bd_closed :: "nat list"
  bd_dialled :: nat
  bd_new :: "nat list"
  bd_asleep :: "(nat \<times> nat) list"
  bd_spawned :: nat

definition board_start :: board where
  "board_start = \<lparr>bd_now = 0, bd_lines = (\<lambda>h. ([], [])), bd_closed = [], bd_dialled = 0, bd_new = [],
                 bd_asleep = [], bd_spawned = 0\<rparr>"

lemma board_start_simps [simp]:
  "bd_now board_start = 0" "bd_lines board_start h = ([], [])" "bd_closed board_start = []" "bd_dialled board_start = 0"
  "bd_new board_start = []" "bd_asleep board_start = []" "bd_spawned board_start = 0"
  by (simp_all add: board_start_def)

text \<open>An operation of a pipe, on one of the lines.\<close>

definition on_line :: "nat \<Rightarrow> (pipe, 'a) fut \<Rightarrow> (board, 'a) fut" where
  "on_line h f = (\<lambda>dl w.
     case f dl \<lparr>pw_sent = fst (bd_lines w h), pw_got = snd (bd_lines w h), pw_now = bd_now w\<rparr> of
       (r, p) \<Rightarrow> (r, w\<lparr>bd_lines := (bd_lines w)(h := (pw_sent p, pw_got p)), bd_now := pw_now p\<rparr>))"

definition board_sleep :: "duration \<Rightarrow> (board, unit) fut" where
  "board_sleep d dl w =
     (let t = bd_now w + d in
      if outer_first dl t then (Pending, w\<lparr>bd_now := max (the dl) (bd_now w)\<rparr>)
      else (Ready (), w\<lparr>bd_now := t\<rparr>))"

definition board_net ::
  "nat \<Rightarrow> (nat \<Rightarrow> byte list \<Rightarrow> byte list) \<Rightarrow> (nat \<Rightarrow> byte list \<Rightarrow> bool) \<Rightarrow> (nat, board) net" where
  "board_net k peer closed =
     \<lparr>net_now = bd_now, net_read = (\<lambda>h n. on_line h (pipe_read k (peer h) (closed h) n)),
      net_write_all = (\<lambda>h bs. on_line h (\<lambda>dl w. (Ready (Inr ()), w\<lparr>pw_sent := pw_sent w @ bs\<rparr>))),
      net_flush = (\<lambda>h dl w. (Ready (Inr ()), w)), net_shutdown = (\<lambda>h dl w. (Ready (Inr ()), w)),
      net_close = (\<lambda>h w. w\<lparr>bd_closed := h # bd_closed w\<rparr>), net_sleep = board_sleep\<rparr>"

definition board_spawn :: "board \<Rightarrow> nat \<times> board" where
  "board_spawn w = (bd_spawned w, w\<lparr>bd_new := bd_new w @ [bd_spawned w], bd_spawned := Suc (bd_spawned w)\<rparr>)"

definition board_abort :: "nat \<Rightarrow> board \<Rightarrow> board" where
  "board_abort i w =
     w\<lparr>bd_new := filter (\<lambda>j. j \<noteq> i) (bd_new w), bd_asleep := filter (\<lambda>(j, t). j \<noteq> i) (bd_asleep w)\<rparr>"

text \<open>Every call reaches the server, on a line of its own.\<close>

definition board_client :: "nat \<Rightarrow> (byte list \<Rightarrow> byte list) \<Rightarrow> (nat, board) client_net" where
  "board_client k peer = net.extend (board_net k (\<lambda>h. peer) (\<lambda>h S. False))
     \<lparr>tn_spawn = board_spawn, tn_abort = board_abort, tn_others = ret (),
      cn_tcp_connect = (\<lambda>a dl w. (Ready (Inr (bd_dialled w)), w\<lparr>bd_dialled := Suc (bd_dialled w)\<rparr>)),
      cn_set_tcp_keepalive = (\<lambda>h ka w. w), cn_set_keepalive = (\<lambda>h b w. w)\<rparr>"

text \<open>The same lines from the other end: the calls come in one after the other, and carry what was sent.\<close>

definition board_server :: "nat \<Rightarrow> board \<Rightarrow> (nat, unit, unit, board) runtime" where
  "board_server k calls = net.extend (board_net k (\<lambda>h S. fst (bd_lines calls h)) (\<lambda>h S. h \<in> set (bd_closed calls)))
     \<lparr>rt_bind = (\<lambda>a dl w. (Ready (Inr ()), w)),
      rt_accept = (\<lambda>l dl w. if bd_dialled w < bd_dialled calls
         then (Ready (Inr (bd_dialled w)), w\<lparr>bd_dialled := Suc (bd_dialled w)\<rparr>) else (Pending, w)),
      rt_sem_new = (\<lambda>n w. w), rt_sem_acquire = (\<lambda>dl w. (Ready True, w)), rt_sem_release = id,
      rt_spawn = (\<lambda>c w. (0, w)), rt_finished = (\<lambda>h w. True), rt_join = (\<lambda>h dl w. (Ready (), w)),
      rt_abort = (\<lambda>h w. w), rt_shutdown_rx = \<lparr>wt_changes = (\<lambda>w. None), wt_observe = (\<lambda>w. (False, w))\<rparr>,
      rt_shutdown_send = (\<lambda>b w. w), rt_build_acceptor = (\<lambda>i p. Inl 0)\<rparr>"

subsection \<open>The tasks\<close>

text \<open>
  A new task is polled for the first time when the test waits; its round then begins with its
  sleep. A sleeper wakes at its time for the rest of its round, \<open>ping_round\<close> with the sleep taken.
\<close>

definition poll_new :: "duration \<Rightarrow> board \<Rightarrow> board" where
  "poll_new interval w =
     w\<lparr>bd_new := [], bd_asleep := bd_asleep w @ map (\<lambda>i. (i, bd_now w + check_interval interval)) (bd_new w)\<rparr>"

fun first_awake :: "(nat \<times> nat) list \<Rightarrow> (nat \<times> nat) option" where
  "first_awake [] = None"
| "first_awake ((i, t) # ts) =
     (case first_awake ts of None \<Rightarrow> Some (i, t) | Some (j, u) \<Rightarrow> if u < t then Some (j, u) else Some (i, t))"

definition awake :: "('h, 'w, 'y) task_net_scheme \<Rightarrow> ('h, 'w, 'y) task_net_scheme" where
  "awake N = N\<lparr>net_sleep := (\<lambda>d dl w. (Ready (), w))\<rparr>"

text \<open>Up to the time \<open>t\<close>, the deadline: a task still in the middle of a ping then leaves the run \<open>Pending\<close>.\<close>

primrec run_tasks ::
  "(nat, board, 'y) task_net_scheme \<Rightarrow> nat \<Rightarrow> nat \<Rightarrow> ((nat, 'z) shared_scheme, board, unit) act" where
  "run_tasks N 0 t = (\<lambda>dl s w. (Pending, s, w))"
| "run_tasks N (Suc fuel) t = with_self (\<lambda>s. with_world (\<lambda>w.
     let asleep = bd_asleep (poll_new (ping_interval s) w) in
     await (effect (\<lambda>s w. (s, poll_new (ping_interval s) w))) (\<lambda>_.
     case first_awake asleep of
       None \<Rightarrow> io (net_sleep N (t - net_now N w))
     | Some (i, due) \<Rightarrow>
         if t < due then io (net_sleep N (t - net_now N w))
         else await (io (net_sleep N (due - net_now N w))) (\<lambda>_.
              await (ping_round (awake N)) (\<lambda>continue.
              await (effect (\<lambda>s w. (s, if continue then (board_abort i w)\<lparr>bd_new := bd_new w @ [i]\<rparr> else board_abort i w))) (\<lambda>_.
              run_tasks N fuel t))))))"

definition sleep_beside_tasks ::
  "(nat, board, 'y) task_net_scheme \<Rightarrow> nat \<Rightarrow> duration \<Rightarrow> ((nat, 'z) shared_scheme, board, unit) act" where
  "sleep_beside_tasks N fuel d = (\<lambda>dl s w.
     let t = net_now N w + d in run_tasks N fuel t (Some (earlier dl t)) s w)"

subsection \<open>The tests\<close>

text \<open>\<open>client_ping_not_sent_when_active\<close>: ten requests, every 50 milliseconds.\<close>

primrec keep_busy ::
  "(nat, board, 'y) client_net_scheme \<Rightarrow> nat \<Rightarrow> u32 list \<Rightarrow> (nat client_tl, board, error + unit) act" where
  "keep_busy N fuel [] = ret (Inr ())"
| "keep_busy N fuel (i # is) =
     await_try (ct_handle_message N i (ascii ''data'')) (\<lambda>_.
     await (sleep_beside_tasks N fuel (from_millis 50)) (\<lambda>_. keep_busy N fuel is))"

definition client_ping_not_sent_when_active ::
  "(nat, board, 'y) client_net_scheme \<Rightarrow> string \<Rightarrow> nat \<Rightarrow> (unit, board, error + unit) act" where
  "client_ping_not_sent_when_active N addr fuel = keeping_client N addr (from_millis 200) (
     await_try (keep_busy N fuel (map of_nat [1..<11])) (\<lambda>_. ct_disconnect N))"

text \<open>\<open>connect_stops_stale_ping_task\<close>; \<open>counted\<close> reads the counter of the mock server.\<close>

definition connect_stops_stale_ping_task ::
  "(nat, board, 'y) client_net_scheme \<Rightarrow> (board \<Rightarrow> nat option) \<Rightarrow> string \<Rightarrow> nat \<Rightarrow> (unit, board, error + unit) act" where
  "connect_stops_stale_ping_task N counted addr fuel = pinging_client N addr (from_millis 100) (
     await_try (ct_connect N) (\<lambda>_.
     await take_task_handle (\<lambda>handle.
     case handle of
       None \<Rightarrow> check False
     | Some h \<Rightarrow>
         await (effect (\<lambda>c w. (c, tn_abort N h w))) (\<lambda>_.
         with_world (\<lambda>after_abort.
         await (sleep_beside_tasks N fuel (from_millis 300)) (\<lambda>_.
         with_world (\<lambda>after_sleep.
         await_try (check (counted after_abort \<noteq> None \<and> counted after_abort = counted after_sleep)) (\<lambda>_.
         ct_disconnect N))))))))"

text \<open>What the mock server has counted when it has been sent what is on the board.\<close>

definition board_pings :: "nat \<Rightarrow> nat \<Rightarrow> board \<Rightarrow> nat option" where
  "board_pings k fuel w =
     mk_pings (fst (snd (run_mock_server_tl (board_server k w) () fuel (Some 0) uncounted board_start)))"


subsection \<open>The operations of the board\<close>

lemma board_net_simps [simp]:
  "net_now (board_client k peer) = bd_now" "net_sleep (board_client k peer) = board_sleep"
  "net_read (board_client k peer) h n = on_line h (pipe_read k peer (\<lambda>S. False) n)"
  "net_write_all (board_client k peer) h bs = on_line h (\<lambda>dl w. (Ready (Inr ()), w\<lparr>pw_sent := pw_sent w @ bs\<rparr>))"
  "net_flush (board_client k peer) h dl w = (Ready (Inr ()), w)"
  "net_shutdown (board_client k peer) h dl w = (Ready (Inr ()), w)"
  "net_close (board_client k peer) h w = w\<lparr>bd_closed := h # bd_closed w\<rparr>"
  "tn_spawn (board_client k peer) = board_spawn" "tn_abort (board_client k peer) = board_abort"
  "cn_tcp_connect (board_client k peer) a dl w = (Ready (Inr (bd_dialled w)), w\<lparr>bd_dialled := Suc (bd_dialled w)\<rparr>)"
  "cn_set_tcp_keepalive (board_client k peer) h ka w = w" "cn_set_keepalive (board_client k peer) h b w = w"
  "undisturbed (board_client k peer)"
  by (simp_all add: board_client_def board_net_def net.defs undisturbed_def)

lemmas board_no_wait = wait_lock_undisturbed [OF board_net_simps(13)]

lemma board_server_simps [simp]:
  "net_now (board_server k calls) = bd_now"
  "net_read (board_server k calls) h n = on_line h (pipe_read k (\<lambda>S. fst (bd_lines calls h)) (\<lambda>S. h \<in> set (bd_closed calls)) n)"
  "net_write_all (board_server k calls) h bs = on_line h (\<lambda>dl w. (Ready (Inr ()), w\<lparr>pw_sent := pw_sent w @ bs\<rparr>))"
  "net_flush (board_server k calls) h dl w = (Ready (Inr ()), w)"
  "net_close (board_server k calls) h w = w\<lparr>bd_closed := h # bd_closed w\<rparr>"
  "rt_accept (board_server k calls) l dl w = (if bd_dialled w < bd_dialled calls
     then (Ready (Inr (bd_dialled w)), w\<lparr>bd_dialled := Suc (bd_dialled w)\<rparr>) else (Pending, w))"
  by (simp_all add: board_server_def board_net_def net.defs)

text \<open>A line is a reliable connection.\<close>

abbreviation line_sent :: "nat \<Rightarrow> board \<Rightarrow> byte list" where "line_sent h w \<equiv> fst (bd_lines w h)"
abbreviation line_got :: "nat \<Rightarrow> board \<Rightarrow> byte list" where "line_got h w \<equiv> snd (bd_lines w h)"

lemma board_net_reliable: "reliable_conn (board_net k peer closed) h (peer h) (line_sent h) (line_got h)"
  by unfold_locales
     (auto simp: board_net_def on_line_def pipe_read_def Let_def take_is_prefix split: prod.splits)

interpretation board_line: reliable_conn "board_client k peer" h peer "line_sent h" "line_got h"
  by (rule reliable_conn_cong [OF board_net_reliable [where k = k and peer = "\<lambda>h. peer" and closed = "\<lambda>h S. False"]])
     (simp_all add: board_client_def net.defs)

interpretation server_line: reliable_conn "board_server k calls" h "\<lambda>S. fst (bd_lines calls h)" "line_sent h" "line_got h"
  by (rule reliable_conn_cong [OF board_net_reliable [where k = k and peer = "\<lambda>h S. fst (bd_lines calls h)"
        and closed = "\<lambda>h S. h \<in> set (bd_closed calls)"]])
     (simp_all add: board_server_def net.defs)

text \<open>Reading and writing leaves the tasks alone.\<close>

definition same_tasks :: "board \<Rightarrow> board \<Rightarrow> bool" where
  "same_tasks w w' \<longleftrightarrow> bd_new w' = bd_new w \<and> bd_asleep w' = bd_asleep w \<and> bd_spawned w' = bd_spawned w \<and>
     bd_dialled w' = bd_dialled w"

lemma board_moves: "net_moves same_tasks (board_client k peer)"
proof -
  have "growth same_tasks" unfolding growth_def same_tasks_def by simp
  then show ?thesis
    unfolding net_moves_def fut_moves_def
    by (auto simp: same_tasks_def on_line_def board_sleep_def Let_def split: prod.splits if_splits)
qed

lemma moves_ct_exchange:
  assumes "net_moves R N"
  shows "moves R (ct_exchange N h cmd data cfg a limit)"
  using assms net_movesD [OF assms]
  unfolding ct_exchange_def ct_send_message_def ct_receive_message_def ct_send_request_header_def
    ct_receive_response_header_def ct_send_response_header_def Let_def
  by - (rule keep_rules | assumption | simp split: sum.split prod.split | safe)+

subsection \<open>Connecting\<close>

definition called :: "nat client_tl \<Rightarrow> board \<Rightarrow> board" where
  "called c w = snd (board_spawn
     ((case pg_task_handle (sh_ping c) of None \<Rightarrow> id | Some i \<Rightarrow> board_abort i)
     ((case sh_stream c of None \<Rightarrow> id | Some h \<Rightarrow> \<lambda>w. w\<lparr>bd_closed := h # bd_closed w\<rparr>)
      (w\<lparr>bd_dialled := Suc (bd_dialled w)\<rparr>))))"

lemma board_connects:
  assumes "ct_keep_alive c" "is_enabled c"
  shows "ct_connect (board_client k peer) None c w =
    (Ready (Inr ()), c\<lparr>sh_stream := Some (bd_dialled w),
       sh_ping := (sh_ping c)\<lparr>pg_should_stop := False, pg_task_handle := Some (bd_spawned w)\<rparr>\<rparr>, called c w)"
  using assms
  by (auto simp: ct_connect_def timed_unfold Let_def ct_connect_loop.simps [of _ 0] DEFAULT_MAX_CONNECT_RETRIES_def
        timeout_def act_simps ct_connected_def ct_configure_socket_def effect_def put_stream_def stop_ping_task_def
        start_ping_task_def board_no_wait update_ping_def is_enabled_def called_def board_spawn_def board_abort_def
        split: option.split)


subsection \<open>A stale task\<close>

lemma board_sleeps_alone:
  assumes "bd_new w = []" "bd_asleep w = []"
  shows "sleep_beside_tasks (board_client k peer) (Suc fuel) d None s w = (Ready (), s, w\<lparr>bd_now := bd_now w + d\<rparr>)"
  using assms
  by (simp add: sleep_beside_tasks_def Let_def act_simps with_world_def effect_def poll_new_def board_sleep_def)

lemma board_pings_now [simp]: "board_pings k fuel (w\<lparr>bd_now := t\<rparr>) = board_pings k fuel w"
  by (simp add: board_pings_def board_server_def)

text \<open>Two calls on which nothing has been said, the first of them over.\<close>

lemma silent_calls_counted:
  assumes "bd_lines w = (\<lambda>h. ([], []))" "bd_dialled w = 2" "bd_closed w = [0]"
  shows "board_pings k (fuel + 3) w = Some 0"
proof -
  have calls: "bd_lines w 0 = ([], [])" "bd_lines w 1 = ([], [])" using assms(1) by simp_all
  show ?thesis
    using assms calls
    by (simp add: board_pings_def numeral_3_eq_3 act_simps owning_def mock_session.simps on_server_def st_read_command_def
        timed_unfold Let_def read_exact_or_closed_def fill_from.simps on_line_def pipe_read_def board_start_def vec_simps header_sizes
        st_set_timeout_config_def mock_config_def st_new_def default_timeout_config_def timeout_constants)
qed


text \<open>A new client of the tests: connections kept, and pings every \<open>i\<close>.\<close>

definition pinging :: "nat \<Rightarrow> duration \<Rightarrow> 'h client_tl \<Rightarrow> bool" where
  "pinging now i c \<longleftrightarrow> ct_keep_alive c \<and> is_enabled c \<and> ping_interval c = i \<and> pg_last_activity (sh_ping c) = now \<and>
     sh_stream c = None \<and> pg_task_handle (sh_ping c) = None \<and> \<not> pg_in_flight (sh_ping c) \<and>
     ct_wf c \<and> ct_command_has_answer c \<and> ct_max_buffer_size c = DEFAULT_MAX_BUFFER_SIZE"

lemma board_settings:
  assumes "0 < i" "i < from_secs 60"
  shows "\<exists>c. pinging (bd_now w) i c \<and>
    (\<forall>m. keeping_client (board_client k peer) addr i m None () w =
       (case m None c w of (r, c', w') \<Rightarrow> (case ct_drop (board_client k peer) None c' w' of (_, _, w'') \<Rightarrow> (r, (), w''))))"
proof -
  let ?cfg = "default_timeout_config\<lparr>tc_ping_interval := i\<rparr>"
  have cfg: "validate (with_ping_interval ?cfg i) = Inr ()" "tc_ping_interval (with_ping_interval ?cfg i) = i"
    using assms by (simp_all add: validate_def with_ping_interval_def default_timeout_config_def Let_def timeout_constants)
  let ?c = "(ct_new (bd_now w) addr)\<lparr>ct_keep_alive := True, ct_timeout_config := with_ping_interval ?cfg i,
     sh_ping := (ping_state_new (bd_now w) \<lparr>pc_interval = i, pc_enabled = True\<rparr> (with_ping_interval ?cfg i))\<rparr>"
  have "pinging (bd_now w) i (?c :: nat client_tl)"
    using ct_new_wf [of "bd_now w" addr]
    by (simp add: pinging_def ct_new_def Let_def ping_state_new_def is_enabled_def ct_wf_def)
  moreover have "keeping_client (board_client k peer) addr i m None () w =
       (case m None ?c w of (r, c', w') \<Rightarrow> (case ct_drop (board_client k peer) None c' w' of (_, _, w'') \<Rightarrow> (r, (), w'')))" for m
    using cfg assms(1)
    by (simp add: keeping_client_def with_client_def act_simps ct_set_keep_alive_def ct_set_timeout_config_def Let_def board_no_wait
        update_ping_def ct_new_def ping_state_new_def)
  ultimately show ?thesis by blast
qed

lemma stale_task_test:
  "fst (connect_stops_stale_ping_task (board_client k peer) (board_pings k (fuel + 3)) addr (Suc fuel') None () board_start) =
     Ready (Inr ())"
proof -
  have "0 < from_millis 100" "from_millis 100 < from_secs 60" by (simp_all add: from_millis_def from_secs_def)
  from board_settings [OF this, of board_start k peer addr]
  obtain c where c: "pinging 0 (from_millis 100) c"
    "\<And>m. keeping_client (board_client k peer) addr (from_millis 100) m None () board_start =
       (case m None c board_start of (r, c', w') \<Rightarrow> (case ct_drop (board_client k peer) None c' w' of (_, _, w'') \<Rightarrow> (r, (), w'')))"
    by (auto simp: board_start_def)
  let ?w = "board_start\<lparr>bd_closed := [0], bd_dialled := 2, bd_spawned := 2\<rparr>"
  have counted: "board_pings k (fuel + 3) ?w = Some 0" "bd_new ?w = []" "bd_asleep ?w = []"
    by (rule silent_calls_counted) (simp_all add: board_start_def)
  have sleep: "sleep_beside_tasks (board_client k peer) (Suc fuel') (from_millis 300) None c ?w =
      (Ready (), c, ?w\<lparr>bd_now := from_millis 300\<rparr>)" for c :: "nat client_tl"
    using board_sleeps_alone [OF counted(2,3), of k peer fuel' "from_millis 300" c] by simp
  have dc: "\<exists>c' w'. ct_disconnect (board_client k peer) None c w = (Ready (Inr ()), c', w')" for c w
    by (auto simp: ct_disconnect_def act_simps put_stream_def stop_ping_task_def effect_def board_no_wait split: option.split)
  let ?c1 = "c\<lparr>sh_stream := Some 0, sh_ping := (sh_ping c)\<lparr>pg_should_stop := False, pg_task_handle := Some 0\<rparr>\<rparr>"
  let ?w1 = "board_start\<lparr>bd_dialled := 1, bd_new := [0], bd_spawned := 1\<rparr>"
  have first: "ct_connect (board_client k peer) None c board_start = (Ready (Inr ()), ?c1, ?w1)"
    using c(1) by (simp add: board_connects pinging_def called_def board_spawn_def)
  let ?c2 = "c\<lparr>sh_stream := Some 1, sh_ping := (sh_ping c)\<lparr>pg_should_stop := False, pg_task_handle := Some 1\<rparr>\<rparr>"
  have "ct_connect (board_client k peer) None ?c1 ?w1 = (Ready (Inr ()), ?c2, ?w\<lparr>bd_new := [1]\<rparr>)"
    using c(1)
    by (subst board_connects) (simp_all add: pinging_def is_enabled_def called_def board_spawn_def board_abort_def board_start_def)
  moreover have "board_abort 1 (?w\<lparr>bd_new := [1]\<rparr>) = ?w"
    by (simp add: board_abort_def board_start_def)
  moreover obtain c' w' where "ct_disconnect (board_client k peer) None
      (?c2\<lparr>sh_ping := (sh_ping ?c2)\<lparr>pg_task_handle := None\<rparr>\<rparr>) (?w\<lparr>bd_now := from_millis 300\<rparr>) = (Ready (Inr ()), c', w')"
    using dc by blast
  ultimately show ?thesis
    using counted(1) sleep first
    by (simp add: connect_stops_stale_ping_task_def pinging_client_def c(2) act_simps take_task_handle_def update_ping_def
        effect_def with_world_def)
      (simp split: prod.split)
qed


subsection \<open>A busy client\<close>

text \<open>A message on a stream that is there: what becomes of the client, and when its last activity was.\<close>

lemma locked_answers:
  assumes "undisturbed N" "reliable_conn N h peer sent got" "net_moves R N"
    and "agrees peer (sent w) (got w) (message_turns cmd data out @ t)"
    and "sh_stream c = Some h" "ct_wf c" "ct_command_has_answer c" "length data < 2 ^ 32"
    and "length out \<le> ct_max_buffer_size c" "length out < 2 ^ 32"
  obtains b w' where "with_in_flight (ct_handle_locked N cmd data) None c w =
      (Ready (Inr out), c\<lparr>ct_buffer := b, sh_ping := (sh_ping c)\<lparr>pg_last_activity := net_now N w', pg_in_flight := False\<rparr>\<rparr>, w')"
    "R w w'" "vcap b = vcap (ct_buffer c)" "sent w' = sent w @ given (message_turns cmd data out)"
    "agrees peer (sent w') (got w') t"
proof -
  let ?m = "message_turns cmd data out"
  let ?x = "ct_exchange N h cmd data (ct_timeout_config c) True (ct_max_buffer_size c)"
  have "runs sent got (\<lambda>r b l. r = Inr out \<and> vcap b = vcap (ct_buffer c) \<and>
      l = (sent w @ given ?m, got w @ taken ?m) \<and> agrees peer (sent w @ given ?m) (got w @ taken ?m) t)
      ?x (ct_buffer c) (sent w, got w)"
    by (rule reliable_conn.runs_ct_exchange_turns [OF assms(2,4)])
       (use assms(6-) in \<open>simp_all add: ct_wf_def\<close>)
  then obtain a b w' where x: "?x None (ct_buffer c) w = (Ready a, b, w')" "a = Inr out" "vcap b = vcap (ct_buffer c)"
    "sent w' = sent w @ given ?m" "agrees peer (sent w') (got w') t"
    by (rule runsE [where dl = None]) auto
  have "R w w'" using movesD [OF moves_ct_exchange [OF assms(3)] x(1)] .
  moreover have "with_in_flight (ct_handle_locked N cmd data) None c w =
      (Ready (Inr out), c\<lparr>ct_buffer := b, sh_ping := (sh_ping c)\<lparr>pg_last_activity := net_now N w', pg_in_flight := False\<rparr>\<rparr>, w')"
    using x(1,2) assms(5,7)
    by (simp add: with_in_flight_def ct_handle_locked_def act_simps wait_lock_undisturbed [OF assms(1)] set_in_flight_def
        update_ping_def touch_activity_def effect_def)
  ultimately show thesis using that x(3-5) by blast
qed

text \<open>
  A client in the test: its ping task, not yet polled or asleep, and its line.
\<close>

definition busy :: "nat client_tl \<Rightarrow> board \<Rightarrow> bool" where
  "busy c w \<longleftrightarrow> ct_keep_alive c \<and> ct_wf c \<and> ct_command_has_answer c \<and> ct_max_buffer_size c = DEFAULT_MAX_BUFFER_SIZE \<and>
     sh_stream c = Some 0 \<and> \<not> pg_should_stop (sh_ping c) \<and> ping_interval c = from_millis 200 \<and>
     bd_dialled w = 1 \<and> (bd_new w = [0] \<and> bd_asleep w = [] \<or> bd_new w = [] \<and> (\<exists>t. bd_asleep w = [(0, t)]))"

text \<open>The task wakes at most once in fifty milliseconds, and finds that the client has been active.\<close>

lemma run_tasks_sleeps:
  assumes "bd_asleep (poll_new (ping_interval s) w) = [(i, due)]" "t < due" "bd_now w \<le> t" "has_time dl t"
  shows "run_tasks (board_client k peer) (Suc fuel) t dl s w =
    (Ready (), s, (poll_new (ping_interval s) w)\<lparr>bd_now := t\<rparr>)"
  using assms
  by (simp add: act_simps with_world_def effect_def Let_def board_sleep_def poll_new_def split: if_splits)

lemma active_round:
  assumes "undisturbed N" "\<not> pg_should_stop (sh_ping s)" "net_now N w - pg_last_activity (sh_ping s) < ping_interval s"
  shows "ping_round (awake N) dl s w = (Ready True, s, w)"
proof -
  have "undisturbed (awake N)" "net_now (awake N) = net_now N" "net_sleep (awake N) d dl w = (Ready (), w)" for d dl w
    using assms(1) by (simp_all add: awake_def undisturbed_def)
  with assms(2,3) show ?thesis
    by (simp add: ping_round_def act_simps with_world_def wait_lock_undisturbed elapsed_since_activity_def)
qed

lemma run_tasks_active:
  assumes "bd_asleep (poll_new (ping_interval s) w) = [(i, due)]" "due \<le> t" "bd_now w \<le> t" "has_time dl t"
    and "\<not> pg_should_stop (sh_ping s)" "t < pg_last_activity (sh_ping s) + ping_interval s" "0 < ping_interval s"
  shows "run_tasks (board_client k peer) (Suc fuel) t dl s w =
    run_tasks (board_client k peer) fuel t dl s (w\<lparr>bd_now := max due (bd_now w), bd_new := [i], bd_asleep := []\<rparr>)"
proof -
  let ?now = "bd_now w + (due - bd_now w)" and ?w = "poll_new (ping_interval s) w"
  have now: "?now = max due (bd_now w)" by (simp add: max_def)
  with assms(2-4) have "has_time dl ?now" by (auto intro: has_time_mono)
  moreover have "ping_round (awake (board_client k peer)) dl s (?w\<lparr>bd_now := ?now\<rparr>) = (Ready True, s, ?w\<lparr>bd_now := ?now\<rparr>)"
    by (rule active_round) (use assms(2,3,5-) in \<open>simp_all add: now max_def, linarith+\<close>)
  moreover have "bd_now ?w = bd_now w" "bd_new ?w = []" by (simp_all add: poll_new_def)
  moreover have "?w\<lparr>bd_now := n, bd_asleep := [], bd_new := [i]\<rparr> = w\<lparr>bd_now := n, bd_new := [i], bd_asleep := []\<rparr>" for n
    by (simp add: poll_new_def)
  ultimately show ?thesis
    using assms(1,2) by (simp add: act_simps with_world_def effect_def Let_def board_sleep_def board_abort_def now)
qed

lemma busy_sleeps:
  assumes "busy c w" "pg_last_activity (sh_ping c) = bd_now w"
  obtains w' where "sleep_beside_tasks (board_client k peer) (Suc (Suc fuel)) (from_millis 50) None c w = (Ready (), c, w')"
    "busy c w'" "bd_lines w' = bd_lines w"
proof -
  let ?t = "bd_now w + from_millis 50"
  have i: "ping_interval c = from_millis 200" "check_interval (from_millis 200) = from_millis 100" "\<not> pg_should_stop (sh_ping c)"
    and one: "bd_dialled w = 1"
    using assms(1) by (simp_all add: busy_def check_interval_def Let_def PING_CHECK_DIVISOR_def MIN_PING_CHECK_INTERVAL_def from_millis_def)
  have new: "\<exists>w'. run_tasks (board_client k peer) (Suc f) ?t (Some ?t) c u = (Ready (), c, w') \<and> busy c w' \<and> bd_lines w' = bd_lines w"
    if "bd_new u = [0]" "bd_asleep u = []" "bd_now w \<le> bd_now u" "bd_now u \<le> ?t" "bd_lines u = bd_lines w" "bd_dialled u = 1" for u f
  proof -
    have "run_tasks (board_client k peer) (Suc f) ?t (Some ?t) c u = (Ready (), c, (poll_new (ping_interval c) u)\<lparr>bd_now := ?t\<rparr>)"
      by (rule run_tasks_sleeps) (use that i in \<open>simp_all add: poll_new_def from_millis_def, linarith?\<close>)
    moreover have "busy c ((poll_new (ping_interval c) u)\<lparr>bd_now := ?t\<rparr>)"
      using assms(1) that by (auto simp: busy_def poll_new_def)
    ultimately show ?thesis using that(5) by (auto simp: poll_new_def)
  qed
  have "\<exists>w'. run_tasks (board_client k peer) (Suc (Suc fuel)) ?t (Some ?t) c w = (Ready (), c, w') \<and> busy c w' \<and> bd_lines w' = bd_lines w"
  proof (cases "bd_new w = [0] \<and> bd_asleep w = []")
    case True
    then show ?thesis using new [of w] one by simp
  next
    case False
    then obtain due where due: "bd_new w = []" "bd_asleep w = [(0, due)]" using assms(1) by (auto simp: busy_def)
    then have polled: "bd_asleep (poll_new (ping_interval c) w) = [(0, due)]" "poll_new (ping_interval c) w = w"
      by (simp_all add: poll_new_def)
    show ?thesis
    proof (cases "?t < due")
      case True
      then have "run_tasks (board_client k peer) (Suc (Suc fuel)) ?t (Some ?t) c w = (Ready (), c, w\<lparr>bd_now := ?t\<rparr>)"
        using run_tasks_sleeps [OF polled(1), of ?t "Some ?t" k peer "Suc fuel"] polled(2) by simp
      moreover have "busy c (w\<lparr>bd_now := ?t\<rparr>)" using assms(1) by (simp add: busy_def)
      ultimately show ?thesis by auto
    next
      case False
      let ?u = "w\<lparr>bd_now := max due (bd_now w), bd_new := [0], bd_asleep := []\<rparr>"
      have "run_tasks (board_client k peer) (Suc (Suc fuel)) ?t (Some ?t) c w = run_tasks (board_client k peer) (Suc fuel) ?t (Some ?t) c ?u"
        by (rule run_tasks_active [OF polled(1)]) (use False assms(2) i in \<open>simp_all add: from_millis_def\<close>)
      with new [of ?u fuel] False one show ?thesis by simp
    qed
  qed
  with that show thesis by (auto simp: sleep_beside_tasks_def Let_def)
qed


text \<open>The messages of the test and their answers.\<close>

abbreviation ok_messages :: "u32 list \<Rightarrow> (u32 \<times> byte list \<times> byte list) list" where
  "ok_messages is \<equiv> map (\<lambda>i. (i, ascii ''data'', ascii ''OK'')) is"

lemma keeps_busy:
  assumes "busy c w" "agrees peer (line_sent 0 w) (line_got 0 w) (session_turns (ok_messages is))"
  shows "\<exists>c' w'. keep_busy (board_client k peer) (Suc (Suc fuel)) is None c w = (Ready (Inr ()), c', w') \<and> busy c' w' \<and>
    line_sent 0 w' = line_sent 0 w @ given (session_turns (ok_messages is))"
  using assms
proof (induction "is" arbitrary: c w)
  case Nil
  then show ?case by (simp add: act_simps session_turns_def)
next
  case (Cons i "is")
  let ?N = "board_client k peer" and ?turns = "message_turns i (ascii ''data'') (ascii ''OK'')"
  from Cons.prems(1) have c: "ct_keep_alive c" "ct_wf c" "ct_command_has_answer c" "sh_stream c = Some 0"
    "ct_max_buffer_size c = DEFAULT_MAX_BUFFER_SIZE"
    by (simp_all add: busy_def)
  have ag: "agrees peer (line_sent 0 w) (line_got 0 w) (?turns @ session_turns (ok_messages is))"
    using Cons.prems(2) by (simp add: session_turns_def)
  obtain b w1 where m: "with_in_flight (ct_handle_locked ?N i (ascii ''data'')) None c w =
      (Ready (Inr (ascii ''OK'')), c\<lparr>ct_buffer := b, sh_ping := (sh_ping c)\<lparr>pg_last_activity := net_now ?N w1, pg_in_flight := False\<rparr>\<rparr>, w1)"
    "same_tasks w w1" "vcap b = vcap (ct_buffer c)" "line_sent 0 w1 = line_sent 0 w @ given ?turns"
    "agrees peer (line_sent 0 w1) (line_got 0 w1) (session_turns (ok_messages is))"
    by (rule locked_answers [OF board_net_simps(13) board_line.reliable_conn_axioms board_moves ag c(4,2,3)])
       (use c(5) in \<open>simp_all add: DEFAULT_MAX_BUFFER_SIZE_def ascii_def\<close>)
  let ?c = "c\<lparr>ct_buffer := b, sh_ping := (sh_ping c)\<lparr>pg_last_activity := net_now ?N w1, pg_in_flight := False\<rparr>\<rparr>"
  have "busy ?c w1" "pg_last_activity (sh_ping ?c) = bd_now w1"
    using Cons.prems(1) m(2,3) by (auto simp: busy_def same_tasks_def ct_wf_def room_def)
  then obtain w2 where s: "sleep_beside_tasks ?N (Suc (Suc fuel)) (from_millis 50) None ?c w1 = (Ready (), ?c, w2)"
    "busy ?c w2" "bd_lines w2 = bd_lines w1"
    by (rule busy_sleeps)
  from Cons.IH [OF s(2)] m(5) s(3) obtain c' w' where
    "keep_busy ?N (Suc (Suc fuel)) is None ?c w2 = (Ready (Inr ()), c', w')" "busy c' w'"
    "line_sent 0 w' = line_sent 0 w1 @ given (session_turns (ok_messages is))" by auto
  then show ?case
    using m(1,4) s(1) c by (auto simp: act_simps ct_handle_message_def board_no_wait session_turns_def)
qed


subsection \<open>The mock server and the messages\<close>

definition mock_server :: "unit server_tl" where
  "mock_server = st_set_timeout_config mock_config (st_new () ())"

lemma talks_mock_session:
  assumes "st_ready s" "st_max_buffer_size s = DEFAULT_MAX_BUFFER_SIZE" "length is < fuel" "0 \<notin> set is"
  shows "talks (\<lambda>N. mock_session N fuel) (s, c) (map other_side (session_turns (ok_messages is)))"
  using assms
proof (induction "is" arbitrary: s fuel)
  case Nil
  then obtain n where n: "fuel = Suc n" by (cases fuel) auto
  have "talks (\<lambda>N. mock_session N (Suc n)) (s, c) []"
    by (rule talks_wrapped [OF talks_read_command [OF Nil(1)]]) (simp add: mock_session.simps on_server_def act_simps)
  then show ?case by (simp add: n)
next
  case (Cons i "is")
  obtain n where n: "fuel = Suc n" "length is < n" using Cons.prems(3) by (cases fuel) auto
  have rest: "talks (\<lambda>N. mock_session N n) (st_idle s, c) (map other_side (session_turns (ok_messages is)))"
    by (rule Cons.IH) (use Cons.prems n in simp_all)
  have "unat (usize_as_u32 (length (ascii ''data''))) = 4" "4 \<le> DEFAULT_MAX_BUFFER_SIZE"
    by (simp_all add: ascii_def unat_usize_as_u32_small DEFAULT_MAX_BUFFER_SIZE_def)
  then show ?case
    unfolding n(1) mock_session.simps session_turns_simps list.map prod.case message_turns_def map_append other_side.simps append_Cons
      append_Nil on_server_def
    by (intro talks_await speaks_borrow speaks_st_read_command)
       (use Cons.prems rest in \<open>auto intro!: talks_await talk_rules speaks_st_receive_data speaks_st_send_data\<close>)
qed

lemma talks_mock_party:
  assumes "length is < fuel" "0 \<notin> set is"
  shows "talks (mock_party (Suc fuel)) () (map other_side (session_turns (ok_messages is)))"
  unfolding mock_party_def
proof (rule talks_wrapped)
  have "st_ready mock_server"
    using st_new_wf [of "()" "()"]
    by (simp add: mock_server_def st_ready_def st_wf_def st_set_timeout_config_def patient_def mock_config_def
        default_timeout_config_def timeout_constants)
  then show "talks (\<lambda>N. mock_session N fuel) (mock_server, uncounted) (map other_side (session_turns (ok_messages is)))"
    by (rule talks_mock_session) (use assms in \<open>simp_all add: mock_server_def st_set_timeout_config_def st_new_limit\<close>)
qed (simp add: with_local_def act_simps owning_def mock_session_host mock_server_def split: prod.split)


text \<open>What it counts on the first call, once that is over: no pings.\<close>

definition at_first :: "nat server_tl \<Rightarrow> bool" where
  "at_first s \<longleftrightarrow> st_wf s \<and> st_reader s = 0 \<and> st_writer s = 0 \<and> st_max_buffer_size s = DEFAULT_MAX_BUFFER_SIZE"

lemma at_first_idle [simp]: "at_first (st_idle s) = at_first s"
  by (simp add: at_first_def)

lemma mock_session_over:
  assumes "at_first s" "0 \<in> set (bd_closed calls)" "length is < fuel" "0 \<notin> set is"
    and "drop (length G) (line_sent 0 calls) = given (session_turns (ok_messages is))"
  shows "runs (line_sent 0) (line_got 0) (\<lambda>r (s', c') l. r = Some () \<and> c' = c) (mock_session (board_server k calls) fuel) (s, c) (S, G)"
  using assms
proof (induction "is" arbitrary: s fuel S G)
  case Nil
  then obtain n where n: "fuel = Suc n" by (cases fuel) auto
  show ?case
    using Nil
    by (intro runsI)
       (simp add: n mock_session.simps on_server_def act_simps st_read_command_def timed_unfold Let_def read_exact_or_closed_def
         fill_from.simps [of _ _ 0] on_line_def pipe_read_def vec_simps header_sizes at_first_def)
next
  case (Cons i "is")
  obtain n where n: "fuel = Suc n" "length is < n" using Cons.prems(3) by (cases fuel) auto
  let ?rest = "given (session_turns (ok_messages is))" and ?T = "line_sent 0 calls"
  let ?req = "request_bytes i 4" and ?data = "ascii ''data''"
  have size: "4 \<le> DEFAULT_MAX_BUFFER_SIZE" "length ?data = 4" "usize_as_u32 (length ?data) = 4"
    by (simp_all add: ascii_def DEFAULT_MAX_BUFFER_SIZE_def)
  have D: "drop (length G) ?T = ?req @ ?data @ 1 # ?rest"
    using Cons.prems(5) size(3) by (simp add: message_turns_def)
  have next_bytes: "drop (length (G' @ bs)) ?T = cs" if "drop (length G') ?T = bs @ cs" for G' bs cs
    using that by (metis append_eq_conv_conj drop_drop length_append add.commute)
  have D1: "drop (length (G @ ?req)) ?T = ?data @ 1 # ?rest" by (rule next_bytes [OF D])
  have D2: "drop (length (G @ ?req @ ?data)) ?T = 1 # ?rest" using next_bytes [OF D1] by simp
  have "drop (length (G @ ?req @ ?data @ [1])) ?T = ?rest"
    using next_bytes [of "G @ ?req @ ?data" "[1]" ?rest] D2 by simp
  then have IH: "runs (line_sent 0) (line_got 0) (\<lambda>r (s', c') l. r = Some () \<and> c' = c)
      (mock_session (board_server k calls) n) (st_idle s', c) (S', G @ ?req @ ?data @ [1])" if "at_first s'" for s' S'
    by (intro Cons.IH) (use Cons.prems n that in simp_all)
  have s: "st_wf s" "st_reader s = 0" "st_writer s = 0" "st_max_buffer_size s = DEFAULT_MAX_BUFFER_SIZE"
    using Cons.prems(1) by (simp_all add: at_first_def)
  let ?Q = "\<lambda>r (s', c') l. r = Some () \<and> c' = c"
  have answer: "runs (line_sent 0) (line_got 0) ?Q
      (await (on_server (st_send_data (board_server k calls) 1 (Some (ascii ''OK'')))) (\<lambda>_. mock_session (board_server k calls) n))
      (st_idle s, c) (S', G @ ?req @ ?data)" for S'
    unfolding on_server_def
    by (rule runs_await, rule runs_borrow, rule server_line.runs_st_send_data [OF _ _ _ D2])
       (use s IH Cons.prems(1) in simp_all)
  have "runs (line_sent 0) (line_got 0) ?Q
      (await (await (on_server (st_receive_data (board_server k calls) 4)) (\<lambda>_. ret ()))
        (\<lambda>_. await (on_server (st_send_data (board_server k calls) 1 (Some (ascii ''OK'')))) (\<lambda>_. mock_session (board_server k calls) n)))
      (st_idle s, c) (S', G @ ?req)" for S'
    unfolding on_server_def [of "st_receive_data _ _"]
    by (rule runs_await, rule runs_await, rule runs_borrow, rule server_line.runs_st_receive_data [OF _ _ D1])
       (use s size answer in \<open>simp_all add: runs_ret\<close>)
  then show ?case
    unfolding n(1) mock_session.simps on_server_def [of "st_read_command _"]
    by (intro runs_await runs_borrow, intro server_line.runs_st_read_command [OF _ _ _ D])
       (use s size Cons.prems(4) in simp_all)
qed

lemma moves_mock_session: "net_moves R N \<Longrightarrow> moves R (mock_session N fuel)"
proof (induction fuel)
  case 0
  then show ?case by (simp add: mock_session.simps moves_ret net_movesD(1))
next
  case (Suc fuel)
  then show ?case
    using net_movesD(1) [OF Suc.prems] unfolding mock_session.simps on_server_def
    by - (rule keep_rules | assumption | simp split: sum.split option.split prod.split | safe)+
qed

lemma board_server_moves: "net_moves same_tasks (board_server k calls)"
proof -
  have "growth same_tasks" unfolding growth_def same_tasks_def by simp
  then show ?thesis
    unfolding net_moves_def fut_moves_def
    by (auto simp: same_tasks_def on_line_def board_sleep_def board_server_def board_net_def net.defs Let_def
        split: prod.splits if_splits)
qed

lemma messages_are_no_pings:
  assumes "bd_dialled calls = 1" "0 \<in> set (bd_closed calls)" "line_sent 0 calls = given (session_turns (ok_messages is))"
    and "0 \<notin> set is" "length is < fuel"
  shows "board_pings k (Suc (Suc fuel)) calls = Some 0"
proof -
  let ?R = "board_server k calls" and ?s = "st_set_timeout_config mock_config (st_new 0 0)"
  let ?w = "board_start\<lparr>bd_dialled := 1\<rparr>"
  have s: "at_first ?s"
    using st_new_wf [of 0 0] by (simp add: at_first_def st_wf_def st_set_timeout_config_def st_new_limit) (simp add: st_new_def)
  have "runs (line_sent 0) (line_got 0) (\<lambda>r (s', c') l. r = Some () \<and> c' = uncounted)
      (mock_session ?R (Suc fuel)) (?s, uncounted) ([], [])"
    by (rule mock_session_over [OF s assms(2) _ assms(4)]) (use assms in simp_all)
  then obtain s' w' where run: "mock_session ?R (Suc fuel) (Some 0) (?s, uncounted) ?w = (Ready (Some ()), (s', uncounted), w')"
    by (rule runsE [where dl = "Some 0" and w = ?w]) auto
  from movesD [OF moves_mock_session [OF board_server_moves] run] have "bd_dialled w' = 1"
    by (simp add: same_tasks_def)
  with run assms(1) show ?thesis
    by (simp add: board_pings_def act_simps owning_def)
qed

subsection \<open>The tests pass\<close>

definition on_board ::
  "nat \<Rightarrow> nat \<Rightarrow> ((nat, board) client_net \<Rightarrow> (unit, board, error + unit) act) \<Rightarrow> (board \<Rightarrow> bool) \<Rightarrow> bool" where
  "on_board k fuel m expected \<longleftrightarrow>
     (case m (board_client k (wrote k (mock_party fuel))) None () board_start of
        (r, _, w) \<Rightarrow> r = Ready (Inr ()) \<and> expected w)"

lemma board_disconnects:
  assumes "sh_stream c = Some h"
  obtains c' w' u d where "ct_disconnect (board_client k peer) None c w = (Ready (Inr ()), c', w')"
    "ct_drop (board_client k peer) None c' w' = (u, d, w')"
    "bd_lines w' = bd_lines w" "bd_dialled w' = bd_dialled w" "bd_closed w' = h # bd_closed w"
proof -
  let ?w = "(case pg_task_handle (sh_ping c) of None \<Rightarrow> w | Some i \<Rightarrow> board_abort i w)\<lparr>bd_closed := h # bd_closed w\<rparr>"
  have "\<exists>c'. ct_disconnect (board_client k peer) None c w = (Ready (Inr ()), c', ?w) \<and> sh_stream c' = None \<and>
      pg_task_handle (sh_ping c') = None"
    using assms
    by (auto simp: ct_disconnect_def act_simps put_stream_def stop_ping_task_def effect_def board_no_wait board_abort_def update_ping_def
        split: option.split)
  then obtain c' where c': "ct_disconnect (board_client k peer) None c w = (Ready (Inr ()), c', ?w)" "sh_stream c' = None"
    "pg_task_handle (sh_ping c') = None" by blast
  moreover obtain u d where "ct_drop (board_client k peer) None c' ?w = (u, d, ?w)"
    using c'(2,3) by (simp add: ct_drop_def act_simps effect_def put_stream_def update_ping_def)
  ultimately show thesis using that by (simp add: board_abort_def split: option.splits)
qed

lemma busy_client_test:
  assumes "13 \<le> fuel"
  shows "on_board k fuel (\<lambda>N. client_ping_not_sent_when_active N addr (fuel' + 2)) (\<lambda>w. board_pings k fuel w = Some 0)"
proof -
  obtain n where n: "fuel = Suc (Suc n)" "11 \<le> n" using assms by (cases fuel; cases "fuel - 1") auto
  let ?peer = "wrote k (mock_party fuel)"
  let ?N = "board_client k ?peer"
  define ids where "ids = (map of_nat [1..<11] :: u32 list)"
  have ids: "length ids < n" "0 \<notin> set ids" "ids = 1 # tl ids" using n(2) by (simp_all add: ids_def upt_rec)
  have "0 < from_millis 200" "from_millis 200 < from_secs 60" by (simp_all add: from_millis_def from_secs_def)
  from board_settings [OF this, of board_start k ?peer addr]
  obtain c where c: "pinging 0 (from_millis 200) c"
    "\<And>m. keeping_client ?N addr (from_millis 200) m None () board_start =
       (case m None c board_start of (r, c', w') \<Rightarrow> (case ct_drop ?N None c' w' of (_, _, w'') \<Rightarrow> (r, (), w'')))"
    by auto
  let ?c = "c\<lparr>sh_stream := Some 0, sh_ping := (sh_ping c)\<lparr>pg_should_stop := False, pg_task_handle := Some 0\<rparr>\<rparr>"
  let ?w = "board_start\<lparr>bd_dialled := 1, bd_new := [0], bd_spawned := 1\<rparr>"
  have "ct_connect ?N None c board_start = (Ready (Inr ()), ?c, ?w)"
    using c(1) by (simp add: board_connects pinging_def called_def board_spawn_def)
  then have "keep_busy ?N f (1 # is) None c board_start = keep_busy ?N f (1 # is) None ?c ?w" for f "is"
    using c(1) by (simp add: act_simps ct_handle_message_def board_no_wait pinging_def)
  then have start: "keep_busy ?N f ids None c board_start = keep_busy ?N f ids None ?c ?w" for f
    using ids(3) by metis
  have "busy ?c ?w" using c(1) by (auto simp: busy_def pinging_def ct_wf_def)
  moreover have "agrees ?peer (line_sent 0 ?w) (line_got 0 ?w) (session_turns (ok_messages ids))"
    using answers_agrees [OF talks_answers [OF talks_mock_party [OF less_SucI [OF ids(1)] ids(2)]], of k] n(1) by simp
  ultimately obtain c' w' where run: "keep_busy ?N (fuel' + 2) ids None ?c ?w = (Ready (Inr ()), c', w')" "busy c' w'"
    "line_sent 0 w' = given (session_turns (ok_messages ids))"
    using keeps_busy [where fuel = fuel'] by fastforce
  have "sh_stream c' = Some 0" "bd_dialled w' = 1" using run(2) by (simp_all add: busy_def)
  then obtain d w'' u e where over: "ct_disconnect ?N None c' w' = (Ready (Inr ()), d, w'')" "ct_drop ?N None d w'' = (u, e, w'')"
    "bd_lines w'' = bd_lines w'" "bd_dialled w'' = 1" "bd_closed w'' = 0 # bd_closed w'"
    by (metis board_disconnects)
  have "board_pings k fuel w'' = Some 0"
    unfolding n(1) by (rule messages_are_no_pings [OF _ _ _ ids(2)]) (use over run(3) ids n in simp_all)
  with run(1) over(1,2) start show ?thesis
    by (simp add: on_board_def client_ping_not_sent_when_active_def c(2) act_simps ids_def)
qed

subsection \<open>All the tests\<close>

text \<open>The unit tests of the modules that are modelled pass: the checks of \<open>common\<close>, \<open>timeout_config\<close> and the
  codecs, the settings and guards of the clients and servers, and the tests with a spawned peer, those
  on both sides and for any segmentation of the bytes, those with a running ping task on the board.
  \<open>client_tl_drop_is_fast\<close>, which measures the time of a drop, is left out: that a drop takes no time
  is built into the model.\<close>

theorem unit_tests_pass:
  "codec_tests_pass \<and> timeout_tests_pass \<and>
   client_set_max_buffer_size_usize_max_returns_error alloc \<and>
   server_set_max_buffer_size_usize_max_returns_error alloc \<and>
   fst (no_answer_guard_restores_flag_on_drop dl () pipe_start) = Ready (Inr ()) \<and>
   fst (no_answer_guard_restores_flag_on_panic dl () pipe_start) = Ready (Inr ()) \<and>
   fst (tls_no_answer_guard_restores_flag_on_drop dl () pipe_start) = Ready (Inr ()) \<and>
   fst (tls_no_answer_guard_restores_flag_on_panic dl () pipe_start) = Ready (Inr ()) \<and>
   fst (pingstate_set_should_stop_and_take_task_handle now dl () pipe_start) = Ready (Inr ()) \<and>
   fst (connect_without_domain_returns_config_error tls_net dl () w) = Ready (Inr ()) \<and>
   fst (connect_total_deadline_exceeds silent_client None () pipe_start) = Ready (Inr ()) \<and>
   fst (ping_write_timeout (stuffed_pipe k (wrote k (\<lambda>N. ping_write_client N ()) [])) () None () pipe_start) =
     Ready (Inr ()) \<and>
   passes k (\<lambda>N. ping_test_client N ()) (\<lambda>N. ping_test_server N ()) \<and>
   passes k (\<lambda>N. ping_test_client N ()) (\<lambda>N. tls_ping_test_server N ()) \<and>
   passes k (\<lambda>N. bad_ping_test_client N ()) (\<lambda>N. bad_ping_test_server N ()) \<and>
   passes k (\<lambda>N. bad_ping_test_client N ()) (\<lambda>N. tls_bad_ping_test_server N ()) \<and>
   passes k (\<lambda>N. command_test_client N ()) (\<lambda>N. command_test_server N ()) \<and>
   passes k (\<lambda>N. old_format_test N ()) (\<lambda>N. old_format_sender N ()) \<and>
   meets k (\<lambda>N. mid_frame_client (dial N) addr) (\<lambda>N. mid_frame_server N ()) = Ready (Inr ()) \<and>
   counts k (\<lambda>N. client_tl_ping_no_payload (dial N) addr) (fuel + 3) (\<lambda>n. n = 1) \<and>
   counts k (\<lambda>N. client_ping_timer (dial N) addr (fuel + 4)) (fuel' + 5) (\<lambda>n. n \<ge> 3) \<and>
   on_board k (fuel + 13) (\<lambda>N. client_ping_not_sent_when_active N addr (fuel' + 2))
     (\<lambda>w. board_pings k (fuel + 13) w = Some 0) \<and>
   fst (connect_stops_stale_ping_task (board_client k peer) (board_pings k (fuel + 3)) addr (Suc fuel') None ()
     board_start) = Ready (Inr ())"
  unfolding codec_tests_pass_def timeout_tests_pass_def
  by (intro conjI codec_tests timeout_tests limit_tests guard_tests pingstate_test domain_test deadline_test full_test
      ping_tests bad_ping_tests command_test old_format_rejected mid_frame_test ping_no_payload_test
      ping_timer_test stale_task_test busy_client_test)
     (simp_all add: undisturbed_def silent_client_def pipe_client_def)

end
