(* ===== verification/Server_Shutdown.thy ===== *)
theory Server_Shutdown
  imports Server
begin

section \<open>A shutdown ends the server in time\<close>

text \<open>
  A shutdown that is signalled at the time \<open>t\<close>, and stands until the server has seen it; the clients
  that may still connect before that are \<open>backlog\<close>.
\<close>

definition due :: "('h, 'l, 'acc, 'w) runtime \<Rightarrow> nat \<Rightarrow> 'w \<Rightarrow> bool" where
  "due R t w \<longleftrightarrow> wt_changes (rt_shutdown_rx R) w = Some t"

definition still_due :: "('h, 'l, 'acc, 'w) runtime \<Rightarrow> ('w \<Rightarrow> nat) \<Rightarrow> nat \<Rightarrow> 'w \<Rightarrow> 'w \<Rightarrow> bool" where
  "still_due R backlog t w w' \<longleftrightarrow> due R t w' \<and> backlog w' \<le> backlog w \<and> net_now R w \<le> net_now R w'"

text \<open>
  What is relied on of the runtime: a wait is over by its deadline; a connection that is accepted is one
  fewer to come; a sleep that completes has taken its time; a slot is free whenever one is asked for;
  bookkeeping takes no time; who looks sees the shutdown.
\<close>

definition prompt_runtime :: "('h, 'l, 'acc, 'w) runtime \<Rightarrow> ('w \<Rightarrow> nat) \<Rightarrow> nat \<Rightarrow> bool" where
  "prompt_runtime R backlog t \<longleftrightarrow>
     (\<forall>l d w r w'. due R t w \<longrightarrow> rt_accept R l (Some d) w = (r, w') \<longrightarrow>
        still_due R backlog t w w' \<and> net_now R w' \<le> max d (net_now R w) \<and>
        ((\<exists>st. r = Ready (Inr st)) \<longrightarrow> backlog w' < backlog w)) \<and>
     (\<forall>s d w r w'. due R t w \<longrightarrow> net_sleep R s (Some d) w = (r, w') \<longrightarrow>
        still_due R backlog t w w' \<and> net_now R w' \<le> max d (net_now R w) \<and>
        (r = Ready () \<longrightarrow> net_now R w + s \<le> net_now R w')) \<and>
     (\<forall>w. due R t w \<longrightarrow> (\<exists>w'. rt_sem_acquire R None w = (Ready True, w') \<and>
        still_due R backlog t w w' \<and> net_now R w' = net_now R w)) \<and>
     (\<forall>w. net_now R (rt_sem_release R w) = net_now R w \<and>
        (due R t w \<longrightarrow> still_due R backlog t w (rt_sem_release R w))) \<and>
     (\<forall>c w h w'. due R t w \<longrightarrow> rt_spawn R c w = (h, w') \<longrightarrow>
        still_due R backlog t w w' \<and> net_now R w' = net_now R w) \<and>
     (\<forall>w v w'. wt_observe (rt_shutdown_rx R) w = (v, w') \<longrightarrow> v \<and> net_now R w' = net_now R w)"

lemma prompt_runtimeD:
  assumes "prompt_runtime R backlog t"
  shows "due R t w \<Longrightarrow> rt_accept R l (Some d) w = (ra, w') \<Longrightarrow>
      still_due R backlog t w w' \<and> net_now R w' \<le> max d (net_now R w) \<and>
      ((\<exists>st. ra = Ready (Inr st)) \<longrightarrow> backlog w' < backlog w)"
    and "due R t w \<Longrightarrow> net_sleep R p (Some d) w = (rs, w') \<Longrightarrow>
      still_due R backlog t w w' \<and> net_now R w' \<le> max d (net_now R w) \<and> (rs = Ready () \<longrightarrow> net_now R w + p \<le> net_now R w')"
    and "due R t w \<Longrightarrow> \<exists>w'. rt_sem_acquire R None w = (Ready True, w') \<and> still_due R backlog t w w' \<and> net_now R w' = net_now R w"
    and "net_now R (rt_sem_release R w) = net_now R w" "due R t w \<Longrightarrow> still_due R backlog t w (rt_sem_release R w)"
    and "due R t w \<Longrightarrow> rt_spawn R c w = (h, w') \<Longrightarrow> still_due R backlog t w w' \<and> net_now R w' = net_now R w"
    and "wt_observe (rt_shutdown_rx R) w = (v, w') \<Longrightarrow> v \<and> net_now R w' = net_now R w"
  using assms unfolding prompt_runtime_def by (elim conjE; metis)+

lemma still_due_trans:
  "still_due R backlog t u v \<Longrightarrow> still_due R backlog t v w \<Longrightarrow> still_due R backlog t u w"
  by (simp add: still_due_def)

text \<open>The rounds the loop may still make: one for each client, and one for each back-off before \<open>t\<close>.\<close>

definition rounds_left :: "('h, 'l, 'acc, 'w) runtime \<Rightarrow> ('w \<Rightarrow> nat) \<Rightarrow> nat \<Rightarrow> 'w \<Rightarrow> nat" where
  "rounds_left R backlog t w = backlog w + (t - net_now R w) div ACCEPT_ERROR_BACKOFF"

lemma rounds_left_accepted:
  assumes "still_due R backlog t w v" "backlog v < backlog w"
  shows "rounds_left R backlog t v < rounds_left R backlog t w"
  unfolding rounds_left_def
  by (intro add_less_le_mono div_le_mono diff_le_mono2) (use assms in \<open>simp_all add: still_due_def\<close>)

lemma rounds_left_backoff:
  assumes "still_due R backlog t w v" "net_now R w + ACCEPT_ERROR_BACKOFF \<le> net_now R v" "net_now R v \<le> t"
  shows "rounds_left R backlog t v < rounds_left R backlog t w"
proof -
  have pos: "0 < ACCEPT_ERROR_BACKOFF" by (simp add: ACCEPT_ERROR_BACKOFF_def from_millis_def)
  have "(t - net_now R v) div ACCEPT_ERROR_BACKOFF < Suc ((t - net_now R v) div ACCEPT_ERROR_BACKOFF)" by simp
  also have "\<dots> = (t - net_now R v + ACCEPT_ERROR_BACKOFF) div ACCEPT_ERROR_BACKOFF"
    using div_add_self2 [of ACCEPT_ERROR_BACKOFF "t - net_now R v"] pos by (metis Suc_eq_plus1 less_numeral_extra(3))
  also have "\<dots> \<le> (t - net_now R w) div ACCEPT_ERROR_BACKOFF"
    by (rule div_le_mono) (use assms(2,3) in linarith)
  finally show ?thesis using assms(1) by (simp add: rounds_left_def still_due_def)
qed

text \<open>Waiting for something or for the shutdown.\<close>

lemma select_due:
  assumes "prompt_runtime R backlog t" "due R t w" "f (Some t) w = (r, w')"
  shows "\<exists>v. net_now R v = net_now R w' \<and> select_changed (rt_shutdown_rx R) (io f) None c w =
    (case r of Ready a \<Rightarrow> (Ready (Inr a), c, w') | Pending \<Rightarrow> (Ready (Inl True), c, v))"
proof -
  obtain b v where "wt_observe (rt_shutdown_rx R) w' = (b, v)" by (cases "wt_observe (rt_shutdown_rx R) w'")
  with assms(2,3) prompt_runtimeD(7) [OF assms(1) this] show ?thesis
    by (cases r) (auto simp: select_changed_def due_def act_simps)
qed

lemma accept_loop_shutdown:
  assumes "prompt_runtime R backlog t" "sv_max_connections s \<noteq> 0" "due R t w" "rounds_left R backlog t w < fuel"
  shows "\<exists>handles' w'. accept_loop R s l fuel None handles w = (Ready (Some ()), handles', w') \<and>
    net_now R w \<le> net_now R w' \<and> net_now R w' \<le> max t (net_now R w)"
  using assms(3,4)
proof (induction fuel arbitrary: handles w)
  case (Suc fuel)
  note laws = prompt_runtimeD [OF assms(1)]
  let ?h = "filter (\<lambda>h. \<not> rt_finished R h w) handles"
  obtain wp where p: "rt_sem_acquire R None w = (Ready True, wp)" "still_due R backlog t w wp" "net_now R wp = net_now R w"
    using laws(3) [OF Suc.prems(1)] by blast
  then have due: "due R t wp" by (simp add: still_due_def)
  obtain ra wa where a: "rt_accept R l (Some t) wp = (ra, wa)" by (cases "rt_accept R l (Some t) wp")
  note accepted = laws(1) [OF due a]
  then have wa: "still_due R backlog t w wa" "due R t wa" "net_now R w \<le> net_now R wa" "net_now R wa \<le> max t (net_now R w)"
    using still_due_trans [OF p(2)] p(2,3) by (auto simp: still_due_def)
  from select_due [where f = "rt_accept R l" and c = ?h, OF assms(1) due a] obtain va where va: "net_now R va = net_now R wa" "select_changed (rt_shutdown_rx R) (io (rt_accept R l)) None ?h wp =
      (case ra of Ready a \<Rightarrow> (Ready (Inr a), ?h, wa) | Pending \<Rightarrow> (Ready (Inl True), ?h, va))"
    by (elim exE conjE)
  note loop = accept_loop.simps(2) retain_running_def act_simps assms(2) p(1) va(2) world_def
  have IH: "\<exists>handles' w'. accept_loop R s l fuel None hs v = (Ready (Some ()), handles', w') \<and>
      net_now R w \<le> net_now R w' \<and> net_now R w' \<le> max t (net_now R w)"
    if "still_due R backlog t w v" "net_now R v \<le> max t (net_now R w)" "rounds_left R backlog t v < rounds_left R backlog t w" for hs v
  proof -
    from that(1,3) Suc.prems(2) have "due R t v" "rounds_left R backlog t v < fuel" by (simp_all add: still_due_def)
    from Suc.IH [OF this, of hs] that(1,2) show ?thesis by (fastforce simp: still_due_def)
  qed
  consider "ra = Pending" | st where "ra = Ready (Inr st)" | e where "ra = Ready (Inl e)"
    by (cases ra rule: poll.exhaust [of _ thesis]; cases "case ra of Ready x \<Rightarrow> x") auto
  then show ?case
  proof cases
    case 1
    with wa va(1) show ?thesis by (auto simp: loop laws(4))
  next
    case (2 st)
    obtain h ws where sp: "rt_spawn R (new_handler s st) wa = (h, ws)" by (cases "rt_spawn R (new_handler s st) wa")
    from laws(6) [OF wa(2) sp] have ws: "still_due R backlog t wa ws" "net_now R ws = net_now R wa" by simp_all
    have "backlog ws < backlog w"
      using accepted 2 ws(1) p(2) by (auto simp: still_due_def)
    with IH [of ws "?h @ [h]"] still_due_trans [OF wa(1) ws(1)] ws(2) wa(4) rounds_left_accepted [of R backlog t w ws] show ?thesis
      using 2 by (simp add: loop sp spawn_connection_def)
  next
    case (3 e)
    obtain rb wb where b: "net_sleep R ACCEPT_ERROR_BACKOFF (Some t) wa = (rb, wb)"
      by (cases "net_sleep R ACCEPT_ERROR_BACKOFF (Some t) wa")
    note slept = laws(2) [OF wa(2) b]
    from select_due [where f = "net_sleep R ACCEPT_ERROR_BACKOFF" and c = ?h, OF assms(1) wa(2) b] obtain vb where vb: "net_now R vb = net_now R wb"
      "select_changed (rt_shutdown_rx R) (io (net_sleep R ACCEPT_ERROR_BACKOFF)) None ?h wa =
        (case rb of Ready a \<Rightarrow> (Ready (Inr a), ?h, wb) | Pending \<Rightarrow> (Ready (Inl True), ?h, vb))"
      by (elim exE conjE)
    have wb: "net_now R w \<le> net_now R wb" "net_now R wb \<le> max t (net_now R w)"
      using slept wa by (auto simp: still_due_def)
    show ?thesis
    proof (cases rb)
      case Pending
      with 3 wb vb show ?thesis by (auto simp: loop laws(4))
    next
      case (Ready u)
      let ?v = "rt_sem_release R wb"
      have v: "still_due R backlog t wa ?v" "net_now R ?v = net_now R wb"
        using slept laws(5) [of wb] laws(4) still_due_trans by (auto simp: still_due_def)
      have later: "net_now R wa + ACCEPT_ERROR_BACKOFF \<le> net_now R ?v" using slept Ready v(2) by simp
      have "0 < ACCEPT_ERROR_BACKOFF" by (simp add: ACCEPT_ERROR_BACKOFF_def from_millis_def)
      with later slept v(2) have "net_now R ?v \<le> t" by (auto simp: max_def split: if_splits)
      moreover have "net_now R w + ACCEPT_ERROR_BACKOFF \<le> net_now R ?v" using later wa(3) by linarith
      ultimately have "rounds_left R backlog t ?v < rounds_left R backlog t w"
        by (intro rounds_left_backoff still_due_trans [OF wa(1) v(1)])
      with IH [of ?v ?h] still_due_trans [OF wa(1) v(1)] v(2) wb(2) show ?thesis
        using 3 Ready by (simp add: loop vb(2))
    qed
  qed
qed simp

subsection \<open>Properties\<close>

text \<open>C18: a shutdown ends \<open>run\<close>, and in time. When the shutdown is signalled at the time \<open>t\<close>, a bound server
  that still has slots accepts the clients that come before it notices, at most \<open>backlog\<close> of them,
  retries after each failing \<open>accept\<close>, and returns successfully by \<open>t\<close> (or its start, when that is
  later) plus the drain timeout, whatever its connection tasks do. Its rounds are bounded by the
  clients and by the back-offs of 100 ms that fit in before \<open>t\<close>.\<close>

theorem shutdown_ends_run:
  assumes "prompt_runtime R backlog t" "sv_factory s" "sv_max_connections s \<noteq> 0"
    and "rt_bind R (sv_address s) None w = (Ready (Inr l), w0)" "w1 = rt_sem_new R (sv_max_connections s) w0"
    and "due R t w1" "backlog w1 + (t - net_now R w1) div ACCEPT_ERROR_BACKOFF < fuel"
    and "\<And>h. fut_timely (net_now R) (rt_join R h)"
    and "\<And>h. fut_moves (\<lambda>w w'. net_now R w \<le> net_now R w') (rt_join R h)"
    and "\<And>h w. net_now R (rt_abort R h w) = net_now R w"
  shows "\<exists>w'. sv_run R fuel None s w = (Ready (Inr (Some ())), s\<lparr>sv_listener := Some l\<rparr>, w') \<and>
    net_now R w' \<le> max t (net_now R w1) + sv_drain_timeout s"
proof -
  let ?s = "s\<lparr>sv_listener := Some l\<rparr>"
  have "sv_max_connections ?s \<noteq> 0" "rounds_left R backlog t w1 < fuel"
    using assms(3,7) by (simp_all add: rounds_left_def)
  from accept_loop_shutdown [OF assms(1) this(1) assms(6) this(2), of l "[]"] obtain hs wa where
    loop: "accept_loop R ?s l fuel None [] w1 = (Ready (Some ()), hs, wa)" "net_now R wa \<le> max t (net_now R w1)"
    by blast
  obtain r hs' w' where d: "drain R (sv_drain_timeout s) hs None hs wa = (r, hs', w')"
    by (cases "drain R (sv_drain_timeout s) hs None hs wa")
  from drain_loop_bound [OF assms(8-10) order_refl _ d [unfolded drain_def]]
  have r: "r = Ready ()" "net_now R w' \<le> net_now R wa + sv_drain_timeout s" by simp_all
  have "sv_serve R fuel ?s l None [] w1 = (Ready (Inr (Some ())), hs', w')"
    using loop(1) d r(1) by (simp add: sv_serve_def act_simps)
  then have "sv_run R fuel None s w = (Ready (Inr (Some ())), ?s, w')"
    using assms(2-5) by (simp add: sv_run_def act_simps with_local_def world_def)
  with r(2) loop(2) show ?thesis by (intro exI [of _ w']) simp
qed

text \<open>A runtime with clients that come at given times, some of them failing, and tasks that never end.\<close>

record lobby =
  lb_now :: nat
  lb_coming :: "(nat \<times> bool) list"
  lb_told :: bool

fun lobby_until :: "nat option \<Rightarrow> lobby \<Rightarrow> lobby" where
  "lobby_until None w = w"
| "lobby_until (Some d) w = w\<lparr>lb_now := max d (lb_now w)\<rparr>"

definition lobby_accept :: "(lobby, io_error + unit) fut" where
  "lobby_accept dl w =
     (case lb_coming w of
        [] \<Rightarrow> (Pending, lobby_until dl w)
      | (u, fine) # later \<Rightarrow>
          (if outer_first dl (max u (lb_now w)) then (Pending, lobby_until dl w)
           else (Ready (if fine then Inr () else Inl UnexpectedEof), w\<lparr>lb_now := max u (lb_now w), lb_coming := later\<rparr>)))"

definition lobby_sleep :: "duration \<Rightarrow> (lobby, unit) fut" where
  "lobby_sleep p dl w =
     (if outer_first dl (lb_now w + p) then (Pending, lobby_until dl w) else (Ready (), w\<lparr>lb_now := lb_now w + p\<rparr>))"

definition lobby_runtime :: "nat \<Rightarrow> (unit, unit, unit, lobby) runtime" where
  "lobby_runtime t =
     \<lparr>net_now = lb_now, net_read = (\<lambda>h n dl w. (Pending, w)), net_write_all = (\<lambda>h bs dl w. (Ready (Inr ()), w)),
      net_flush = (\<lambda>h dl w. (Ready (Inr ()), w)), net_shutdown = (\<lambda>h dl w. (Ready (Inr ()), w)),
      net_close = (\<lambda>h w. w), net_sleep = lobby_sleep,
      rt_bind = (\<lambda>a dl w. (Ready (Inr ()), w)), rt_accept = (\<lambda>l. lobby_accept),
      rt_sem_new = (\<lambda>n w. w), rt_sem_acquire = (\<lambda>dl w. (Ready True, w)), rt_sem_release = (\<lambda>w. w),
      rt_spawn = (\<lambda>c w. (0, w)), rt_finished = (\<lambda>h w. False), rt_join = (\<lambda>h dl w. (Pending, lobby_until dl w)),
      rt_abort = (\<lambda>h w. w),
      rt_shutdown_rx = \<lparr>wt_changes = (\<lambda>w. if lb_told w then None else Some t),
        wt_observe = (\<lambda>w. (True, w\<lparr>lb_told := True\<rparr>))\<rparr>,
      rt_shutdown_send = (\<lambda>b w. w), rt_build_acceptor = (\<lambda>i p. Inl 0)\<rparr>"

lemma lobby_prompt: "prompt_runtime (lobby_runtime t) (\<lambda>w. length (lb_coming w)) t"
  by (auto simp: prompt_runtime_def lobby_runtime_def due_def still_due_def lobby_accept_def lobby_sleep_def
      split: list.splits if_splits)

theorem shutdown_ends_run_witness:
  "\<exists>w'. sv_run (lobby_runtime (from_secs 10)) 200 None (sv_set_factory (sv_new ''a'' 64))
      \<lparr>lb_now = 0, lb_coming = [(from_secs 1, True), (from_secs 2, False)], lb_told = False\<rparr> =
      (Ready (Inr (Some ())), (sv_set_factory (sv_new ''a'' 64))\<lparr>sv_listener := Some ()\<rparr>, w') \<and>
    lb_now w' \<le> from_secs 15"
proof -
  let ?R = "lobby_runtime (from_secs 10)" and ?s = "sv_set_factory (sv_new ''a'' 64) :: (unit, unit) server"
  let ?w = "\<lparr>lb_now = 0, lb_coming = [(from_secs 1, True), (from_secs 2, False)], lb_told = False\<rparr>"
  have "lb_now w \<le> lb_now (lobby_until dl w)" for dl w by (cases dl) simp_all
  then have joins: "fut_moves (\<lambda>w w'. net_now ?R w \<le> net_now ?R w') (rt_join ?R h)" "fut_timely (net_now ?R) (rt_join ?R h)" for h
    by (auto simp: fut_moves_def fut_timely_def lobby_runtime_def)
  show ?thesis
    using shutdown_ends_run [OF lobby_prompt _ _ _ refl, of ?s "from_secs 10" ?w "()" ?w 200, OF _ _ _ _ _ joins(2,1)]
    by (simp add: sv_set_factory_def sv_new_def lobby_runtime_def due_def ACCEPT_ERROR_BACKOFF_def DEFAULT_DRAIN_TIMEOUT_def
        from_secs_def from_millis_def)
qed

end
