(* ===== verification/Server_Tasks.thy ===== *)
theory Server_Tasks
  imports Server
begin

section \<open>Every connection has one task, and no task is forgotten\<close>

text \<open>
  What becomes of the connections a server accepts, over three ghost observations of the runtime: the
  streams it has handed out, the tasks it was asked to start, each with what it runs, and the tasks
  that are over or have been told to stop.
\<close>

type_synonym ('h, 'acc) journal = "(nat \<times> ('h, 'acc) connection_handler) list"

definition stays :: "('w \<Rightarrow> 'h list) \<Rightarrow> ('w \<Rightarrow> ('h, 'acc) journal) \<Rightarrow> ('w \<Rightarrow> nat set) \<Rightarrow> 'w \<Rightarrow> 'w \<Rightarrow> bool" where
  "stays accepted started over w w' \<longleftrightarrow> accepted w' = accepted w \<and> started w' = started w \<and> over w \<subseteq> over w'"

text \<open>
  What the code relies on: \<open>accept\<close> yields a stream or leaves the queue alone, also when it is dropped;
  \<open>spawn\<close> starts one task; a handle that has been joined, aborted or seen finished is over for good.
\<close>

definition tasks_kept ::
  "('h, 'l, 'acc, 'w) runtime \<Rightarrow> ('w \<Rightarrow> 'h list) \<Rightarrow> ('w \<Rightarrow> ('h, 'acc) journal) \<Rightarrow> ('w \<Rightarrow> nat set) \<Rightarrow> bool" where
  "tasks_kept R accepted started over \<longleftrightarrow>
     (\<forall>l dl w st w'. rt_accept R l dl w = (Ready (Inr st), w') \<longrightarrow>
        accepted w' = accepted w @ [st] \<and> started w' = started w \<and> over w \<subseteq> over w') \<and>
     (\<forall>l dl w r w'. rt_accept R l dl w = (r, w') \<longrightarrow> (\<forall>st. r \<noteq> Ready (Inr st)) \<longrightarrow> stays accepted started over w w') \<and>
     (\<forall>c w h w'. rt_spawn R c w = (h, w') \<longrightarrow>
        accepted w' = accepted w \<and> started w' = started w @ [(h, c)] \<and> over w \<subseteq> over w') \<and>
     (\<forall>h w. rt_finished R h w \<longrightarrow> h \<in> over w) \<and>
     (\<forall>h dl w r w'. rt_join R h dl w = (r, w') \<longrightarrow> stays accepted started over w w' \<and> (r = Ready () \<longrightarrow> h \<in> over w')) \<and>
     (\<forall>h w. stays accepted started over w (rt_abort R h w) \<and> h \<in> over (rt_abort R h w)) \<and>
     (\<forall>dl w r w'. rt_sem_acquire R dl w = (r, w') \<longrightarrow> stays accepted started over w w') \<and>
     (\<forall>w. stays accepted started over w (rt_sem_release R w)) \<and>
     (\<forall>n w. stays accepted started over w (rt_sem_new R n w)) \<and>
     (\<forall>d dl w r w'. net_sleep R d dl w = (r, w') \<longrightarrow> stays accepted started over w w') \<and>
     (\<forall>w v w'. wt_observe (rt_shutdown_rx R) w = (v, w') \<longrightarrow> stays accepted started over w w') \<and>
     (\<forall>a dl w r w'. rt_bind R a dl w = (r, w') \<longrightarrow> stays accepted started over w w')"

lemma tasks_keptD:
  assumes "tasks_kept R accepted started over"
  shows "rt_accept R l dl w = (Ready (Inr st), w') \<Longrightarrow>
      accepted w' = accepted w @ [st] \<and> started w' = started w \<and> over w \<subseteq> over w'"
    and "rt_accept R l dl w = (ra, w') \<Longrightarrow> (\<forall>st. ra \<noteq> Ready (Inr st)) \<Longrightarrow> stays accepted started over w w'"
    and "rt_spawn R c w = (h, w') \<Longrightarrow> accepted w' = accepted w \<and> started w' = started w @ [(h, c)] \<and> over w \<subseteq> over w'"
    and "rt_finished R h w \<Longrightarrow> h \<in> over w"
    and "rt_join R h dl w = (rj, w') \<Longrightarrow> stays accepted started over w w' \<and> (rj = Ready () \<longrightarrow> h \<in> over w')"
    and "stays accepted started over w (rt_abort R h w)" "h \<in> over (rt_abort R h w)"
    and "rt_sem_acquire R dl w = (rp, w') \<Longrightarrow> stays accepted started over w w'"
    and "stays accepted started over w (rt_sem_release R w)" "stays accepted started over w (rt_sem_new R n w)"
    and "net_sleep R d dl w = (rs, w') \<Longrightarrow> stays accepted started over w w'"
    and "wt_observe (rt_shutdown_rx R) w = (v, w') \<Longrightarrow> stays accepted started over w w'"
    and "rt_bind R a dl w = (rb, w') \<Longrightarrow> stays accepted started over w w'"
  using assms unfolding tasks_kept_def by (elim conjE; metis)+

lemma stays_growth: "growth (stays accepted started over)"
  by (auto simp: growth_def stays_def)

lemma stays_fold:
  assumes "tasks_kept R accepted started over"
  shows "stays accepted started over w (fold (rt_abort R) hs w) \<and> set hs \<subseteq> over (fold (rt_abort R) hs w)"
proof (induction hs arbitrary: w)
  case (Cons h hs)
  from Cons [of "rt_abort R h w"] tasks_keptD(6,7) [OF assms, where h = h and w = w] show ?case
    by (auto simp: stays_def)
qed (simp add: stays_def)

text \<open>The tasks are those of the accepted streams, in order, and each is in the list or over.\<close>

definition tasks_ok ::
  "('l, 'acc) server \<Rightarrow> ('w \<Rightarrow> 'h list) \<Rightarrow> ('w \<Rightarrow> ('h, 'acc) journal) \<Rightarrow> ('w \<Rightarrow> nat set) \<Rightarrow> nat list \<Rightarrow> 'w \<Rightarrow> bool" where
  "tasks_ok s accepted started over handles w \<longleftrightarrow>
     map snd (started w) = map (new_handler s) (accepted w) \<and> fst ` set (started w) \<subseteq> set handles \<union> over w"

lemma tasks_ok_stays:
  "tasks_ok s accepted started over handles w \<Longrightarrow> stays accepted started over w w' \<Longrightarrow>
     tasks_ok s accepted started over handles w'"
  by (auto simp: tasks_ok_def stays_def)

lemma select_stays:
  assumes "\<And>w v w'. wt_observe W w = (v, w') \<Longrightarrow> stays accepted started over w w'"
    and "\<And>dl w r w'. f dl w = (r, w') \<Longrightarrow> stays accepted started over w w'"
    and "select_changed W (io f) dl c w = (r, c', w')"
  shows "c' = c \<and> stays accepted started over w w'"
  using assms(3) growth_trans [OF stays_growth, of accepted started over]
  by (auto simp: select_changed_def act_simps split: option.splits prod.splits poll.splits if_splits
      dest!: assms(1) assms(2))

lemma select_accept:
  assumes "tasks_kept R accepted started over"
    and "select_changed (rt_shutdown_rx R) (io (rt_accept R l)) dl c w = (r, c', w')"
  shows "c' = c \<and> (case r of Ready (Inr (Inr st)) \<Rightarrow>
      accepted w' = accepted w @ [st] \<and> started w' = started w \<and> over w \<subseteq> over w'
    | _ \<Rightarrow> stays accepted started over w w')"
proof -
  note laws = tasks_keptD [OF assms(1)]
  obtain dl1 r1 w1 where acc: "rt_accept R l dl1 w = (r1, w1)" and
    sel: "c' = c" "(\<exists>a. r1 = Ready a \<and> r = Ready (Inr a) \<and> w' = w1) \<or>
      (r1 = Pending \<and> ((r = Pending \<and> w' = w1) \<or> (\<exists>v. r = Ready (Inl v) \<and> wt_observe (rt_shutdown_rx R) w1 = (v, w'))))"
    using assms(2) unfolding select_changed_def
    by (auto simp: act_simps split: option.splits prod.splits poll.splits if_splits)
  show ?thesis
  proof (cases "\<exists>st. r1 = Ready (Inr st)")
    case True
    with sel laws(1) acc show ?thesis by auto
  next
    case False
    then have "stays accepted started over w w1" using laws(2) [OF acc] by blast
    with sel False show ?thesis
      by (auto split: poll.split sum.split dest!: laws(12) intro: growth_trans [OF stays_growth])
  qed
qed

lemma select_cases:
  fixes r :: "('s + ('e + 'a)) poll"
  obtains "r = Pending" | b where "r = Ready (Inl b)" | a where "r = Ready (Inr (Inr a))" | e where "r = Ready (Inr (Inl e))"
proof (cases r)
  case (Ready x)
  with that show ?thesis by (cases x; cases "projr x") auto
qed (rule that)

lemma accept_loop_tasks:
  assumes "tasks_kept R accepted started over" "tasks_ok s accepted started over handles w"
    and "accept_loop R s l fuel dl handles w = (r, handles', w')"
  shows "tasks_ok s accepted started over handles' w'"
  using assms(2,3)
proof (induction fuel arbitrary: handles w)
  case 0
  then show ?case by (simp add: act_simps)
next
  case (Suc fuel)
  note laws = tasks_keptD [OF assms(1)] and keep = tasks_ok_stays [where s = s and accepted = accepted and started = started and over = over]
  let ?h = "filter (\<lambda>h. \<not> rt_finished R h w) handles"
  have h: "tasks_ok s accepted started over ?h w"
    using Suc.prems(1) laws(4) by (auto simp: tasks_ok_def)
  define m where "m = (if sv_max_connections s \<noteq> 0 then io (rt_sem_acquire R) else ret False :: (nat list, _, bool) act)"
  obtain rp hp wp where p: "m dl ?h w = (rp, hp, wp)" by (cases "m dl ?h w")
  have hp: "hp = ?h" "tasks_ok s accepted started over ?h wp"
    using p keep [OF h] h laws(8) by (auto simp: m_def act_simps split: if_splits prod.splits)
  obtain ra ha wa where a: "select_changed (rt_shutdown_rx R) (io (rt_accept R l)) dl ?h wp = (ra, ha, wa)"
    by (cases "select_changed (rt_shutdown_rx R) (io (rt_accept R l)) dl ?h wp")
  note acc = select_accept [OF assms(1) a]
  have goes_on: "tasks_ok s accepted started over handles' w'"
    if "tasks_ok s accepted started over ?h v"
      "(if b then ret (Some ()) else accept_loop R s l fuel) dl ?h (rt_sem_release R v) = (r, handles', w')" for v b
    using that Suc.IH [OF keep [OF that(1) laws(9)]] keep [OF that(1) laws(9)]
    by (cases b) (auto simp: act_simps)
  have run: "await m (\<lambda>permit.
       if \<not> permit then ret (Some ())
       else
         await (select_changed (rt_shutdown_rx R) (io (rt_accept R l))) (\<lambda>accept_result.
           case accept_result of
             Inl signal \<Rightarrow> world (rt_sem_release R)
               (if signal then ret (Some ()) else accept_loop R s l fuel)
           | Inr (Inr stream) \<Rightarrow> spawn_connection R s stream (accept_loop R s l fuel)
           | Inr (Inl e) \<Rightarrow>
               await (select_changed (rt_shutdown_rx R) (io (net_sleep R ACCEPT_ERROR_BACKOFF))) (\<lambda>r.
                 world (rt_sem_release R)
                   (case r of
                      Inr _ \<Rightarrow> accept_loop R s l fuel
                    | Inl signal \<Rightarrow> if signal then ret (Some ()) else accept_loop R s l fuel)))) dl ?h w = (r, handles', w')"
    using Suc.prems(2) unfolding accept_loop.simps(2) retain_running_def m_def .
  consider "rp \<noteq> Ready True" | "rp = Ready True" "ra = Pending" | b where "rp = Ready True" "ra = Ready (Inl b)"
    | st where "rp = Ready True" "ra = Ready (Inr (Inr st))" | e where "rp = Ready True" "ra = Ready (Inr (Inl e))"
    by (cases ra rule: select_cases) blast+
  then show ?case
  proof cases
    case 1
    with run hp p show ?thesis by (cases rp) (auto simp: act_simps)
  next
    case 2
    with run hp p a acc keep show ?thesis by (auto simp: act_simps)
  next
    case (3 b)
    with acc keep hp have "tasks_ok s accepted started over ?h wa" by simp
    moreover from 3 run hp p a acc
    have "(if b then ret (Some ()) else accept_loop R s l fuel) dl ?h (rt_sem_release R wa) = (r, handles', w')"
      by (simp add: act_simps world_def)
    ultimately show ?thesis by (rule goes_on)
  next
    case (4 st)
    obtain h' ws where sp: "rt_spawn R (new_handler s st) wa = (h', ws)" by (cases "rt_spawn R (new_handler s st) wa")
    have "tasks_ok s accepted started over (?h @ [h']) ws"
      using laws(3) [OF sp] 4 acc hp(2) by (auto simp: tasks_ok_def)
    with 4 run hp p a acc sp show ?thesis by (auto simp: act_simps spawn_connection_def intro: Suc.IH)
  next
    case (5 e)
    then have wa: "tasks_ok s accepted started over ?h wa" using acc keep hp by simp
    obtain rs hs wb where b: "select_changed (rt_shutdown_rx R) (io (net_sleep R ACCEPT_ERROR_BACKOFF)) dl ?h wa = (rs, hs, wb)"
      by (cases "select_changed (rt_shutdown_rx R) (io (net_sleep R ACCEPT_ERROR_BACKOFF)) dl ?h wa")
    from select_stays [OF laws(12) laws(11) b] keep [OF wa]
    have wb: "hs = ?h" "tasks_ok s accepted started over ?h wb" by simp_all
    show ?thesis
    proof (cases rs)
      case Pending
      with 5 run hp p a b acc wb show ?thesis by (simp add: act_simps)
    next
      case (Ready x)
      with 5 run hp p a b acc wb(1) have "(if x = Inl True then ret (Some ()) else accept_loop R s l fuel) dl ?h
          (rt_sem_release R wb) = (r, handles', w')"
        by (auto simp: act_simps world_def split: sum.splits if_splits)
      with wb(2) show ?thesis by (rule goes_on)
    qed
  qed
qed

text \<open>Draining leaves every task of the list over.\<close>

lemma drain_loop_tasks:
  assumes "tasks_kept R accepted started over"
    and "drain_loop R tmo start handles dl c w = (r, c', w')"
  shows "stays accepted started over w w' \<and> (r = Ready () \<longrightarrow> set handles \<subseteq> over w')"
  using assms(2)
proof (induction handles arbitrary: w)
  case Nil
  then show ?case by (simp add: act_simps growth_refl [OF stays_growth])
next
  case (Cons h hs)
  note laws = tasks_keptD [OF assms(1)]
  have aborts: "stays accepted started over v w' \<and> set (h # hs) \<subseteq> over w'"
    if "abort_all R (h # hs) dl c v = (r, c', w')" for v
    using that stays_fold [OF assms(1), of v "h # hs"] by (auto simp: abort_all_def world_def act_simps)
  show ?case
  proof (cases "net_now R w - start \<ge> tmo")
    case True
    with Cons.prems have "abort_all R (h # hs) dl c w = (r, c', w')" by simp
    from aborts [OF this] show ?thesis by simp
  next
    case False
    let ?t = "net_now R w + (tmo - (net_now R w - start))"
    obtain rj wj where j: "rt_join R h (Some (earlier dl ?t)) w = (rj, wj)" by (cases "rt_join R h (Some (earlier dl ?t)) w")
    note joined = laws(5) [OF j]
    show ?thesis
    proof (cases rj)
      case (Ready u)
      with False Cons.prems j have "drain_loop R tmo start hs dl c wj = (r, c', w')"
        by (simp add: Let_def act_simps timeout_def)
      from Cons.IH [OF this] joined Ready show ?thesis by (auto simp: stays_def)
    next
      case Pending
      with False Cons.prems j have "(r = Pending \<and> w' = wj) \<or> abort_all R (h # hs) dl c wj = (r, c', w')"
        by (auto simp: Let_def act_simps timeout_def split: if_splits)
      with aborts joined show ?thesis by (auto simp: stays_def)
    qed
  qed
qed

text \<open>C20: every connection is served by one task, and \<open>run\<close> leaves none behind. Wherever the server
  stands, and whatever clients, tasks and the shutdown signal do, the tasks it has started are those
  of the streams it has accepted, one for each, in their order, with the server's buffer limit and,
  when it is secure, its TLS acceptor. And when \<open>run\<close> has returned after serving, each of these tasks
  is over or has been aborted.\<close>

theorem connections_accounted_for:
  assumes "tasks_kept R accepted started over" "accepted w = []" "started w = []"
    and "sv_run R fuel dl s w = (r, s', w')"
  shows "map snd (started w') = map (new_handler s) (accepted w') \<and>
    (r = Ready (Inr (Some ())) \<longrightarrow> fst ` set (started w') \<subseteq> over w')"
proof (cases "sv_factory s")
  case False
  with assms(2-4) show ?thesis by (auto simp: sv_run_def act_simps)
next
  case True
  note laws = tasks_keptD [OF assms(1)]
  obtain rb wb where b: "rt_bind R (sv_address s) dl w = (rb, wb)" by (cases "rt_bind R (sv_address s) dl w")
  from laws(13) [OF b] assms(2,3) have wb: "accepted wb = []" "started wb = []" by (simp_all add: stays_def)
  show ?thesis
  proof (cases "\<exists>l. rb = Ready (Inr l)")
    case False
    with True assms(4) b wb show ?thesis by (auto simp: sv_run_def act_simps split: poll.splits sum.splits)
  next
    case bound: True
    then obtain l where l: "rb = Ready (Inr l)" ..
    let ?s = "s\<lparr>sv_listener := Some l\<rparr>"
    define v where "v = (if sv_max_connections s \<noteq> 0 then rt_sem_new R (sv_max_connections s) wb else wb)"
    have same: "new_handler ?s = new_handler s" by (simp add: new_handler_def fun_eq_iff Let_def split: option.split)
    have v: "tasks_ok ?s accepted started over [] v"
      using wb laws(10) [of wb] by (auto simp: tasks_ok_def v_def stays_def)
    obtain hs where run: "sv_serve R fuel ?s l dl [] v = (r, hs, w')"
      using assms(4) True b l
      by (cases "sv_serve R fuel ?s l dl [] v") (auto simp: sv_run_def act_simps with_local_def world_def v_def split: if_splits)
    obtain ra ha wa where a: "accept_loop R ?s l fuel dl [] v = (ra, ha, wa)" by (cases "accept_loop R ?s l fuel dl [] v")
    from accept_loop_tasks [OF assms(1) v a] have wa: "tasks_ok ?s accepted started over ha wa" .
    show ?thesis
    proof (cases "ra = Ready (Some ())")
      case False
      with run a wa show ?thesis
        by (auto simp: sv_serve_def act_simps tasks_ok_def same split: poll.splits option.splits)
    next
      case True
      obtain rd hd' wd where d: "drain_loop R (sv_drain_timeout ?s) (net_now R wa) ha dl ha wa = (rd, hd', wd)"
        by (cases "drain_loop R (sv_drain_timeout ?s) (net_now R wa) ha dl ha wa")
      note ended = drain_loop_tasks [OF assms(1) d]
      from run a d True have "w' = wd" "r = Ready (Inr (Some ())) \<Longrightarrow> rd = Ready ()"
        by (auto simp: sv_serve_def act_simps drain_def split: poll.splits)
      with ended tasks_ok_stays [OF wa] show ?thesis by (auto simp: tasks_ok_def same)
    qed
  qed
qed

text \<open>A runtime with clients in the backlog, a shutdown once it is empty, and tasks that never end.\<close>

record desk =
  dk_backlog :: "nat list"
  dk_accepted :: "nat list"
  dk_started :: "(nat, unit) journal"
  dk_over :: "nat list"
  dk_told :: bool

definition desk_runtime :: "(nat, unit, unit, desk) runtime" where
  "desk_runtime =
     \<lparr>net_now = (\<lambda>w. 0), net_read = (\<lambda>h n dl w. (Pending, w)), net_write_all = (\<lambda>h bs dl w. (Ready (Inr ()), w)),
      net_flush = (\<lambda>h dl w. (Ready (Inr ()), w)), net_shutdown = (\<lambda>h dl w. (Ready (Inr ()), w)),
      net_close = (\<lambda>h w. w), net_sleep = (\<lambda>d dl w. (Ready (), w)),
      rt_bind = (\<lambda>a dl w. (Ready (Inr ()), w)),
      rt_accept = (\<lambda>l dl w. case dk_backlog w of [] \<Rightarrow> (Pending, w)
        | h # hs \<Rightarrow> (Ready (Inr h), w\<lparr>dk_backlog := hs, dk_accepted := dk_accepted w @ [h]\<rparr>)),
      rt_sem_new = (\<lambda>n w. w), rt_sem_acquire = (\<lambda>dl w. (Ready True, w)), rt_sem_release = (\<lambda>w. w),
      rt_spawn = (\<lambda>c w. (length (dk_started w), w\<lparr>dk_started := dk_started w @ [(length (dk_started w), c)]\<rparr>)),
      rt_finished = (\<lambda>h w. h \<in> set (dk_over w)), rt_join = (\<lambda>h dl w. (Pending, w)),
      rt_abort = (\<lambda>h w. w\<lparr>dk_over := h # dk_over w\<rparr>),
      rt_shutdown_rx = \<lparr>wt_changes = (\<lambda>w. if dk_backlog w = [] \<and> \<not> dk_told w then Some 0 else None),
        wt_observe = (\<lambda>w. (True, w\<lparr>dk_told := True\<rparr>))\<rparr>,
      rt_shutdown_send = (\<lambda>b w. w), rt_build_acceptor = (\<lambda>i p. Inl 0)\<rparr>"

lemma desk_runtime_tasks: "tasks_kept desk_runtime dk_accepted dk_started (\<lambda>w. set (dk_over w))"
  by (auto simp: tasks_kept_def stays_def desk_runtime_def split: list.splits)

theorem connections_accounted_for_witness:
  "case sv_run desk_runtime 3 None (sv_set_factory (sv_new ''a'' 64))
      \<lparr>dk_backlog = [7, 8], dk_accepted = [], dk_started = [], dk_over = [], dk_told = False\<rparr> of
     (r, s', w') \<Rightarrow> r = Ready (Inr (Some ())) \<and> map snd (dk_started w') = [ch_new 7 64, ch_new 8 64] \<and>
       fst ` set (dk_started w') \<subseteq> set (dk_over w')"
proof -
  let ?s = "sv_set_factory (sv_new ''a'' 64) :: (unit, unit) server"
  let ?w = "\<lparr>dk_backlog = [7, 8], dk_accepted = [], dk_started = [], dk_over = [], dk_told = False\<rparr>"
  obtain r s' w' where run: "sv_run desk_runtime 3 None ?s ?w = (r, s', w')"
    by (cases "sv_run desk_runtime 3 None ?s ?w")
  have fuel: "(3::nat) = Suc (Suc (Suc 0))" by simp
  from run have "r = Ready (Inr (Some ()))" "dk_accepted w' = [7, 8]"
    unfolding fuel by (auto simp: sv_run_def sv_serve_def act_simps with_local_def retain_running_def spawn_connection_def
        select_changed_def world_def desk_runtime_def sv_set_factory_def sv_new_def drain_def Let_def timeout_def
        abort_all_def DEFAULT_DRAIN_TIMEOUT_def from_secs_def)
  moreover have "map (new_handler ?s) [7, 8] = [ch_new 7 64, ch_new 8 64]"
    by (simp add: new_handler_def sv_set_factory_def sv_new_def Let_def)
  ultimately show ?thesis
    using connections_accounted_for [OF desk_runtime_tasks _ _ run] run by simp
qed

end
