(* ===== verification/Timed_Wire.thy ===== *)
theory Timed_Wire
  imports Keep_Alive
begin

section \<open>Bytes that arrive at given times\<close>

text \<open>
  A connection on which the other side's bytes arrive at times of their own: what is still to come,
  with the time of each write of the peer, what has been written here, and when. A read waits for
  the next arrival, an empty one being the end of the stream. With it the client's ping task and the
  connection loop of the server are put side by side, each fed with what the other has written, later
  by the latency of the network, and keep a connection open between them.
\<close>

type_synonym timed_log = "(nat \<times> byte list) list"

record tape =
  tp_coming :: timed_log
  tp_written :: timed_log
  tp_now :: nat

fun tape_until :: "nat option \<Rightarrow> tape \<Rightarrow> tape" where
  "tape_until None w = w"
| "tape_until (Some d) w = w\<lparr>tp_now := max d (tp_now w)\<rparr>"

definition tape_read :: "nat \<Rightarrow> (tape, io_error + byte list) fut" where
  "tape_read n dl w =
     (if n = 0 then (Ready (Inr []), w)
      else case tp_coming w of
        [] \<Rightarrow> (Pending, tape_until dl w)
      | (t, bs) # later \<Rightarrow>
          (if outer_first dl (max t (tp_now w)) then (Pending, tape_until dl w)
           else (Ready (Inr (take n bs)),
             w\<lparr>tp_coming := (if bs = [] then (t, bs) # later else if length bs \<le> n then later else (t, drop n bs) # later),
               tp_now := max t (tp_now w)\<rparr>)))"

definition tape_sleep :: "duration \<Rightarrow> (tape, unit) fut" where
  "tape_sleep d dl w =
     (let t = tp_now w + d in
      if outer_first dl t then (Pending, tape_until dl w) else (Ready (), w\<lparr>tp_now := t\<rparr>))"

definition tape_net :: "(unit, tape) task_net" where
  "tape_net =
     \<lparr>net_now = tp_now, net_read = (\<lambda>h. tape_read),
      net_write_all = (\<lambda>h bs dl w. (Ready (Inr ()), w\<lparr>tp_written := tp_written w @ [(tp_now w, bs)]\<rparr>)),
      net_flush = (\<lambda>h dl w. (Ready (Inr ()), w)), net_shutdown = (\<lambda>h dl w. (Ready (Inr ()), w)),
      net_close = (\<lambda>h w. w), net_sleep = tape_sleep,
      tn_spawn = (\<lambda>w. (0, w)), tn_abort = (\<lambda>k w. w), tn_others = ret ()\<rparr>"

lemma tape_net_simps [simp]:
  "net_now tape_net = tp_now" "net_read tape_net h = tape_read" "net_flush tape_net h dl w = (Ready (Inr ()), w)"
  "net_write_all tape_net h bs dl w = (Ready (Inr ()), w\<lparr>tp_written := tp_written w @ [(tp_now w, bs)]\<rparr>)"
  "net_sleep tape_net = tape_sleep" "undisturbed tape_net"
  by (simp_all add: tape_net_def undisturbed_def)

lemmas tape_no_wait = wait_lock_undisturbed [OF tape_net_simps(6)]

text \<open>A frame that arrives as a whole, in time; and nothing that arrives in time.\<close>

definition quiet_until :: "nat \<Rightarrow> timed_log \<Rightarrow> bool" where
  "quiet_until d log \<longleftrightarrow> (case log of [] \<Rightarrow> True | (t, bs) # later \<Rightarrow> d < t)"

lemma tape_read_arrives:
  assumes "tp_coming w = (t, bs) # later" "bs \<noteq> []" "length bs = n" "tp_now w \<le> t" "has_time dl t"
  shows "tape_read n dl w = (Ready (Inr bs), w\<lparr>tp_coming := later, tp_now := t\<rparr>)"
  using assms by (auto simp: tape_read_def max_def)

lemma tape_read_waits:
  assumes "quiet_until d (tp_coming w)" "0 < n" "tp_now w \<le> d"
  shows "tape_read n (Some d) w = (Pending, w\<lparr>tp_now := d\<rparr>)"
  using assms by (auto simp: tape_read_def quiet_until_def max_def split: list.splits)

lemma tape_exact_arrives:
  assumes "tp_coming w = (t, bs) # later" "bs \<noteq> []" "length bs = vec_len b" "tp_now w \<le> t" "has_time dl t"
  shows "read_exact_or_closed tape_net h dl b w = (Ready (Inr ()), Vec bs (vcap b), w\<lparr>tp_coming := later, tp_now := t\<rparr>)"
    and "read_exact tape_net h dl b w = (Ready (Inr ()), Vec bs (vcap b), w\<lparr>tp_coming := later, tp_now := t\<rparr>)"
proof -
  have "vdata b \<noteq> []" using assms(2,3) by (auto simp: vec_len_def)
  with assms tape_read_arrives [OF assms(1-3), of dl]
  show "read_exact_or_closed tape_net h dl b w = (Ready (Inr ()), Vec bs (vcap b), w\<lparr>tp_coming := later, tp_now := t\<rparr>)"
    "read_exact tape_net h dl b w = (Ready (Inr ()), Vec bs (vcap b), w\<lparr>tp_coming := later, tp_now := t\<rparr>)"
    by (simp_all add: read_exact_or_closed_def fill_from.simps read_exact_def read_exact_from.simps vec_write_def vec_len_def Let_def)
qed

lemma tape_exact_waits:
  assumes "quiet_until d (tp_coming w)" "0 < vec_len b" "tp_now w \<le> d"
  shows "read_exact_or_closed tape_net h (Some d) b w = (Pending, b, w\<lparr>tp_now := d\<rparr>)"
    and "read_exact tape_net h (Some d) b w = (Pending, b, w\<lparr>tp_now := d\<rparr>)"
  using assms tape_read_waits [OF assms(1), of "vec_len b"]
  by (simp_all add: read_exact_or_closed_def fill_from.simps read_exact_def read_exact_from.simps)

subsection \<open>The server's side\<close>

lemma st_read_command_ping:
  assumes "st_wf s" "tp_coming w = (t, request_bytes 0 0) # later" "tp_now w \<le> t"
    and "t \<le> tp_now w + tc_read_header (st_timeout_config s)" "has_time dl t"
  shows "st_read_command tape_net dl s w =
    (Ready (Inr None), st_idle s, w\<lparr>tp_coming := later, tp_written := tp_written w @ [(t, [1])], tp_now := t\<rparr>)"
proof -
  let ?b = "vec_resize request_encoded_len 0 (st_buffer s)"
  have b: "vec_len ?b = 8" "vcap ?b = vcap (st_buffer s)"
    using assms(1) by (simp_all add: st_wf_def vec_simps header_sizes)
  have "has_time (Some (earlier dl (tp_now w + tc_read_header (st_timeout_config s)))) t"
    using assms(4,5) by (cases dl) auto
  then have "read_exact_or_closed tape_net h (Some (earlier dl (tp_now w + tc_read_header (st_timeout_config s)))) ?b w =
      (Ready (Inr ()), Vec (request_bytes 0 0) (vcap (st_buffer s)), w\<lparr>tp_coming := later, tp_now := t\<rparr>)" for h
    using tape_exact_arrives(1) [OF assms(2), of ?b] assms(3) b by (metis length_request_bytes list.size(3) zero_neq_numeral)
  then show ?thesis
    using assms(1) request_decode_bytes [of 0 0 "[]" "st_max_buffer_size s"]
    by (simp add: st_read_command_def act_simps timed_unfold Let_def st_send_response_header_def st_wf_def vec_simps
        command_as_u32_def st_idle_def)
qed

lemma st_read_command_asleep:
  assumes "quiet_until d (tp_coming w)" "tp_now w \<le> d" "d < tp_now w + tc_read_header (st_timeout_config s)"
  shows "\<exists>s'. st_read_command tape_net (Some d) s w = (Pending, s', w\<lparr>tp_now := d\<rparr>)"
proof -
  have "0 < vec_len (vec_resize request_encoded_len 0 (st_buffer s))" by (simp add: vec_simps header_sizes)
  from tape_exact_waits(1) [OF assms(1) this assms(2)] assms(2,3) show ?thesis
    by (simp add: st_read_command_def act_simps timed_unfold Let_def min_def)
qed

lemma handle_next_ping:
  assumes "conn_under cfg c" "tp_coming w = (t, request_bytes 0 0) # later" "tp_now w \<le> t"
    and "t \<le> tp_now w + tc_read_header cfg" "has_time dl t"
  shows "\<exists>c'. handle_next (conn_transport tape_net) run dl (ph_new c u) w =
    (Ready (Inr True), ph_new c' u,
      w\<lparr>tp_coming := later, tp_written := tp_written w @ [(t, [1])], tp_now := t\<rparr>) \<and> conn_under cfg c'"
proof -
  let ?w = "w\<lparr>tp_coming := later, tp_written := tp_written w @ [(t, [1])], tp_now := t\<rparr>"
  have ok: "st_wf (conn_view c)" "st_timeout_config (conn_view c) = cfg"
    using assms(1) by (simp_all add: conn_under_def)
  have read: "st_read_command tape_net dl (conn_view c) w = (Ready (Inr None), st_idle (conn_view c), ?w)"
    using st_read_command_ping [OF ok(1) assms(2,3)] assms(4,5) ok(2) by simp
  obtain r c' w1 where conn: "tr_read_command (conn_transport tape_net) dl c w = (r, c', w1)"
    by (cases "tr_read_command (conn_transport tape_net) dl c w")
  with liftsD [OF conn_op_lifts(1) [of tape_net], of dl c w] read
  have "r = Ready (Inr None)" "w1 = ?w" "conn_view c' = st_idle (conn_view c)"
    by (simp_all add: narrow_size_def act_simps)
  with conn ok show ?thesis
    by (simp add: handle_next_def act_simps ph_new_def conn_under_def)
qed

lemma handle_next_asleep:
  assumes "conn_under cfg c" "quiet_until d (tp_coming w)" "tp_now w \<le> d" "d < tp_now w + tc_read_header cfg"
  shows "\<exists>c'. handle_next (conn_transport tape_net) run (Some d) (ph_new c u) w =
    (Pending, ph_new c' u, w\<lparr>tp_now := d\<rparr>)"
proof -
  have "d < tp_now w + tc_read_header (st_timeout_config (conn_view c))"
    using assms(1,4) by (simp add: conn_under_def)
  with assms(2,3) obtain s' where
    read: "st_read_command tape_net (Some d) (conn_view c) w = (Pending, s', w\<lparr>tp_now := d\<rparr>)"
    using st_read_command_asleep by blast
  obtain r c' w1 where conn: "tr_read_command (conn_transport tape_net) (Some d) c w = (r, c', w1)"
    by (cases "tr_read_command (conn_transport tape_net) (Some d) c w")
  with liftsD [OF conn_op_lifts(1) [of tape_net], of "Some d" c w] read
  have "r = Pending" "w1 = w\<lparr>tp_now := d\<rparr>"
    by (simp_all add: narrow_size_def act_simps)
  with conn show ?thesis
    by (simp add: handle_next_def act_simps ph_new_def)
qed

text \<open>
  Pings at the times \<open>ts\<close>, none later than \<open>gap\<close> after the one before, the first after \<open>t\<close>.
\<close>

fun within_gaps :: "duration \<Rightarrow> nat \<Rightarrow> nat list \<Rightarrow> bool" where
  "within_gaps gap t [] = True"
| "within_gaps gap t (u # us) = (t \<le> u \<and> u \<le> t + gap \<and> within_gaps gap u us)"

definition at_times :: "nat list \<Rightarrow> byte list \<Rightarrow> timed_log" where
  "at_times ts bs = map (\<lambda>t. (t, bs)) ts"

lemma at_times_simps [simp]: "at_times [] bs = []" "at_times (t # ts) bs = (t, bs) # at_times ts bs"
  by (simp_all add: at_times_def)

lemma within_gaps_last: "within_gaps gap t ts \<Longrightarrow> t \<le> last (t # ts)"
  by (induction ts arbitrary: t) fastforce+

text \<open>The connection loop answers them all and is still there.\<close>

lemma conn_loop_pings:
  assumes "conn_under cfg c" "\<And>w. wt_changes W w = None" "tp_coming w = at_times ts (request_bytes 0 0) @ later"
    and "within_gaps (tc_read_header cfg) (tp_now w) ts" "quiet_until d later"
    and "last (tp_now w # ts) \<le> d" "d < last (tp_now w # ts) + tc_read_header cfg" "length ts < fuel"
  shows "\<exists>c'. conn_loop W (conn_transport tape_net) run fuel (Some d) (ph_new c u) w =
    (Pending, ph_new c' u,
      w\<lparr>tp_coming := later, tp_written := tp_written w @ at_times ts [1], tp_now := d\<rparr>)"
  using assms(1,3-)
proof (induction ts arbitrary: c w fuel)
  case Nil
  then obtain f where f: "fuel = Suc f" by (cases fuel) auto
  have "quiet_until d (tp_coming w)" "tp_now w \<le> d" "d < tp_now w + tc_read_header cfg"
    using Nil.prems by simp_all
  from handle_next_asleep [OF Nil.prems(1) this, of run u] obtain c' where
    "handle_next (conn_transport tape_net) run (Some d) (ph_new c u) w = (Pending, ph_new c' u, w\<lparr>tp_now := d\<rparr>)" by blast
  moreover have "w\<lparr>tp_coming := later, tp_now := d\<rparr> = w\<lparr>tp_now := d\<rparr>" using Nil.prems(2) by simp
  ultimately show ?case by (auto simp: f act_simps select_changed_def assms(2))
next
  case (Cons t ts)
  then obtain f where f: "fuel = Suc f" by (cases fuel) auto
  let ?w = "w\<lparr>tp_coming := at_times ts (request_bytes 0 0) @ later, tp_written := tp_written w @ [(t, [1])], tp_now := t\<rparr>"
  have gaps: "tp_now w \<le> t" "t \<le> tp_now w + tc_read_header cfg" "within_gaps (tc_read_header cfg) t ts"
    using Cons.prems(3) by simp_all
  from within_gaps_last [OF gaps(3)] Cons.prems(5) have "has_time (Some d) t" by simp
  then obtain c1 where read: "handle_next (conn_transport tape_net) run (Some d) (ph_new c u) w =
      (Ready (Inr True), ph_new c1 u, ?w)" and c1: "conn_under cfg c1"
    using handle_next_ping [OF Cons.prems(1) _ gaps(1,2), of "at_times ts (request_bytes 0 0) @ later" "Some d" run u]
      Cons.prems(2) by auto
  have "\<exists>c'. conn_loop W (conn_transport tape_net) run f (Some d) (ph_new c1 u) ?w =
    (Pending, ph_new c' u, ?w\<lparr>tp_coming := later, tp_written := tp_written ?w @ at_times ts [1], tp_now := d\<rparr>)"
    by (rule Cons.IH [OF c1]) (use Cons.prems(4-7) gaps(3) f in simp_all)
  then show ?case
    by (auto simp: f act_simps select_changed_def assms(2) read)
qed

subsection \<open>The client's side\<close>

text \<open>With a latency of \<open>l\<close> each way, the answer takes \<open>2 * l\<close>, and then the ten milliseconds.\<close>

abbreviation latent_period :: "duration \<Rightarrow> duration \<Rightarrow> duration" where
  "latent_period l i \<equiv> ping_gap i + (2 * l + PING_OLD_FORMAT_READ_TIMEOUT)"

lemma tape_ping_answered:
  assumes "tp_coming w = (t, [1]) # later" "tp_now w \<le> t" "t \<le> tp_now w + tmo"
    and "quiet_until (t + PING_OLD_FORMAT_READ_TIMEOUT) later" "has_time dl (t + PING_OLD_FORMAT_READ_TIMEOUT)"
  shows "receive_ping_response_impl tape_net h tmo dl c w =
    (Ready (Inr ()), c, w\<lparr>tp_coming := later, tp_now := t + PING_OLD_FORMAT_READ_TIMEOUT\<rparr>)"
proof -
  have "has_time (Some (earlier dl (tp_now w + tmo))) t"
    using assms(3,5) by (cases dl) auto
  then have "read_exact tape_net h (Some (earlier dl (tp_now w + tmo))) (Vec [0] (Suc 0)) w =
      (Ready (Inr ()), Vec [1] (Suc 0), w\<lparr>tp_coming := later, tp_now := t\<rparr>)"
    using tape_exact_arrives(2) [OF assms(1), of "Vec [0] (Suc 0)"] assms(2) by (simp add: vec_len_def)
  moreover have "read_exact tape_net h (Some (t + PING_OLD_FORMAT_READ_TIMEOUT)) b (w\<lparr>tp_coming := later, tp_now := t\<rparr>) =
      (Pending, b, w\<lparr>tp_coming := later, tp_now := t + PING_OLD_FORMAT_READ_TIMEOUT\<rparr>)" if "0 < vec_len b" for b
    using tape_exact_waits(2) [of "t + PING_OLD_FORMAT_READ_TIMEOUT" "w\<lparr>tp_coming := later, tp_now := t\<rparr>" b] assms(4) that
    by simp
  ultimately show ?thesis
    using assms(5)
    by (simp add: receive_ping_response_impl_def act_simps timed_unfold timeout_def Let_def read_array_def vec_len_def)
qed

lemma tape_round_early:
  assumes "idle_since t s" "0 < ping_interval s" "tp_now w + check_interval (ping_interval s) < t + ping_interval s"
    and "has_time dl (tp_now w + check_interval (ping_interval s))"
  shows "ping_round tape_net dl s w = (Ready True, s, w\<lparr>tp_now := tp_now w + check_interval (ping_interval s)\<rparr>)"
proof -
  have "tp_now w + check_interval (ping_interval s) - t < ping_interval s" using assms(2,3) by linarith
  with assms show ?thesis
    by (simp add: ping_round_def act_simps with_world_def tape_sleep_def Let_def tape_no_wait idle_since_def elapsed_since_activity_def)
qed

lemma tape_round_asleep:
  assumes "d < tp_now w + check_interval (ping_interval s)" "tp_now w \<le> d"
  shows "ping_round tape_net (Some d) s w = (Pending, s, w\<lparr>tp_now := d\<rparr>)"
  using assms by (simp add: ping_round_def act_simps tape_sleep_def Let_def max_def)

text \<open>The world after one answered ping, sent at the time \<open>t\<close>.\<close>

definition pinged_at :: "duration \<Rightarrow> nat \<Rightarrow> timed_log \<Rightarrow> tape \<Rightarrow> tape" where
  "pinged_at l t later w =
     w\<lparr>tp_coming := later, tp_written := tp_written w @ [(t, request_bytes 0 0)],
       tp_now := t + (2 * l + PING_OLD_FORMAT_READ_TIMEOUT)\<rparr>"

lemma tape_round_due:
  assumes "idle_since t0 s" "t = tp_now w + check_interval (ping_interval s)" "t0 + ping_interval s \<le> t"
    and "tp_coming w = (t + 2 * l, [1]) # later" "2 * l \<le> tc_read_header (pg_timeout_config (sh_ping s))"
    and "quiet_until (t + (2 * l + PING_OLD_FORMAT_READ_TIMEOUT)) later"
    and "has_time dl (t + (2 * l + PING_OLD_FORMAT_READ_TIMEOUT))"
  shows "ping_round tape_net dl s w =
    (Ready True, active_at (t + (2 * l + PING_OLD_FORMAT_READ_TIMEOUT)) s, pinged_at l t later w)"
proof -
  have enc: "request_encode (request_header_new 0 0) (vec_with_capacity request_encoded_len) = Inr (Vec (request_bytes 0 0) 8)"
    by (simp add: vec_with_capacity_def header_sizes request_encode_empty)
  have due: "\<not> t - t0 < ping_interval s" using assms(3) by linarith
  have time: "has_time dl t" by (rule has_time_mono [OF assms(7)]) simp
  have answered: "receive_ping_response_impl tape_net h (tc_read_header (pg_timeout_config (sh_ping s))) dl c v =
      (Ready (Inr ()), c, v\<lparr>tp_coming := later, tp_now := t + (2 * l + PING_OLD_FORMAT_READ_TIMEOUT)\<rparr>)"
    if "tp_coming v = tp_coming w" "tp_now v = t" for v :: tape and h and c :: 'c
    using tape_ping_answered [of v "t + 2 * l" later] assms(4-7) that by (simp add: add.assoc)
  show ?thesis
    using assms(1) due time
    by (simp add: ping_round_def act_simps with_world_def tape_sleep_def Let_def idle_since_def elapsed_since_activity_def
        with_in_flight_def set_in_flight_def ping_exchange_def send_ping_request_impl_def enc touch_activity_def effect_def
        update_ping_def active_at_def answered tape_no_wait pinged_at_def flip: assms(2))
qed

lemma tape_task_waits:
  assumes "idle_since t s" "0 < ping_interval s" "tp_now w + n * check_interval (ping_interval s) < t + ping_interval s"
    and "has_time dl (tp_now w + n * check_interval (ping_interval s))"
  shows "ping_task tape_net (n + fuel) dl s w =
    ping_task tape_net fuel dl s (w\<lparr>tp_now := tp_now w + n * check_interval (ping_interval s)\<rparr>)"
  using assms(3,4)
proof (induction n arbitrary: w)
  case (Suc n)
  let ?c = "check_interval (ping_interval s)"
  let ?w = "w\<lparr>tp_now := tp_now w + ?c\<rparr>"
  have "tp_now w + ?c < t + ping_interval s" using Suc.prems(1) unfolding mult_Suc by linarith
  moreover have "has_time dl (tp_now w + ?c)" by (rule has_time_mono [OF Suc.prems(2)]) simp
  ultimately have "ping_round tape_net dl s w = (Ready True, s, ?w)"
    by (intro tape_round_early [OF assms(1,2)])
  moreover have "ping_task tape_net (n + fuel) dl s ?w =
      ping_task tape_net fuel dl s (?w\<lparr>tp_now := tp_now ?w + n * ?c\<rparr>)"
    by (rule Suc.IH) (use Suc.prems in \<open>simp_all add: algebra_simps\<close>)
  ultimately show ?case by (simp add: act_simps algebra_simps)
qed simp

lemma tape_task_period:
  assumes "idle_since (tp_now w) s" "0 < ping_interval s" "t = tp_now w + ping_gap (ping_interval s)"
    and "tp_coming w = (t + 2 * l, [1]) # later" "2 * l \<le> tc_read_header (pg_timeout_config (sh_ping s))"
    and "quiet_until (t + (2 * l + PING_OLD_FORMAT_READ_TIMEOUT)) later"
    and "has_time dl (t + (2 * l + PING_OLD_FORMAT_READ_TIMEOUT))"
  shows "ping_task tape_net (ping_checks (ping_interval s) + fuel) dl s w =
    ping_task tape_net fuel dl (active_at (t + (2 * l + PING_OLD_FORMAT_READ_TIMEOUT)) s) (pinged_at l t later w)"
proof -
  let ?i = "ping_interval s" and ?c = "check_interval (ping_interval s)"
  obtain n where n: "ping_checks ?i = Suc n"
    using ping_gap_bounds(4) [OF assms(2)] by (cases "ping_checks ?i") auto
  let ?w = "w\<lparr>tp_now := tp_now w + n * ?c\<rparr>"
  have gap: "ping_gap ?i = n * ?c + ?c" by (simp add: ping_gap_def n)
  have early: "n * ?c < ?i" and due: "?i \<le> n * ?c + ?c"
    using ping_gap_bounds(1,3) [OF assms(2)] by (simp_all add: n gap)
  have "ping_task tape_net (n + Suc fuel) dl s w = ping_task tape_net (Suc fuel) dl s ?w"
    by (intro tape_task_waits [OF assms(1,2)] has_time_mono [OF assms(7)]) (simp_all add: early assms(3) gap)
  moreover have "ping_round tape_net dl s ?w =
      (Ready True, active_at (t + (2 * l + PING_OLD_FORMAT_READ_TIMEOUT)) s, pinged_at l t later ?w)"
    by (rule tape_round_due [OF assms(1)]) (use assms(3-7) gap due in simp_all)
  moreover have "pinged_at l t later ?w = pinged_at l t later w" by (simp add: pinged_at_def)
  ultimately show ?thesis by (simp add: n act_simps)
qed

text \<open>The times of the pings of a client idle from \<open>t\<close> on, and bytes that are \<open>l\<close> on their way.\<close>

definition ping_times :: "duration \<Rightarrow> duration \<Rightarrow> nat \<Rightarrow> nat \<Rightarrow> nat list" where
  "ping_times l i t n = map (\<lambda>k. t + k * latent_period l i + ping_gap i) [0..<n]"

lemma ping_times_rec [simp]:
  "ping_times l i t 0 = []"
  "ping_times l i t (Suc n) = (t + ping_gap i) # ping_times l i (t + latent_period l i) n"
  by (simp_all add: ping_times_def upt_conv_Cons map_Suc_upt [symmetric] algebra_simps del: upt_Suc)

lemma length_ping_times [simp]: "length (ping_times l i t n) = n"
  by (simp add: ping_times_def)

definition delayed :: "duration \<Rightarrow> timed_log \<Rightarrow> timed_log" where
  "delayed l = map (\<lambda>(t, bs). (t + l, bs))"

lemma delayed_at_times: "delayed l (at_times ts bs) = at_times (map (\<lambda>t. t + l) ts) bs"
  by (induction ts) (simp_all add: delayed_def)

lemma tape_task_periods:
  assumes "idle_since (tp_now w) s" "0 < ping_interval s" "2 * l \<le> tc_read_header (pg_timeout_config (sh_ping s))"
    and "tp_coming w = delayed (2 * l) (at_times (ping_times l (ping_interval s) (tp_now w) n) [1]) @ later"
    and "quiet_until (tp_now w + n * latent_period l (ping_interval s)) later"
    and "has_time dl (tp_now w + n * latent_period l (ping_interval s))"
  shows "ping_task tape_net (n * ping_checks (ping_interval s) + fuel) dl s w =
    ping_task tape_net fuel dl (active_at (tp_now w + n * latent_period l (ping_interval s)) s)
      (w\<lparr>tp_coming := later,
         tp_written := tp_written w @ at_times (ping_times l (ping_interval s) (tp_now w) n) (request_bytes 0 0),
         tp_now := tp_now w + n * latent_period l (ping_interval s)\<rparr>)"
  using assms
proof (induction n arbitrary: s w)
  case 0
  then have "w\<lparr>tp_coming := later\<rparr> = w" by (simp add: delayed_def)
  with 0 show ?case by (simp add: active_at_same)
next
  case (Suc n)
  let ?i = "ping_interval s" and ?P = "latent_period l (ping_interval s)"
  let ?t = "tp_now w + ping_gap ?i"
  let ?rest = "delayed (2 * l) (at_times (ping_times l ?i (tp_now w + ?P) n) [1]) @ later"
  let ?w = "pinged_at l ?t ?rest w" and ?s = "active_at (?t + (2 * l + PING_OLD_FORMAT_READ_TIMEOUT)) s"
  have time: "has_time dl (?t + (2 * l + PING_OLD_FORMAT_READ_TIMEOUT))"
    by (rule has_time_mono [OF Suc.prems(6)]) simp
  have coming: "tp_coming w = (?t + 2 * l, [1]) # ?rest" using Suc.prems(4) by (simp add: delayed_def)
  have "0 < ping_gap ?i" using ping_gap_bounds(1) [OF Suc.prems(2)] Suc.prems(2) by linarith
  then have quiet: "quiet_until (?t + (2 * l + PING_OLD_FORMAT_READ_TIMEOUT)) ?rest"
    using Suc.prems(5) by (cases n) (auto simp: quiet_until_def delayed_def algebra_simps split: list.splits)
  have "ping_task tape_net (Suc n * ping_checks ?i + fuel) dl s w =
      ping_task tape_net (n * ping_checks ?i + fuel) dl ?s ?w"
    using tape_task_period [OF Suc.prems(1,2) refl coming Suc.prems(3) quiet time, where fuel = "n * ping_checks ?i + fuel"]
    by (simp add: add.assoc)
  also have "\<dots> = ping_task tape_net fuel dl (active_at (tp_now ?w + n * ?P) ?s)
      (?w\<lparr>tp_coming := later,
         tp_written := tp_written ?w @ at_times (ping_times l ?i (tp_now ?w) n) (request_bytes 0 0),
         tp_now := tp_now ?w + n * ?P\<rparr>)"
  proof (rule Suc.IH [of ?w ?s, unfolded active_at_simps(2)])
    show "idle_since (tp_now ?w) ?s" using Suc.prems(1) by (simp add: pinged_at_def) (simp add: idle_since_def)
    show "2 * l \<le> tc_read_header (pg_timeout_config (sh_ping ?s))"
      using Suc.prems(3) by (simp add: active_at_def update_ping_def)
    show "tp_coming ?w = delayed (2 * l) (at_times (ping_times l ?i (tp_now ?w) n) [1]) @ later"
      by (simp add: pinged_at_def add.assoc)
  qed (use Suc.prems(2,5,6) in \<open>simp_all add: pinged_at_def algebra_simps\<close>)
  finally show ?case by (simp add: pinged_at_def algebra_simps)
qed

lemma tape_task_pings_until:
  assumes "idle_since (tp_now w) s" "0 < ping_interval s" "2 * l \<le> tc_read_header (pg_timeout_config (sh_ping s))"
    and "tp_coming w = delayed (2 * l) (at_times (ping_times l (ping_interval s) (tp_now w) n) [1])"
    and "tp_now w + n * latent_period l (ping_interval s) \<le> d"
    and "d < tp_now w + n * latent_period l (ping_interval s) + ping_gap (ping_interval s)"
    and "Suc n * ping_checks (ping_interval s) \<le> fuel"
  shows "ping_task tape_net fuel (Some d) s w =
    (Pending, active_at (tp_now w + n * latent_period l (ping_interval s)) s,
      w\<lparr>tp_coming := [],
         tp_written := tp_written w @ at_times (ping_times l (ping_interval s) (tp_now w) n) (request_bytes 0 0),
         tp_now := d\<rparr>)"
proof -
  let ?i = "ping_interval s" and ?c = "check_interval (ping_interval s)"
  let ?t = "tp_now w + n * latent_period l ?i"
  let ?s = "active_at ?t s"
  let ?w = "w\<lparr>tp_coming := [],
    tp_written := tp_written w @ at_times (ping_times l ?i (tp_now w) n) (request_bytes 0 0), tp_now := ?t\<rparr>"
  define m where "m = (d - ?t) div ?c"
  have c: "0 < ?c" by (rule check_interval_pos)
  have m: "m * ?c \<le> d - ?t" "d - ?t < Suc m * ?c"
    using c unfolding m_def by (simp_all add: dividend_less_div_times div_times_less_eq_dividend)
  have "d - ?t < ping_checks ?i * ?c" using assms(5,6) unfolding ping_gap_def by linarith
  with m(1) have "m * ?c < ping_checks ?i * ?c" by (rule le_less_trans)
  then have checks: "m < ping_checks ?i" using c by simp
  then have "m * ?c \<le> (ping_checks ?i - 1) * ?c" by (intro mult_le_mono1) simp
  with ping_gap_bounds(3) [OF assms(2)] have early: "m * ?c < ?i" by (rule le_less_trans [rotated])
  define f where "f = fuel - n * ping_checks ?i - Suc m"
  have fuel: "fuel = n * ping_checks ?i + (m + Suc f)" using assms(7) checks by (simp add: f_def)
  have idle: "idle_since ?t ?s" using assms(1) by simp (simp add: idle_since_def)
  have "ping_task tape_net fuel (Some d) s w = ping_task tape_net (m + Suc f) (Some d) ?s ?w"
    unfolding fuel by (rule tape_task_periods [OF assms(1-3)]) (use assms(4,5) in \<open>simp_all add: quiet_until_def\<close>)
  also have "\<dots> = ping_task tape_net (Suc f) (Some d) ?s (?w\<lparr>tp_now := ?t + m * ?c\<rparr>)"
    using tape_task_waits [OF idle, where w = ?w and n = m and dl = "Some d" and fuel = "Suc f"] assms(2,5) early m(1)
    by simp
  also have "\<dots> = (Pending, ?s, ?w\<lparr>tp_now := d\<rparr>)"
    using tape_round_asleep [where w = "?w\<lparr>tp_now := ?t + m * ?c\<rparr>" and d = d and s = ?s] assms(5) m
    by (simp add: act_simps algebra_simps)
  finally show ?thesis by simp
qed

subsection \<open>The two together\<close>

lemma ping_times_within:
  assumes "t \<le> u + ping_gap i + l" "u + ping_gap i + l \<le> t + gap" "latent_period l i \<le> gap"
  shows "within_gaps gap t (map (\<lambda>x. x + l) (ping_times l i u n))"
  using assms(1,2)
proof (induction n arbitrary: t u)
  case (Suc n)
  have "within_gaps gap (u + ping_gap i + l) (map (\<lambda>x. x + l) (ping_times l i (u + latent_period l i) n))"
    by (rule Suc.IH) (use assms(3) in simp_all)
  with Suc.prems show ?case by simp
qed simp

lemma last_ping_time:
  "last (t # map (\<lambda>x. x + l) (ping_times l i u n)) =
     (if n = 0 then t else u + (n - 1) * latent_period l i + ping_gap i + l)"
  by (cases n) (simp_all add: ping_times_def)

text \<open>C27: pings keep a connection open. The task of an idle client and the connection loop of the server
  face each other over a network with a latency of \<open>l\<close>: what is coming in at each is what the other
  writes, \<open>l\<close> later (an answer comes in \<open>2 * l\<close> after its ping). When the ping interval rounded up
  to a check, two latencies and the ten milliseconds the client listens for an old server fit into the
  server's header timeout, then after any number \<open>n\<close> of pings both are still there: the client has
  its stream, the server is waiting for the next header, having answered every ping at once.\<close>

theorem pings_keep_the_connection:
  assumes "idle_since (tp_now w) s" "0 < ping_interval s" "2 * l \<le> tc_read_header (pg_timeout_config (sh_ping s))"
    and "conn_under cfg c" "\<And>v. wt_changes W v = None" "latent_period l (ping_interval s) \<le> tc_read_header cfg"
    and "tp_now w \<le> tp_now v" "tp_now v \<le> tp_now w + l"
    and "ts = ping_times l (ping_interval s) (tp_now w) n"
    and "tp_coming v = delayed l (at_times ts (request_bytes 0 0))"
    and "tp_coming w = delayed l (delayed l (at_times ts [1]))"
    and "tp_now w + n * latent_period l (ping_interval s) \<le> d" "tp_now v \<le> d"
    and "d < tp_now w + n * latent_period l (ping_interval s) + ping_gap (ping_interval s)"
    and "Suc n * ping_checks (ping_interval s) \<le> fuel" "n < fuel'"
  shows "ping_task tape_net fuel (Some d) s w =
      (Pending, active_at (tp_now w + n * latent_period l (ping_interval s)) s,
        w\<lparr>tp_coming := [], tp_written := tp_written w @ at_times ts (request_bytes 0 0), tp_now := d\<rparr>) \<and>
    (\<exists>c'. conn_loop W (conn_transport tape_net) run fuel' (Some d) (ph_new c u) v =
      (Pending, ph_new c' u,
        v\<lparr>tp_coming := [], tp_written := tp_written v @ delayed l (at_times ts [1]), tp_now := d\<rparr>))"
proof
  let ?i = "ping_interval s" and ?t = "tp_now w"
  let ?P = "latent_period l ?i"
  show "ping_task tape_net fuel (Some d) s w =
      (Pending, active_at (?t + n * ?P) s,
        w\<lparr>tp_coming := [], tp_written := tp_written w @ at_times ts (request_bytes 0 0), tp_now := d\<rparr>)"
    unfolding assms(9)
    by (rule tape_task_pings_until [OF assms(1-3) _ assms(12,14,15)])
       (simp add: assms(9,11) delayed_at_times add.assoc mult_2 comp_def)
  have gaps: "within_gaps (tc_read_header cfg) (tp_now v) (map (\<lambda>x. x + l) ts)"
    unfolding assms(9) by (rule ping_times_within) (use assms(6-8) in simp_all)
  have last: "last (tp_now v # map (\<lambda>x. x + l) ts) =
      (if n = 0 then tp_now v else ?t + (n - 1) * ?P + ping_gap ?i + l)"
    unfolding assms(9) by (rule last_ping_time)
  have step: "n * ?P = (n - 1) * ?P + ?P" if "n \<noteq> 0" using that by (cases n) simp_all
  have "last (tp_now v # map (\<lambda>x. x + l) ts) \<le> d" "d < last (tp_now v # map (\<lambda>x. x + l) ts) + tc_read_header cfg"
    unfolding last using assms(6,7,12-14) step by (cases "n = 0"; simp)+
  with conn_loop_pings [OF assms(4,5) _ gaps, where later = "[]" and d = d and fuel = fuel' and run = run and u = u] assms(9,10,16)
  show "\<exists>c'. conn_loop W (conn_transport tape_net) run fuel' (Some d) (ph_new c u) v =
      (Pending, ph_new c' u,
        v\<lparr>tp_coming := [], tp_written := tp_written v @ delayed l (at_times ts [1]), tp_now := d\<rparr>)"
    by (simp add: delayed_at_times quiet_until_def)
qed

text \<open>
  A day of the default configuration, with a latency of a second: a ping every 32.01 s.
\<close>

definition client_tape :: "nat \<Rightarrow> tape" where
  "client_tape n = \<lparr>tp_coming = delayed (from_secs 1) (delayed (from_secs 1)
     (at_times (ping_times (from_secs 1) (from_secs 30) 0 n) [1])), tp_written = [], tp_now = 0\<rparr>"

definition server_tape :: "nat \<Rightarrow> tape" where
  "server_tape n = \<lparr>tp_coming = delayed (from_secs 1)
     (at_times (ping_times (from_secs 1) (from_secs 30) 0 n) (request_bytes 0 0)), tp_written = [], tp_now = 0\<rparr>"

theorem pings_keep_the_connection_witness:
  "fst (ping_task tape_net 20000 (Some (from_secs 86400)) kept_alive (client_tape 2699)) = Pending \<and>
   fst (conn_loop no_signal (conn_transport tape_net) (pure_handler counting_echo) 5000 (Some (from_secs 86400))
     (ph_new (Plain (st_new () ())) 0) (server_tape 2699)) = Pending"
proof -
  have i: "ping_interval kept_alive = 30000000000" "idle_since 0 kept_alive"
    "pg_timeout_config (sh_ping kept_alive) = default_timeout_config"
    "ping_gap 30000000000 = 30000000000" "ping_checks 30000000000 = 4"
    by (simp_all add: kept_alive_def ping_state_new_def default_ping_config_def idle_since_def
        ping_gap_exact ping_checks_def check_interval_def Let_def PING_CHECK_DIVISOR_def MIN_PING_CHECK_INTERVAL_def
        timeout_constants)
  have c: "conn_under default_timeout_config (Plain (st_new () ()))" by (rule plain_conn_under)
  from pings_keep_the_connection [OF _ _ _ c, where s = kept_alive and w = "client_tape 2699" and v = "server_tape 2699"
      and l = "from_secs 1" and n = 2699 and W = no_signal and d = "from_secs 86400" and fuel = 20000 and fuel' = 5000
      and ts = "ping_times (from_secs 1) (from_secs 30) 0 2699" and run = "pure_handler counting_echo" and u = 0]
  show ?thesis
    by (auto simp: i client_tape_def server_tape_def no_signal_def default_timeout_config_def timeout_constants
        PING_OLD_FORMAT_READ_TIMEOUT_def simp del: ping_task.simps conn_loop.simps)
qed

end
